(* ===== verification/Prelude.thy ===== *)
theory Prelude
  imports Main "HOL-Library.Word" "HOL-Library.Monad_Syntax"
begin

text \<open>
  Shared vocabulary of the development.

  The kernel is built with Cargo's \<open>dev\<close> profile (\<^verbatim>\<open>runner/build.rs\<close> runs
  \<^verbatim>\<open>cargo build\<close> without \<^verbatim>\<open>--release\<close>), so an arithmetic overflow, a failed
  \<^verbatim>\<open>assert!\<close> or \<^verbatim>\<open>debug_assert!\<close>, an index out of range and an
  \<^verbatim>\<open>unwrap\<close> of \<^verbatim>\<open>None\<close> all panic.  A computation that may panic has
  type \<^typ>\<open>'a option\<close>, where \<^term>\<open>None\<close> is the panic, and is written in the
  \<open>do\<close>-notation of the option monad.  A Rust \<^verbatim>\<open>Result<T, E>\<close> is the sum
  \<open>'e + 't\<close>, with \<^term>\<open>Inl\<close> for \<^verbatim>\<open>Err\<close>; a Rust \<^verbatim>\<open>Option\<close> is an
  option inside the panic layer.

  \<^verbatim>\<open>usize\<close> values on which the code does checked address arithmetic are natural
  numbers, with the 64-bit bound written out in \<open>uadd\<close>, \<open>usub\<close> and \<open>umul\<close>;
  values on which the code uses wrapping or bitwise operations are machine words.
\<close>

unbundle bit_operations_syntax

type_synonym u8 = "8 word"
type_synonym u16 = "16 word"
type_synonym u32 = "32 word"
type_synonym u64 = "64 word"

named_theorems unfold_arith \<open>unfolding of the overflow-checked operations\<close>

subsection \<open>Overflow-checked arithmetic on \<open>usize\<close>\<close>

abbreviation (input) usize_bound :: nat where
  "usize_bound \<equiv> 18446744073709551616"

definition uadd :: "nat \<Rightarrow> nat \<Rightarrow> nat option" where
  "uadd a b = (if a + b < usize_bound then Some (a + b) else None)"

definition usub :: "nat \<Rightarrow> nat \<Rightarrow> nat option" where
  "usub a b = (if b \<le> a then Some (a - b) else None)"

definition umul :: "nat \<Rightarrow> nat \<Rightarrow> nat option" where
  "umul a b = (if a * b < usize_bound then Some (a * b) else None)"

text \<open>\<^verbatim>\<open>assert!\<close> and \<^verbatim>\<open>debug_assert!\<close>: a panic unless the condition holds.\<close>

definition require :: "bool \<Rightarrow> unit option" where
  "require b = (if b then Some () else None)"

lemma uadd_Some [unfold_arith]: "uadd a b = Some c \<longleftrightarrow> c = a + b \<and> a + b < usize_bound"
  by (auto simp: uadd_def)

lemma usub_Some [unfold_arith]: "usub a b = Some c \<longleftrightarrow> c = a - b \<and> b \<le> a"
  by (auto simp: usub_def)

lemma umul_Some [unfold_arith]: "umul a b = Some c \<longleftrightarrow> c = a * b \<and> a * b < usize_bound"
  by (auto simp: umul_def)

lemma require_Some [simp]: "require b = Some u \<longleftrightarrow> b"
  by (auto simp: require_def)

lemma uadd_eq: "a + b < usize_bound \<Longrightarrow> uadd a b = Some (a + b)"
  by (simp add: uadd_def)

lemma usub_eq: "b \<le> a \<Longrightarrow> usub a b = Some (a - b)"
  by (simp add: usub_def)

lemma umul_eq: "a * b < usize_bound \<Longrightarrow> umul a b = Some (a * b)"
  by (simp add: umul_def)

lemma require_eq: "b \<Longrightarrow> require b = Some ()"
  by (simp add: require_def)

lemmas checked_eqs = uadd_eq usub_eq umul_eq require_eq

lemma unat_less_usize: "unat (x :: u64) < usize_bound"
  using unsigned_less [of x] by simp

subsection \<open>Counting leading zeros\<close>

text \<open>The number of significant bits; \<^verbatim>\<open>leading_zeros\<close> of a 64-bit value is the rest.\<close>

fun bit_len :: "nat \<Rightarrow> nat" where
  "bit_len x = (if x = 0 then 0 else Suc (bit_len (x div 2)))"

declare bit_len.simps [simp del]

definition leading_zeros64 :: "nat \<Rightarrow> nat" where
  "leading_zeros64 x = 64 - bit_len x"

lemma bit_len_0 [simp]: "bit_len 0 = 0"
  by (simp add: bit_len.simps)

lemma bit_len_bounds: "0 < x \<Longrightarrow> 2 ^ (bit_len x - 1) \<le> x \<and> x < 2 ^ bit_len x \<and> 0 < bit_len x"
proof (induction x rule: bit_len.induct)
  case (1 x)
  show ?case
  proof (cases "x div 2 = 0")
    case True
    with "1.prems" show ?thesis
      by (auto simp: bit_len.simps [of x])
  next
    case False
    with "1.prems" "1.IH" obtain n where n: "bit_len (x div 2) = Suc n"
        "2 ^ n \<le> x div 2" "x div 2 < 2 ^ Suc n"
      by (cases "bit_len (x div 2)") auto
    with "1.prems" show ?thesis
      by (auto simp: bit_len.simps [of x])
  qed
qed

lemma bit_len_le: "x < 2 ^ n \<Longrightarrow> bit_len x \<le> n"
proof (cases "x = 0")
  case False
  assume "x < 2 ^ n"
  moreover have "2 ^ (bit_len x - 1) \<le> x" "0 < bit_len x"
    using False bit_len_bounds by auto
  ultimately have "(2::nat) ^ (bit_len x - 1) < 2 ^ n"
    by linarith
  then have "bit_len x - 1 < n"
    by (simp add: power_strict_increasing_iff)
  then show ?thesis by linarith
qed simp

subsection \<open>Loops over a sequence of indices\<close>

text \<open>A \<^verbatim>\<open>for\<close> loop whose body may panic.\<close>

fun for_each :: "('i \<Rightarrow> 's \<Rightarrow> 's option) \<Rightarrow> 'i list \<Rightarrow> 's \<Rightarrow> 's option" where
  "for_each body [] s = Some s"
| "for_each body (i # is) s = do { s' \<leftarrow> body i s; for_each body is s' }"

lemma for_each_append:
  "for_each body (is @ js) s = do { s' \<leftarrow> for_each body is s; for_each body js s' }"
  by (induction "is" arbitrary: s) (auto split: bind_splits)

subsection \<open>Windows of consecutive residues\<close>

text \<open>Two positions less than \<open>m\<close> apart have different residues modulo \<open>m\<close>.\<close>

lemma mod_window_inj:
  fixes a i j m :: nat
  assumes "i < m" "j < m" "(a + i) mod m = (a + j) mod m"
  shows "i = j"
  using assms
proof (induction i j rule: linorder_wlog)
  case (le i j)
  then have "m dvd (a + j) - (a + i)"
    by (metis add_le_cancel_left mod_eq_dvd_iff_nat)
  with le show ?case
    by (auto dest: dvd_imp_le)
qed auto

end
