(* ===== verification/Queue_Interface.thy ===== *)
theory Queue_Interface
  imports Prelude "HOL-Library.Extended_Nat"
begin

text \<open>
  The contract between a bounded first-in first-out queue and its clients (the keyboard
  driver and the executor both talk to an \<^verbatim>\<open>ArrayQueue\<close>).  The contract is stated
  as a locale over the operations the clients call, and what a client may conclude about a
  whole sequence of pushes and pops is proved once inside it.

  A \<open>room\<close> is the number of further pushes for which the provider promises the
  contract.  It is \<open>\<infinity>\<close> for a provider without such a limit.
\<close>

subsection \<open>Operation sequences and the list specification\<close>

datatype 'a queue_op = Push 'a | Pop

datatype 'a queue_out = Pushed | Rejected 'a | Popped 'a | Was_empty

fun fifo_step :: "nat \<Rightarrow> 'a list \<Rightarrow> 'a queue_op \<Rightarrow> 'a queue_out \<times> 'a list" where
  "fifo_step cap xs (Push x) =
     (if length xs < cap then (Pushed, xs @ [x]) else (Rejected x, xs))"
| "fifo_step cap [] Pop = (Was_empty, [])"
| "fifo_step cap (x # xs) Pop = (Popped x, xs)"

fun fifo_run :: "nat \<Rightarrow> 'a list \<Rightarrow> 'a queue_op list \<Rightarrow> 'a queue_out list \<times> 'a list" where
  "fifo_run cap xs [] = ([], xs)"
| "fifo_run cap xs (op # ops) =
     (let (out, xs') = fifo_step cap xs op; (outs, ys) = fifo_run cap xs' ops
      in (out # outs, ys))"

text \<open>
  The same sequence on a provider.  \<open>pop\<close> is partial: \<^term>\<open>None\<close> stands for a read
  of an uninitialised slot.
\<close>

fun queue_step ::
    "('q \<Rightarrow> 'a \<Rightarrow> ('a + unit) \<times> 'q) \<Rightarrow> ('q \<Rightarrow> (('e + 'a) \<times> 'q) option) \<Rightarrow> 'q \<Rightarrow> 'a queue_op
       \<Rightarrow> ('a queue_out \<times> 'q) option" where
  "queue_step push pop q (Push x) =
     (case push q x of
        (Inl y, q') \<Rightarrow> Some (Rejected y, q')
      | (Inr _, q') \<Rightarrow> Some (Pushed, q'))"
| "queue_step push pop q Pop =
     (case pop q of
        None \<Rightarrow> None
      | Some (Inl _, q') \<Rightarrow> Some (Was_empty, q')
      | Some (Inr x, q') \<Rightarrow> Some (Popped x, q'))"

fun queue_run ::
    "('q \<Rightarrow> 'a \<Rightarrow> ('a + unit) \<times> 'q) \<Rightarrow> ('q \<Rightarrow> (('e + 'a) \<times> 'q) option) \<Rightarrow> 'q \<Rightarrow> 'a queue_op list
       \<Rightarrow> ('a queue_out list \<times> 'q) option" where
  "queue_run push pop q [] = Some ([], q)"
| "queue_run push pop q (op # ops) =
     do { (out, q') \<leftarrow> queue_step push pop q op;
          (outs, q'') \<leftarrow> queue_run push pop q' ops;
          Some (out # outs, q'') }"

subsection \<open>The contract\<close>

locale bounded_fifo =
  fixes invar :: "'q \<Rightarrow> bool"
    and contents :: "'q \<Rightarrow> 'a list"
    and capacity :: "'q \<Rightarrow> nat"
    and room :: "'q \<Rightarrow> enat"
    and push :: "'q \<Rightarrow> 'a \<Rightarrow> ('a + unit) \<times> 'q"
    and pop :: "'q \<Rightarrow> (('e + 'a) \<times> 'q) option"
    and is_empty :: "'q \<Rightarrow> bool"
    and pop_error :: 'e
  assumes push_room:
      "\<lbrakk>invar q; 0 < room q; length (contents q) < capacity q\<rbrakk> \<Longrightarrow>
         \<exists>q'. push q x = (Inr (), q') \<and> invar q' \<and> contents q' = contents q @ [x]
            \<and> capacity q' = capacity q \<and> room q \<le> eSuc (room q')"
    and push_full:
      "\<lbrakk>invar q; capacity q \<le> length (contents q)\<rbrakk> \<Longrightarrow> push q x = (Inl x, q)"
    and pop_first:
      "\<lbrakk>invar q; contents q = x # xs\<rbrakk> \<Longrightarrow>
         \<exists>q'. pop q = Some (Inr x, q') \<and> invar q' \<and> contents q' = xs
            \<and> capacity q' = capacity q \<and> room q' = room q"
    and pop_empty:
      "\<lbrakk>invar q; contents q = []\<rbrakk> \<Longrightarrow> pop q = Some (Inl pop_error, q)"
    and is_empty_iff:
      "invar q \<Longrightarrow> is_empty q \<longleftrightarrow> contents q = []"
    and contents_bounded:
      "invar q \<Longrightarrow> length (contents q) \<le> capacity q"
begin

text \<open>One operation of the provider is one operation of the list specification.\<close>

lemma step_refines:
  assumes "invar q" "0 < room q"
  shows "\<exists>q'. queue_step push pop q op = Some (fst (fifo_step (capacity q) (contents q) op), q')
     \<and> invar q' \<and> contents q' = snd (fifo_step (capacity q) (contents q) op)
     \<and> capacity q' = capacity q \<and> room q \<le> eSuc (room q')"
proof (cases op)
  case (Push x)
  show ?thesis
  proof (cases "length (contents q) < capacity q")
    case True
    with push_room [OF assms True, of x] show ?thesis
      by (auto simp: Push)
  next
    case False
    with assms push_full [of q x] show ?thesis
      by (auto simp: Push ile_eSuc)
  qed
next
  case Pop
  show ?thesis
  proof (cases "contents q")
    case Nil
    with assms pop_empty [of q] show ?thesis
      by (auto simp: Pop ile_eSuc)
  next
    case (Cons x xs)
    with assms pop_first [of q x xs] show ?thesis
      by (auto simp: Pop ile_eSuc)
  qed
qed

text \<open>
  Any sequence of operations no longer than the room refines the list specification:
  no uninitialised slot is read, every answer is the specification's answer, and the queue
  stays well formed.
\<close>

lemma run_refines:
  assumes "invar q" "enat (length ops) \<le> room q"
  shows "\<exists>q'. queue_run push pop q ops = Some (fst (fifo_run (capacity q) (contents q) ops), q')
     \<and> invar q' \<and> contents q' = snd (fifo_run (capacity q) (contents q) ops)
     \<and> capacity q' = capacity q"
  using assms
proof (induction ops arbitrary: q)
  case Nil
  then show ?case by simp
next
  case (Cons op ops)
  have "0 < room q"
    using Cons.prems(2) by (cases "room q") (auto simp: zero_enat_def)
  with Cons.prems(1) obtain q' where
    q': "queue_step push pop q op = Some (fst (fifo_step (capacity q) (contents q) op), q')"
      "invar q'" "contents q' = snd (fifo_step (capacity q) (contents q) op)"
      "capacity q' = capacity q" "room q \<le> eSuc (room q')"
    using step_refines by blast
  have "enat (length ops) \<le> room q'"
    using Cons.prems(2) q'(5) by (cases "room q'"; cases "room q") (auto simp: eSuc_enat)
  from Cons.IH [OF q'(2) this] q' show ?case
    by (auto simp: split_beta)
qed

end

end
