(* ===== verification/Array_Queue.thy ===== *)
theory Array_Queue
  imports Queue_Interface
begin

text \<open>
  \<^verbatim>\<open>kernel/src/array_queue.rs\<close>: the bounded ring buffer behind the executor's task
  queue and the keyboard's scancode queue.  \<open>head\<close> and \<open>tail\<close> are free-running 64-bit
  counters that wrap around; a slot index is the counter modulo the buffer length.  Both
  operations run inside \<^verbatim>\<open>without_interrupts\<close> on a single core, so each is one atomic
  step and the memory orderings play no role.

  A slot is \<^term>\<open>None\<close> while it is \<^verbatim>\<open>MaybeUninit::uninit()\<close>; a read of such a slot is
  undefined behaviour and makes \<open>pop\<close> return \<^term>\<open>None\<close>.
\<close>

subsection \<open>Definitions\<close>

record 'a array_queue =
  head :: u64
  tail :: u64
  buffer :: "'a option list"

datatype pop_error = PopError

definition aq_new :: "nat \<Rightarrow> 'a array_queue option" where
  "aq_new capacity =
     do { require (capacity > 0);
          Some \<lparr>head = 0, tail = 0, buffer = replicate capacity None\<rparr> }"

definition aq_push :: "'a array_queue \<Rightarrow> 'a \<Rightarrow> ('a + unit) \<times> 'a array_queue" where
  "aq_push q value =
     (let t = tail q; next_tail = t + 1
      in if unat (next_tail - head q) > length (buffer q) then (Inl value, q)
         else
           (let idx = unat t mod length (buffer q)
            in (Inr (), q\<lparr>buffer := (buffer q)[idx := Some value], tail := next_tail\<rparr>)))"

definition aq_pop :: "'a array_queue \<Rightarrow> ((pop_error + 'a) \<times> 'a array_queue) option" where
  "aq_pop q =
     (let h = head q
      in if h = tail q then Some (Inl PopError, q)
         else
           (let idx = unat h mod length (buffer q)
            in case buffer q ! idx of
                 None \<Rightarrow> None
               | Some value \<Rightarrow> Some (Inr value, q\<lparr>head := h + 1\<rparr>)))"

definition aq_is_empty :: "'a array_queue \<Rightarrow> bool" where
  "aq_is_empty q \<longleftrightarrow> head q = tail q"

subsection \<open>Abstraction and invariant\<close>

text \<open>The slot of the \<open>i\<close>-th element counted from the head.\<close>

definition aq_slot :: "'a array_queue \<Rightarrow> nat \<Rightarrow> nat" where
  "aq_slot q i = unat (head q + of_nat i) mod length (buffer q)"

definition aq_len :: "'a array_queue \<Rightarrow> nat" where
  "aq_len q = unat (tail q - head q)"

definition aq_contents :: "'a array_queue \<Rightarrow> 'a list" where
  "aq_contents q = map (\<lambda>i. the (buffer q ! aq_slot q i)) [0..<aq_len q]"

definition aq_capacity :: "'a array_queue \<Rightarrow> nat" where
  "aq_capacity q = length (buffer q)"

text \<open>
  The counters may wrap without harm only if the capacity divides \<open>2 ^ 64\<close>; otherwise the
  invariant keeps the head below the tail.
\<close>

definition aq_inv :: "'a array_queue \<Rightarrow> bool" where
  "aq_inv q \<longleftrightarrow>
     0 < length (buffer q) \<and> length (buffer q) < usize_bound - 1 \<and>
     aq_len q \<le> length (buffer q) \<and>
     (\<forall>i < aq_len q. buffer q ! aq_slot q i \<noteq> None) \<and>
     (length (buffer q) dvd usize_bound \<or> head q \<le> tail q)"

definition aq_room :: "'a array_queue \<Rightarrow> enat" where
  "aq_room q =
     (if length (buffer q) dvd usize_bound then \<infinity>
      else enat (usize_bound - 1 - unat (tail q)))"

subsection \<open>Slots\<close>

lemma aq_slot_less: "aq_inv q \<Longrightarrow> aq_slot q i < length (buffer q)"
  by (simp add: aq_inv_def aq_slot_def)

lemma tail_eq_head_plus_len: "tail q = head q + of_nat (aq_len q)"
  by (simp add: aq_len_def)

text \<open>Slots advance by one modulo the capacity, even across a wrap of the counter.\<close>

lemma aq_slot_eq:
  assumes "aq_inv q" "i \<le> aq_len q"
  shows "aq_slot q i = (unat (head q) + i) mod length (buffer q)"
proof (cases "length (buffer q) dvd usize_bound")
  case True
  have "unat (head q + of_nat i) = (unat (head q) + i) mod usize_bound"
    by (simp add: unat_word_ariths unat_of_nat mod_simps)
  with True show ?thesis
    by (simp add: aq_slot_def mod_mod_cancel)
next
  case False
  with assms have le: "head q \<le> tail q"
    by (simp add: aq_inv_def)
  then have "unat (head q) + aq_len q = unat (tail q)"
    unfolding aq_len_def by (simp add: unat_sub word_le_nat_alt)
  then have "unat (head q) + i < usize_bound"
    using assms(2) unat_less_usize [of "tail q"] by linarith
  then have "unat (head q + of_nat i) = unat (head q) + i"
    by (simp add: unat_word_ariths unat_of_nat mod_simps)
  then show ?thesis
    by (simp add: aq_slot_def)
qed

lemma aq_slot_distinct:
  assumes "aq_inv q" "i < aq_len q" "aq_len q < length (buffer q)"
  shows "aq_slot q i \<noteq> aq_slot q (aq_len q)"
proof
  assume "aq_slot q i = aq_slot q (aq_len q)"
  then have "(unat (head q) + i) mod length (buffer q)
      = (unat (head q) + aq_len q) mod length (buffer q)"
    using assms by (simp add: aq_slot_eq)
  from mod_window_inj [OF _ _ this] assms show False by auto
qed

lemma aq_inv_len_less: "aq_inv q \<Longrightarrow> aq_len q < usize_bound - 1"
  by (simp add: aq_inv_def)

lemma next_tail_distance:
  assumes "aq_inv q"
  shows "unat (tail q + 1 - head q) = aq_len q + 1"
proof -
  have "tail q + 1 - head q = of_nat (aq_len q + 1)"
    by (simp add: aq_len_def)
  then have "unat (tail q + 1 - head q) = (aq_len q + 1) mod usize_bound"
    by (simp only: unat_of_nat) simp
  then show ?thesis
    using aq_inv_len_less [OF assms] by simp
qed

lemma length_aq_contents [simp]: "length (aq_contents q) = aq_len q"
  by (simp add: aq_contents_def)


subsection \<open>The operations meet the queue contract\<close>

lemma aq_push_room:
  assumes inv: "aq_inv q" and room: "0 < aq_room q"
    and free: "length (aq_contents q) < aq_capacity q"
  shows "\<exists>q'. aq_push q x = (Inr (), q') \<and> aq_inv q' \<and> aq_contents q' = aq_contents q @ [x]
     \<and> aq_capacity q' = aq_capacity q \<and> aq_room q \<le> eSuc (aq_room q')"
proof -
  let ?n = "aq_len q" and ?idx = "aq_slot q (aq_len q)"
  define q' where "q' = q\<lparr>buffer := (buffer q)[?idx := Some x], tail := tail q + 1\<rparr>"
  have less: "?n < length (buffer q)"
    using free by (simp add: aq_capacity_def)
  have push: "aq_push q x = (Inr (), q')"
    using less next_tail_distance [OF inv] tail_eq_head_plus_len [of q]
    by (simp add: aq_push_def Let_def q'_def aq_slot_def)
  have len': "aq_len q' = ?n + 1"
    using next_tail_distance [OF inv] by (simp add: q'_def aq_len_def)
  have slot': "aq_slot q' i = aq_slot q i" for i
    by (simp add: q'_def aq_slot_def)
  have old: "buffer q' ! aq_slot q i = buffer q ! aq_slot q i" if "i < ?n" for i
    using aq_slot_distinct [OF inv that less] by (simp add: q'_def)
  have new: "buffer q' ! ?idx = Some x"
    using aq_slot_less [OF inv] by (simp add: q'_def)
  have contents: "aq_contents q' = aq_contents q @ [x]"
    by (simp add: aq_contents_def len' slot' new old)
  have wrap: "length (buffer q) dvd usize_bound \<or> unat (tail q) + 1 < usize_bound"
    using room by (auto simp: aq_room_def zero_enat_def split: if_splits)
  then have order: "length (buffer q) dvd usize_bound \<or> head q' \<le> tail q'"
    using inv by (auto simp: aq_inv_def q'_def word_le_nat_alt unat_word_ariths)
  have "aq_inv q'"
    unfolding aq_inv_def len' slot'
    using inv less order old new
    by (auto simp: aq_inv_def q'_def less_Suc_eq)
  moreover have "aq_room q \<le> eSuc (aq_room q')"
    using wrap by (auto simp: aq_room_def q'_def eSuc_enat unat_word_ariths)
  ultimately show ?thesis
    using push contents by (auto simp: aq_capacity_def q'_def)
qed

lemma aq_push_full:
  assumes "aq_inv q" "aq_capacity q \<le> length (aq_contents q)"
  shows "aq_push q x = (Inl x, q)"
  using assms next_tail_distance [OF assms(1)]
  by (simp add: aq_push_def Let_def aq_capacity_def)

lemma aq_pop_first:
  assumes inv: "aq_inv q" and contents: "aq_contents q = x # xs"
  shows "\<exists>q'. aq_pop q = Some (Inr x, q') \<and> aq_inv q' \<and> aq_contents q' = xs
     \<and> aq_capacity q' = aq_capacity q \<and> aq_room q' = aq_room q"
proof -
  define q' where "q' = q\<lparr>head := head q + 1\<rparr>"
  have len: "aq_len q = Suc (length xs)"
    using contents length_aq_contents [of q] by simp
  then have ne: "head q \<noteq> tail q"
    by (auto simp: aq_len_def)
  have slot0: "aq_slot q 0 = unat (head q) mod length (buffer q)"
    by (simp add: aq_slot_def)
  have first: "buffer q ! aq_slot q 0 = Some x"
    using inv len contents
    by (auto simp: aq_inv_def aq_contents_def upt_conv_Cons simp del: upt_Suc)
  have "tail q - (head q + 1) = of_nat (length xs)"
    using len tail_eq_head_plus_len [of q] by (simp add: algebra_simps)
  then have len': "aq_len q' = length xs"
    using aq_inv_len_less [OF inv] len by (simp add: aq_len_def q'_def unat_of_nat)
  have slot': "aq_slot q' i = aq_slot q (Suc i)" for i
    by (simp add: q'_def aq_slot_def algebra_simps)
  have "aq_contents q = x # map (\<lambda>i. the (buffer q ! aq_slot q (Suc i))) [0..<length xs]"
    using len first
    by (simp add: aq_contents_def upt_conv_Cons map_Suc_upt [symmetric] del: upt_Suc)
  then have contents': "aq_contents q' = xs"
    using contents by (simp add: aq_contents_def len' slot') (simp add: q'_def)
  have order: "length (buffer q) dvd usize_bound \<or> head q' \<le> tail q'"
    using inv ne unat_less_usize [of "tail q"]
    by (auto simp: aq_inv_def q'_def word_le_nat_alt unat_word_ariths word_unat_eq_iff)
  have "aq_inv q'"
    using inv len order
    by (auto simp: aq_inv_def len' slot') (auto simp: q'_def)
  then show ?thesis
    using ne first slot0 contents'
    by (auto simp: aq_pop_def Let_def q'_def aq_capacity_def aq_room_def)
qed

lemma aq_pop_empty:
  assumes "aq_inv q" "aq_contents q = []"
  shows "aq_pop q = Some (Inl PopError, q)"
  using assms length_aq_contents [of q]
  by (simp add: aq_pop_def aq_len_def unat_eq_zero)

lemma aq_is_empty_iff: "aq_inv q \<Longrightarrow> aq_is_empty q \<longleftrightarrow> aq_contents q = []"
  using length_aq_contents [of q]
  by (auto simp: aq_is_empty_def aq_len_def unat_eq_zero simp flip: length_0_conv)

interpretation aq: bounded_fifo aq_inv aq_contents aq_capacity aq_room aq_push aq_pop
    aq_is_empty PopError
proof unfold_locales
  show "length (aq_contents q) \<le> aq_capacity q" if "aq_inv q" for q :: "'a array_queue"
    using that by (simp add: aq_inv_def aq_capacity_def)
qed (simp_all add: aq_push_room aq_push_full aq_pop_first aq_pop_empty aq_is_empty_iff)


lemma aq_new_inv:
  assumes "aq_new cap = Some q" "cap < usize_bound - 1"
  shows "aq_inv q" "aq_contents q = []" "aq_capacity q = cap"
    "enat (usize_bound - 1) \<le> aq_room q"
  using assms
  by (auto simp: aq_new_def aq_inv_def aq_contents_def aq_len_def aq_capacity_def aq_room_def
      split: bind_splits)

subsection \<open>Properties\<close>

text \<open>
  C7 (refinement). From a freshly created queue of any capacity, every sequence of at most
  \<open>2 ^ 64 - 1\<close> pushes and pops answers exactly as a bounded first-in first-out list does: pushes
  fail precisely when the queue is full and give the value back, pops return the oldest element,
  and no uninitialised slot is ever read.
\<close>

theorem aq_refines_fifo:
  assumes "aq_new cap = Some q" "cap < 2 ^ 64 - 1" "length ops \<le> 2 ^ 64 - 1"
  shows "\<exists>q'. queue_run aq_push aq_pop q ops = Some (fst (fifo_run cap [] ops), q')
     \<and> aq_contents q' = snd (fifo_run cap [] ops)"
proof -
  have "cap < usize_bound - 1"
    using assms(2) by simp
  note new = aq_new_inv [OF assms(1) this]
  have "enat (length ops) \<le> aq_room q"
    using new(4) assms(3) by (auto intro: order_trans [rotated])
  from aq.run_refines [OF new(1) this] show ?thesis
    by (auto simp: new)
qed

theorem aq_refines_fifo_witness:
  "\<exists>q'. queue_run aq_push aq_pop \<lparr>head = 0, tail = 0, buffer = [None, None]\<rparr>
        [Push CHR ''a'', Push CHR ''b'', Push CHR ''c'', Pop] =
      Some ([Pushed, Pushed, Rejected CHR ''c'', Popped CHR ''a''], q')
     \<and> aq_contents q' = ''b''"
proof -
  let ?ops = "[Push CHR ''a'', Push CHR ''b'', Push CHR ''c'', Pop]"
  have new: "aq_new 2 = Some \<lparr>head = 0, tail = 0, buffer = [None, None :: char option]\<rparr>"
    by (simp add: aq_new_def require_def numeral_2_eq_2)
  have "fifo_run 2 [] ?ops = ([Pushed, Pushed, Rejected CHR ''c'', Popped CHR ''a''], ''b'')"
    by simp
  with aq_refines_fifo [OF new, of ?ops] show ?thesis
    by (simp del: queue_run.simps fifo_run.simps)
qed

text \<open>
  C18 (refinement). If the capacity divides \<open>2 ^ 64\<close> (a power of two), there is no bound on the
  length of the sequence: the wrap-around of the two counters is invisible.
\<close>

theorem aq_refines_fifo_pow2:
  assumes "aq_new (2 ^ k) = Some q" "k < 64"
  shows "\<exists>q'. queue_run aq_push aq_pop q ops = Some (fst (fifo_run (2 ^ k) [] ops), q')
     \<and> aq_contents q' = snd (fifo_run (2 ^ k) [] ops)"
proof -
  have "(2::nat) ^ k \<le> 2 ^ 63"
    using assms(2) by (intro power_increasing) auto
  then have less: "(2::nat) ^ k < usize_bound - 1"
    by simp
  note new = aq_new_inv [OF assms(1) less]
  have "(2::nat) ^ k dvd 2 ^ 64"
    using assms(2) by (intro le_imp_power_dvd) auto
  then have "aq_room q = \<infinity>"
    using new(3) by (simp add: aq_room_def aq_capacity_def)
  then have "enat (length ops) \<le> aq_room q"
    by simp
  from aq.run_refines [OF new(1) this] show ?thesis
    by (auto simp: new)
qed

theorem aq_refines_fifo_pow2_witness:
  "\<exists>q'. queue_run aq_push aq_pop \<lparr>head = 0, tail = 0, buffer = [None, None]\<rparr>
        [Push CHR ''a'', Pop, Pop] =
      Some ([Pushed, Popped CHR ''a'', Was_empty], q') \<and> aq_contents q' = []"
proof -
  let ?ops = "[Push CHR ''a'', Pop, Pop]"
  have new: "aq_new (2 ^ 1) = Some \<lparr>head = 0, tail = 0, buffer = [None, None :: char option]\<rparr>"
    by (simp add: aq_new_def require_def numeral_2_eq_2)
  have "fifo_run (2 ^ 1) [] ?ops = ([Pushed, Popped CHR ''a'', Was_empty], [])"
    by simp
  with aq_refines_fifo_pow2 [OF new, of ?ops] show ?thesis
    by (simp del: queue_run.simps fifo_run.simps)
qed

text \<open>The largest value of the 64-bit counters.\<close>

definition counter_max :: nat where
  "counter_max = 2 ^ 64 - 1"

text \<open>Runs compose, and push/pop pairs on an empty queue advance both counters.\<close>

lemma queue_run_append:
  assumes "queue_run psh pp q ops1 = Some (outs1, q1)" "queue_run psh pp q1 ops2 = Some (outs2, q2)"
  shows "queue_run psh pp q (ops1 @ ops2) = Some (outs1 @ outs2, q2)"
  using assms
  by (induction ops1 arbitrary: q outs1) (auto split: bind_splits)

lemma push_pop_pairs:
  assumes "length buf = cap" "0 < cap" "cap < usize_bound - 1"
  shows "\<exists>buf' outs. length buf' = cap \<and>
      queue_run aq_push aq_pop \<lparr>head = c, tail = c, buffer = buf\<rparr>
        (concat (replicate n [Push a, Pop])) =
      Some (outs, \<lparr>head = c + of_nat n, tail = c + of_nat n, buffer = buf'\<rparr>)"
  using assms
proof (induction n arbitrary: c buf)
  case 0
  then show ?case by simp
next
  case (Suc n)
  let ?buf = "buf[unat c mod cap := Some a]"
  have "unat (c + 1 - c) = 1"
    by simp
  moreover have "c \<noteq> c + 1"
    by simp
  ultimately have pair: "queue_run aq_push aq_pop \<lparr>head = c, tail = c, buffer = buf\<rparr> [Push a, Pop]
      = Some ([Pushed, Popped a], \<lparr>head = c + 1, tail = c + 1, buffer = ?buf\<rparr>)"
    using Suc.prems by (simp add: aq_push_def aq_pop_def)
  obtain buf' outs where "length buf' = cap" and
    rest: "queue_run aq_push aq_pop \<lparr>head = c + 1, tail = c + 1, buffer = ?buf\<rparr>
        (concat (replicate n [Push a, Pop])) =
      Some (outs, \<lparr>head = c + 1 + of_nat n, tail = c + 1 + of_nat n, buffer = buf'\<rparr>)"
    using Suc.IH [of ?buf "c + 1"] Suc.prems by auto
  then show ?case
    using queue_run_append [OF pair rest] by (auto simp: algebra_simps)
qed

text \<open>
  C19 (safety, a defect). Both queues of the kernel have capacity 100, which does not divide
  \<open>2 ^ 64\<close>. Once the counters have reached \<open>2 ^ 64 - 1\<close>, slot indices repeat across the
  wrap: after 17 accepted pushes the first pop returns the last value, so an element is lost
  although no push was rejected.
\<close>

theorem aq_capacity_100_loses_an_element:
  "\<exists>q outs q'. aq_new 100 = Some q \<and>
     queue_run aq_push aq_pop q
       (concat (replicate counter_max [Push 0, Pop]) @ map Push [0..<17] @ [Pop]) =
     Some (outs @ map (\<lambda>_. Pushed) [0..<17] @ [Popped 16], q')"
proof -
  define q0 :: "nat array_queue" where "q0 = \<lparr>head = 0, tail = 0, buffer = replicate 100 None\<rparr>"
  obtain buf outs where len: "length buf = 100" and
    pairs: "queue_run aq_push aq_pop q0 (concat (replicate counter_max [Push (0::nat), Pop])) =
      Some (outs, \<lparr>head = 0 + of_nat counter_max, tail = 0 + of_nat counter_max, buffer = buf\<rparr>)"
    using push_pop_pairs [of "buffer q0" 100 0 counter_max "0::nat"] by (auto simp: q0_def)
  have c: "of_nat counter_max = (18446744073709551615 :: u64)"
    by (simp add: counter_max_def)
  have "\<exists>q'. queue_run aq_push aq_pop
        \<lparr>head = 18446744073709551615, tail = 18446744073709551615, buffer = buf\<rparr>
        (map Push [0..<17] @ [Pop]) = Some (map (\<lambda>_. Pushed) [0..<17] @ [Popped 16], q')"
    using len by (simp add: aq_push_def aq_pop_def upt_rec)
  then show ?thesis
    using queue_run_append [OF pairs] unfolding c
    by (auto simp: aq_new_def require_def q0_def simp del: append_assoc)
qed

end
