(* ===== verification/Monitor.thy ===== *)
theory Monitor
  imports Prelude
begin

text \<open>
  \<^verbatim>\<open>kernel/src/monitor.rs\<close>: the global metric counters.  Every counter is a 64-bit
  atomic, so \<^verbatim>\<open>fetch_add\<close> and \<^verbatim>\<open>fetch_sub\<close> wrap; the plain \<^verbatim>\<open>+\<close> in
  \<^verbatim>\<open>inc_alloc\<close> panics on overflow.

  \<^verbatim>\<open>compare_exchange_weak\<close> may fail spuriously.  The compare-and-swap loop therefore
  takes a list of booleans, the spurious failures of the successive attempts; after the list
  is used up no attempt fails spuriously.  On the single core no other writer intervenes, so
  the value a failed attempt reports is the stored one.
\<close>

subsection \<open>Definitions\<close>

record monitor_data =
  alloc_count :: u64
  free_count :: u64
  current_allocated :: u64
  peak_allocated :: u64
  allocated_frames :: u64
  m_total_frames :: u64
  tasks_spawned :: u64
  tasks_completed :: u64
  active_tasks :: u64
  interrupt_counts :: "u64 list"
  timer_ticks :: u64
  dropped_wakes :: u64

definition monitor_new :: monitor_data where
  "monitor_new =
     \<lparr>alloc_count = 0, free_count = 0, current_allocated = 0, peak_allocated = 0,
      allocated_frames = 0, m_total_frames = 0, tasks_spawned = 0, tasks_completed = 0,
      active_tasks = 0, interrupt_counts = replicate 16 0, timer_ticks = 0, dropped_wakes = 0\<rparr>"

text \<open>The loop that raises the recorded peak to \<open>new\<close>.\<close>

fun raise_peak :: "bool list \<Rightarrow> u64 \<Rightarrow> u64 \<Rightarrow> monitor_data \<Rightarrow> monitor_data" where
  "raise_peak spurious new peak m =
     (if new > peak then
        (case spurious of
           [] \<Rightarrow>
             (if peak_allocated m = peak then m\<lparr>peak_allocated := new\<rparr>
              else if new > peak_allocated m then m\<lparr>peak_allocated := new\<rparr> else m)
         | failed # rest \<Rightarrow>
             (if peak_allocated m = peak \<and> \<not> failed then m\<lparr>peak_allocated := new\<rparr>
              else raise_peak rest new (peak_allocated m) m))
      else m)"

definition inc_alloc :: "bool list \<Rightarrow> u64 \<Rightarrow> monitor_data \<Rightarrow> monitor_data option" where
  "inc_alloc spurious sz m =
     (let m1 = m\<lparr>alloc_count := alloc_count m + 1\<rparr>;
          prev = current_allocated m1;
          m2 = m1\<lparr>current_allocated := prev + sz\<rparr>
      in do { new \<leftarrow> uadd (unat prev) (unat sz);
              Some (raise_peak spurious (of_nat new) (peak_allocated m2) m2) })"

definition inc_free :: "u64 \<Rightarrow> monitor_data \<Rightarrow> monitor_data" where
  "inc_free sz m =
     m\<lparr>free_count := free_count m + 1, current_allocated := current_allocated m - sz\<rparr>"

definition set_frame_metrics :: "nat \<Rightarrow> monitor_data \<Rightarrow> monitor_data" where
  "set_frame_metrics tot m = m\<lparr>m_total_frames := of_nat tot\<rparr>"

definition inc_allocated_frames :: "nat \<Rightarrow> monitor_data \<Rightarrow> monitor_data" where
  "inc_allocated_frames count m = m\<lparr>allocated_frames := allocated_frames m + of_nat count\<rparr>"

definition dec_allocated_frames :: "nat \<Rightarrow> monitor_data \<Rightarrow> monitor_data" where
  "dec_allocated_frames count m = m\<lparr>allocated_frames := allocated_frames m - of_nat count\<rparr>"

definition inc_task_spawned :: "monitor_data \<Rightarrow> monitor_data" where
  "inc_task_spawned m =
     m\<lparr>tasks_spawned := tasks_spawned m + 1, active_tasks := active_tasks m + 1\<rparr>"

definition inc_task_completed :: "monitor_data \<Rightarrow> monitor_data" where
  "inc_task_completed m =
     m\<lparr>tasks_completed := tasks_completed m + 1, active_tasks := active_tasks m - 1\<rparr>"

text \<open>\<^verbatim>\<open>irq.saturating_sub(0x20)\<close>: every vector below 32 lands on slot 0.\<close>

definition inc_interrupt :: "u8 \<Rightarrow> monitor_data \<Rightarrow> monitor_data" where
  "inc_interrupt irq m =
     (let idx = unat irq - 32
      in if idx < 16
         then m\<lparr>interrupt_counts := (interrupt_counts m)[idx := interrupt_counts m ! idx + 1]\<rparr>
         else m)"

definition inc_timer_tick :: "monitor_data \<Rightarrow> monitor_data" where
  "inc_timer_tick m = m\<lparr>timer_ticks := timer_ticks m + 1\<rparr>"

definition uptime_ticks :: "monitor_data \<Rightarrow> u64" where
  "uptime_ticks m = timer_ticks m"

definition inc_dropped_wake :: "monitor_data \<Rightarrow> monitor_data" where
  "inc_dropped_wake m = m\<lparr>dropped_wakes := dropped_wakes m + 1\<rparr>"

text \<open>
  The snapshot copies every counter; with no concurrent writer it is the state itself, with the
  interrupt counters copied one by one.
\<close>

definition snapshot :: "monitor_data \<Rightarrow> monitor_data" where
  "snapshot m = m\<lparr>interrupt_counts := map (\<lambda>i. interrupt_counts m ! i) [0..<16]\<rparr>"

subsection \<open>Lemmas\<close>

declare raise_peak.simps [simp del]

text \<open>The loop ends after any finite number of spurious failures and records the maximum.\<close>

lemma raise_peak_max:
  "peak \<le> peak_allocated m \<Longrightarrow>
     raise_peak spurious new peak m = m\<lparr>peak_allocated := max (peak_allocated m) new\<rparr>"
proof (induction spurious arbitrary: peak)
  case Nil
  then show ?case
    by (subst raise_peak.simps) (auto simp: max_def)
next
  case (Cons failed rest)
  from Cons.IH [of "peak_allocated m"] Cons.prems show ?case
    by (subst raise_peak.simps) (auto simp: max_def)
qed

lemma inc_alloc_eq:
  assumes "unat (current_allocated m) + unat sz < 2 ^ 64"
  shows "inc_alloc spurious sz m =
     Some (m\<lparr>alloc_count := alloc_count m + 1, current_allocated := current_allocated m + sz,
             peak_allocated := max (peak_allocated m) (current_allocated m + sz)\<rparr>)"
  using assms by (simp add: inc_alloc_def uadd_def raise_peak_max Let_def)

end
