(* ===== verification/Buddy.thy ===== *)
theory Buddy
  imports Monitor
begin

text \<open>
  \<^verbatim>\<open>kernel/src/memory/buddy.rs\<close>: the physical frame allocator.

  The record holds the fields of \<^verbatim>\<open>BuddyAllocator\<close>, then the two things its methods write
  outside the struct: the physical memory it threads the free lists through, and the global
  metrics.  The arrays \<^verbatim>\<open>free_lists\<close> and \<^verbatim>\<open>bitmap\<close> are functions on their
  indices, with the bound of the array checked at every access.  Memory is a function from the
  byte address of an aligned \<^verbatim>\<open>usize\<close> cell to its value: the allocator only touches the
  first two cells of frames, which never overlap.

  \<^verbatim>\<open>PhysFrame::containing_address(PhysAddr::new(_))\<close> and \<^verbatim>\<open>start_address\<close>
  belong to the \<^verbatim>\<open>x86_64\<close> crate: they are the fields of a \<open>frame_api\<close> parameter.
  The memory map is the list of \<^verbatim>\<open>MemoryRegion\<close>s handed over by the boot loader.
\<close>

subsection \<open>Interfaces to other crates\<close>

datatype memory_region_kind = Usable | Bootloader | UnknownUefi u32 | UnknownBios u32

record memory_region =
  region_start :: nat
  region_end :: nat
  region_kind :: memory_region_kind

record 'f frame_api =
  containing_address :: "nat \<Rightarrow> 'f option"
  start_address :: "'f \<Rightarrow> nat"

text \<open>
  What the allocator relies on: a page-aligned 52-bit physical address is accepted by
  \<^verbatim>\<open>PhysAddr::new\<close> and is the start address of the frame that contains it.
\<close>

definition frame_api_ok :: "'f frame_api \<Rightarrow> bool" where
  "frame_api_ok api \<longleftrightarrow>
     (\<forall>p. p mod 4096 = 0 \<and> p < 2 ^ 52 \<longrightarrow>
        (\<exists>f. containing_address api p = Some f \<and> start_address api f = p))"

subsection \<open>The allocator\<close>

definition MAX_ORDER :: nat where "MAX_ORDER = 10"
definition MAX_TRACKED_FRAMES :: nat where "MAX_TRACKED_FRAMES = 131072"
definition BITMAP_U64_LEN :: nat where "BITMAP_U64_LEN = MAX_TRACKED_FRAMES div 64"
definition NULL_LINK :: nat where "NULL_LINK = 18446744073709551615"

record buddy =
  free_lists :: "nat \<Rightarrow> nat option"
  bitmap :: "nat \<Rightarrow> u64"
  total_frames :: nat
  base_phys :: nat
  phys_mem_offset :: nat
  allocated_count :: nat
  pmem :: "nat \<Rightarrow> nat"
  mon :: monitor_data

text \<open>Array accesses panic out of range.\<close>

definition get_free_list :: "buddy \<Rightarrow> nat \<Rightarrow> nat option option" where
  "get_free_list b order = (if order \<le> MAX_ORDER then Some (free_lists b order) else None)"

definition set_free_list :: "nat \<Rightarrow> nat option \<Rightarrow> buddy \<Rightarrow> buddy option" where
  "set_free_list order v b =
     (if order \<le> MAX_ORDER then Some (b\<lparr>free_lists := (free_lists b)(order := v)\<rparr>) else None)"

definition bitmap_index :: "nat \<Rightarrow> nat \<times> u64" where
  "bitmap_index idx = (idx div 64, push_bit (idx mod 64) 1)"

definition is_free :: "buddy \<Rightarrow> nat \<Rightarrow> bool option" where
  "is_free b idx =
     (let (word, bit) = bitmap_index idx
      in if word < BITMAP_U64_LEN then Some ((bitmap b word AND bit) \<noteq> 0) else None)"

fun all_free :: "buddy \<Rightarrow> nat list \<Rightarrow> bool option" where
  "all_free b [] = Some True"
| "all_free b (i # is) = do { f \<leftarrow> is_free b i; if \<not> f then Some False else all_free b is }"

definition is_range_free :: "buddy \<Rightarrow> nat \<Rightarrow> nat \<Rightarrow> bool option" where
  "is_range_free b start count =
     do { e \<leftarrow> uadd start count;
          if e > total_frames b then Some False
          else all_free b [start..<start + count] }"

definition mark_free :: "nat \<Rightarrow> buddy \<Rightarrow> buddy option" where
  "mark_free idx b =
     (let (word, bit) = bitmap_index idx
      in if word < BITMAP_U64_LEN
         then Some (b\<lparr>bitmap := (bitmap b)(word := bitmap b word OR bit)\<rparr>) else None)"

definition mark_allocated :: "nat \<Rightarrow> buddy \<Rightarrow> buddy option" where
  "mark_allocated idx b =
     (let (word, bit) = bitmap_index idx
      in if word < BITMAP_U64_LEN
         then Some (b\<lparr>bitmap := (bitmap b)(word := bitmap b word AND NOT bit)\<rparr>) else None)"

definition mark_range_allocated :: "nat \<Rightarrow> nat \<Rightarrow> buddy \<Rightarrow> buddy option" where
  "mark_range_allocated start count = for_each mark_allocated [start..<start + count]"

definition mark_range_free :: "nat \<Rightarrow> nat \<Rightarrow> buddy \<Rightarrow> buddy option" where
  "mark_range_free start count = for_each mark_free [start..<start + count]"

definition is_aligned_for_order :: "nat \<Rightarrow> nat \<Rightarrow> bool" where
  "is_aligned_for_order idx order \<longleftrightarrow> idx AND (2 ^ order - 1) = 0"

subsubsection \<open>Address conversion\<close>

definition idx_to_phys :: "buddy \<Rightarrow> nat \<Rightarrow> nat option" where
  "idx_to_phys b idx = do { o4 \<leftarrow> umul idx 4096; uadd (base_phys b) o4 }"

definition phys_to_idx :: "buddy \<Rightarrow> nat \<Rightarrow> nat option" where
  "phys_to_idx b phys = do { d \<leftarrow> usub phys (base_phys b); Some (d div 4096) }"

definition frame_idx_to_ptr :: "buddy \<Rightarrow> nat \<Rightarrow> nat option" where
  "frame_idx_to_ptr b idx = do { p \<leftarrow> idx_to_phys b idx; uadd p (phys_mem_offset b) }"

subsubsection \<open>Free-list links in memory\<close>

definition poke :: "nat \<Rightarrow> nat \<Rightarrow> buddy \<Rightarrow> buddy" where
  "poke addr v b = b\<lparr>pmem := (pmem b)(addr := v)\<rparr>"

definition insert_free :: "nat \<Rightarrow> nat \<Rightarrow> buddy \<Rightarrow> buddy option" where
  "insert_free idx order b0 =
     do { require (is_aligned_for_order idx order);
          b1 \<leftarrow> mark_range_free idx (2 ^ order) b0;
          header \<leftarrow> frame_idx_to_ptr b1 idx;
          old_head \<leftarrow> get_free_list b1 order;
          let b2 = poke header (case old_head of None \<Rightarrow> NULL_LINK | Some h \<Rightarrow> h) b1;
          let b3 = poke (header + 8) NULL_LINK b2;
          b4 \<leftarrow> (case old_head of
                  None \<Rightarrow> Some b3
                | Some old \<Rightarrow>
                    do { old_header \<leftarrow> frame_idx_to_ptr b3 old;
                         Some (poke (old_header + 8) idx b3) });
          set_free_list order (Some idx) b4 }"

definition pop_free :: "nat \<Rightarrow> buddy \<Rightarrow> (nat option \<times> buddy) option" where
  "pop_free order b0 =
     do { h \<leftarrow> get_free_list b0 order;
          case h of
            None \<Rightarrow> Some (None, b0)
          | Some idx \<Rightarrow>
              do { header \<leftarrow> frame_idx_to_ptr b0 idx;
                   let nxt = pmem b0 header;
                   b1 \<leftarrow> (if nxt \<noteq> NULL_LINK
                          then do { next_header \<leftarrow> frame_idx_to_ptr b0 nxt;
                                    Some (poke (next_header + 8) NULL_LINK b0) }
                          else Some b0);
                   b2 \<leftarrow> set_free_list order (if nxt = NULL_LINK then None else Some nxt) b1;
                   b3 \<leftarrow> mark_range_allocated idx (2 ^ order) b2;
                   Some (Some idx, b3) } }"

definition remove_free :: "nat \<Rightarrow> nat \<Rightarrow> buddy \<Rightarrow> buddy option" where
  "remove_free idx order b0 =
     do { header \<leftarrow> frame_idx_to_ptr b0 idx;
          let nxt = pmem b0 header;
          let prv = pmem b0 (header + 8);
          b1 \<leftarrow> (if prv \<noteq> NULL_LINK
                 then do { prev_header \<leftarrow> frame_idx_to_ptr b0 prv;
                           Some (poke prev_header nxt b0) }
                 else set_free_list order (if nxt = NULL_LINK then None else Some nxt) b0);
          if nxt \<noteq> NULL_LINK
          then do { next_header \<leftarrow> frame_idx_to_ptr b1 nxt;
                    Some (poke (next_header + 8) prv b1) }
          else Some b1 }"

subsubsection \<open>Allocation and deallocation\<close>

function find_order :: "buddy \<Rightarrow> nat \<Rightarrow> nat" where
  "find_order b k =
     (if k \<le> MAX_ORDER \<and> free_lists b k = None then find_order b (k + 1) else k)"
  by pat_completeness auto
termination
  by (relation "measure (\<lambda>(b, k). Suc MAX_ORDER - k)") auto

fun split_down :: "nat \<Rightarrow> nat \<Rightarrow> nat \<Rightarrow> buddy \<Rightarrow> buddy option" where
  "split_down idx alloc_order order b =
     (if alloc_order > order
      then do { bud \<leftarrow> uadd idx (2 ^ (alloc_order - 1));
                b' \<leftarrow> insert_free bud (alloc_order - 1) b;
                split_down idx (alloc_order - 1) order b' }
      else Some b)"

definition allocate_frame_order ::
    "'f frame_api \<Rightarrow> nat \<Rightarrow> buddy \<Rightarrow> ('f option \<times> buddy) option" where
  "allocate_frame_order api order b0 =
     (if order > MAX_ORDER then Some (None, b0)
      else
        (let alloc_order = find_order b0 order
         in if alloc_order > MAX_ORDER then Some (None, b0)
            else
              do { (popped, b1) \<leftarrow> pop_free alloc_order b0;
                   case popped of
                     None \<Rightarrow> Some (None, b1)
                   | Some idx \<Rightarrow>
                       do { b2 \<leftarrow> split_down idx alloc_order order b1;
                            count \<leftarrow> uadd (allocated_count b2) (2 ^ order);
                            let b3 = b2\<lparr>allocated_count := count\<rparr>;
                            let b4 = b3\<lparr>mon := inc_allocated_frames (2 ^ order) (mon b3)\<rparr>;
                            phys \<leftarrow> idx_to_phys b4 idx;
                            frame \<leftarrow> containing_address api phys;
                            Some (Some frame, b4) } }))"

function coalesce_up :: "nat \<Rightarrow> nat \<Rightarrow> buddy \<Rightarrow> (nat \<times> nat \<times> buddy) option" where
  "coalesce_up idx order b0 =
     (if order < MAX_ORDER
      then
        (let buddy_idx = idx XOR 2 ^ order
         in if buddy_idx \<ge> total_frames b0 then Some (idx, order, b0)
            else
              do { r \<leftarrow> is_range_free b0 buddy_idx (2 ^ order);
                   if \<not> r then Some (idx, order, b0)
                   else
                     do { b1 \<leftarrow> remove_free buddy_idx order b0;
                          b2 \<leftarrow> mark_range_allocated buddy_idx (2 ^ order) b1;
                          coalesce_up (min idx buddy_idx) (order + 1) b2 } })
      else Some (idx, order, b0))"
  by pat_completeness auto
termination
  by (relation "measure (\<lambda>(idx, order, b). MAX_ORDER - order)") auto

definition deallocate_frame_order :: "'f frame_api \<Rightarrow> 'f \<Rightarrow> nat \<Rightarrow> buddy \<Rightarrow> buddy option" where
  "deallocate_frame_order api frame order b0 =
     (if order > MAX_ORDER then Some b0
      else
        do { count \<leftarrow> usub (allocated_count b0) (2 ^ order);
             let b1 = b0\<lparr>allocated_count := count\<rparr>;
             let b2 = b1\<lparr>mon := dec_allocated_frames (2 ^ order) (mon b1)\<rparr>;
             idx \<leftarrow> phys_to_idx b2 (start_address api frame);
             (idx', order', b3) \<leftarrow> coalesce_up idx order b2;
             insert_free idx' order' b3 })"

definition deallocate_frame :: "'f frame_api \<Rightarrow> 'f \<Rightarrow> buddy \<Rightarrow> buddy option" where
  "deallocate_frame api frame b = deallocate_frame_order api frame 0 b"

definition free_frames :: "buddy \<Rightarrow> nat option" where
  "free_frames b = usub (total_frames b) (allocated_count b)"

definition allocate_frame :: "'f frame_api \<Rightarrow> buddy \<Rightarrow> ('f option \<times> buddy) option" where
  "allocate_frame api b = allocate_frame_order api 0 b"

subsubsection \<open>Construction from the memory map\<close>

definition floor_log2 :: "nat \<Rightarrow> nat" where
  "floor_log2 x = (if x = 0 then 0 else 64 - leading_zeros64 x - 1)"

definition usable_regions :: "memory_region list \<Rightarrow> memory_region list" where
  "usable_regions rs = filter (\<lambda>r. region_kind r = Usable) rs"

text \<open>The frame indices a region's two bounds map to.\<close>

definition region_idx :: "buddy \<Rightarrow> nat \<Rightarrow> nat option" where
  "region_idx b addr = do { d \<leftarrow> usub addr (base_phys b); Some (d div 4096) }"

definition mark_region :: "memory_region \<Rightarrow> buddy \<Rightarrow> buddy option" where
  "mark_region r b =
     do { s \<leftarrow> region_idx b (region_start r);
          e \<leftarrow> region_idx b (region_end r);
          for_each (\<lambda>idx b. if idx < total_frames b then mark_free idx b else Some b)
            [s..<e] b }"

fun lower_order :: "nat \<Rightarrow> nat \<Rightarrow> nat" where
  "lower_order pos order =
     (if order > 0 \<and> \<not> is_aligned_for_order pos order then lower_order pos (order - 1) else order)"

declare find_order.simps [simp del] split_down.simps [simp del] coalesce_up.simps [simp del]
  lower_order.simps [simp del]

function carve :: "nat \<Rightarrow> nat \<Rightarrow> buddy \<Rightarrow> buddy option" where
  "carve pos e b =
     (if pos < e
      then
        (let order = lower_order pos (min MAX_ORDER (floor_log2 (e - pos)))
         in do { f \<leftarrow> is_free b pos;
                 b' \<leftarrow> (if f then insert_free pos order b else Some b);
                 carve (pos + 2 ^ order) e b' })
      else Some b)"
  by pat_completeness auto
termination
  by (relation "measure (\<lambda>(pos, e, b). e - pos)") (auto simp: diff_less_mono2)

declare carve.simps [simp del]

definition carve_region :: "memory_region \<Rightarrow> buddy \<Rightarrow> buddy option" where
  "carve_region r b =
     do { pos \<leftarrow> region_idx b (region_start r);
          e \<leftarrow> region_idx b (region_end r);
          if pos \<ge> total_frames b then Some b
          else carve pos (if e > total_frames b then total_frames b else e) b }"

definition buddy_new ::
    "memory_region list \<Rightarrow> nat \<Rightarrow> (nat \<Rightarrow> nat) \<Rightarrow> monitor_data \<Rightarrow> buddy option" where
  "buddy_new memory_regions physical_memory_offset memory m =
     (let rs = usable_regions memory_regions;
          base = foldl min 18446744073709551615 (map region_start rs);
          last_end = foldl max 0 (map region_end rs)
      in do { require (rs \<noteq> []);
              size \<leftarrow> usub last_end base;
              let tot = min (size div 4096) MAX_TRACKED_FRAMES;
              let b0 = \<lparr>free_lists = (\<lambda>_. None), bitmap = (\<lambda>_. 0), total_frames = tot,
                        base_phys = base, phys_mem_offset = physical_memory_offset,
                        allocated_count = 0, pmem = memory, mon = set_frame_metrics tot m\<rparr>;
              b1 \<leftarrow> for_each mark_region rs b0;
              for_each carve_region rs b1 })"

end
