(* ===== verification/Buddy_Inv.thy ===== *)
theory Buddy_Inv
  imports Buddy
begin

text \<open>
  Correctness of the buddy allocator of theory \<open>Buddy\<close>.

  The representation predicate \<open>rep b L B\<close> relates an allocator state to the abstract free
  lists \<open>L\<close> (one list of block indices per order) and the set \<open>B\<close> of frames whose bitmap
  bit is set.  Every operation of the code is shown to act on \<open>L\<close> and \<open>B\<close> as intended
  and not to panic; the theorems about allocation follow from facts about \<open>L\<close> alone.
\<close>

subsection \<open>Addresses\<close>

definition ptr :: "buddy \<Rightarrow> nat \<Rightarrow> nat" where
  "ptr b i = base_phys b + i * 4096 + phys_mem_offset b"

abbreviation nxt :: "buddy \<Rightarrow> nat \<Rightarrow> nat" where
  "nxt b i \<equiv> pmem b (ptr b i)"

abbreviation prv :: "buddy \<Rightarrow> nat \<Rightarrow> nat" where
  "prv b i \<equiv> pmem b (ptr b i + 8)"

lemma ptr_inj [simp]: "ptr b i = ptr b j \<longleftrightarrow> i = j"
  by (simp add: ptr_def)

lemma ptr_ne8 [simp]: "ptr b i + 8 \<noteq> ptr b j" "ptr b j \<noteq> ptr b i + 8"
proof -
  have "i * 4096 + 8 \<noteq> j * 4096"
  proof
    assume "i * 4096 + 8 = j * 4096"
    then have "(i * 4096 + 8) mod 4096 = j * 4096 mod 4096" by simp
    then show False by (simp add: mod_simps)
  qed
  then show "ptr b i + 8 \<noteq> ptr b j" "ptr b j \<noteq> ptr b i + 8"
    by (auto simp: ptr_def)
qed

lemma ptr_update [simp]:
  "ptr (b\<lparr>pmem := m\<rparr>) = ptr b" "ptr (b\<lparr>bitmap := bm\<rparr>) = ptr b"
  "ptr (b\<lparr>free_lists := fl\<rparr>) = ptr b" "ptr (b\<lparr>allocated_count := c\<rparr>) = ptr b"
  "ptr (b\<lparr>mon := mo\<rparr>) = ptr b" "ptr (poke a v b) = ptr b"
  by (auto simp: ptr_def poke_def fun_eq_iff)

lemma poke_select [simp]:
  "pmem (poke a v b) = (pmem b)(a := v)" "free_lists (poke a v b) = free_lists b"
  "bitmap (poke a v b) = bitmap b" "total_frames (poke a v b) = total_frames b"
  "base_phys (poke a v b) = base_phys b" "phys_mem_offset (poke a v b) = phys_mem_offset b"
  "allocated_count (poke a v b) = allocated_count b" "mon (poke a v b) = mon b"
  by (simp_all add: poke_def)

text \<open>
  The geometry of the managed memory: it fits the bitmap, every frame is a valid physical
  address and every frame can be addressed through the physical-memory mapping.
\<close>

definition geometry :: "buddy \<Rightarrow> bool" where
  "geometry b \<longleftrightarrow>
     total_frames b \<le> MAX_TRACKED_FRAMES \<and> base_phys b mod 4096 = 0 \<and>
     base_phys b + total_frames b * 4096 \<le> 2 ^ 52 \<and>
     base_phys b + total_frames b * 4096 + phys_mem_offset b \<le> 2 ^ 64"

text \<open>Two states with the same geometry, allocation count and metrics.\<close>

definition same_frame :: "buddy \<Rightarrow> buddy \<Rightarrow> bool" where
  "same_frame b b' \<longleftrightarrow>
     total_frames b' = total_frames b \<and> base_phys b' = base_phys b \<and>
     phys_mem_offset b' = phys_mem_offset b \<and> allocated_count b' = allocated_count b \<and>
     mon b' = mon b"

lemma same_frame_refl [simp]: "same_frame b b"
  by (simp add: same_frame_def)

lemma same_frame_trans [trans]: "same_frame a b \<Longrightarrow> same_frame b c \<Longrightarrow> same_frame a c"
  by (simp add: same_frame_def)

lemma same_frame_geometry: "same_frame b b' \<Longrightarrow> geometry b' = geometry b"
  by (simp add: same_frame_def geometry_def)

lemma idx_to_phys_eq:
  "geometry b \<Longrightarrow> i < total_frames b \<Longrightarrow> idx_to_phys b i = Some (base_phys b + i * 4096)"
  by (simp add: idx_to_phys_def geometry_def uadd_def umul_def)

lemma frame_idx_to_ptr_eq:
  assumes "geometry b" "i < total_frames b"
  shows "frame_idx_to_ptr b i = Some (ptr b i)"
proof -
  have "i * 4096 + 4096 \<le> total_frames b * 4096"
    using assms(2) by simp
  moreover have "base_phys b + total_frames b * 4096 + phys_mem_offset b \<le> usize_bound"
    using assms(1) by (simp add: geometry_def)
  ultimately have "ptr b i < usize_bound"
    unfolding ptr_def by linarith
  then show ?thesis
    using idx_to_phys_eq [OF assms] by (simp add: frame_idx_to_ptr_def uadd_def ptr_def)
qed

subsection \<open>The bitmap\<close>

definition frame_free :: "buddy \<Rightarrow> nat \<Rightarrow> bool" where
  "frame_free b i \<longleftrightarrow> bit (bitmap b (i div 64)) (i mod 64)"

definition free_set :: "buddy \<Rightarrow> nat set" where
  "free_set b = {i. i < MAX_TRACKED_FRAMES \<and> frame_free b i}"

lemma bit_mask64: "bit (2 ^ n :: u64) m \<longleftrightarrow> m = n \<and> n < 64"
  by (auto simp: bit_exp_iff)

lemma and_mask_ne_0: "n < 64 \<Longrightarrow> (w AND 2 ^ n :: u64) \<noteq> 0 \<longleftrightarrow> bit w n"
  by (simp add: and_exp_eq_0_iff_not_bit)

lemma word_index_less: "i < MAX_TRACKED_FRAMES \<longleftrightarrow> i div 64 < BITMAP_U64_LEN"
  by (simp add: BITMAP_U64_LEN_def MAX_TRACKED_FRAMES_def div_less_iff_less_mult)

lemma is_free_eq: "i < MAX_TRACKED_FRAMES \<Longrightarrow> is_free b i = Some (frame_free b i)"
  by (simp add: is_free_def bitmap_index_def word_index_less frame_free_def and_mask_ne_0)

lemma div_mod_64_eq: "i div 64 = j div 64 \<Longrightarrow> i mod 64 = j mod 64 \<Longrightarrow> i = (j::nat)"
  by (metis div_mod_decomp)

lemma mark_free_eq:
  assumes "i < MAX_TRACKED_FRAMES"
  shows "\<exists>bm. mark_free i b = Some (b\<lparr>bitmap := bm\<rparr>) \<and>
     (\<forall>j. frame_free (b\<lparr>bitmap := bm\<rparr>) j \<longleftrightarrow> j = i \<or> frame_free b j)"
  using assms
  by (intro exI [where x = "(bitmap b)(i div 64 := bitmap b (i div 64) OR 2 ^ (i mod 64))"])
    (auto simp: mark_free_def bitmap_index_def word_index_less frame_free_def bit_or_iff
      bit_mask64 intro: div_mod_64_eq)

lemma mark_allocated_eq:
  assumes "i < MAX_TRACKED_FRAMES"
  shows "\<exists>bm. mark_allocated i b = Some (b\<lparr>bitmap := bm\<rparr>) \<and>
     (\<forall>j. frame_free (b\<lparr>bitmap := bm\<rparr>) j \<longleftrightarrow> j \<noteq> i \<and> frame_free b j)"
  using assms
  by (intro exI [where x = "(bitmap b)(i div 64 := bitmap b (i div 64) AND NOT (2 ^ (i mod 64)))"])
    (auto simp: mark_allocated_def bitmap_index_def word_index_less frame_free_def bit_and_iff
      bit_not_iff bit_mask64 intro: div_mod_64_eq)

lemma for_each_mark_free:
  assumes "\<forall>i \<in> set is. i < MAX_TRACKED_FRAMES"
  shows "\<exists>bm. for_each mark_free is b = Some (b\<lparr>bitmap := bm\<rparr>) \<and>
     (\<forall>j. frame_free (b\<lparr>bitmap := bm\<rparr>) j \<longleftrightarrow> j \<in> set is \<or> frame_free b j)"
  using assms
proof (induction "is" arbitrary: b)
  case Nil
  have "b\<lparr>bitmap := bitmap b\<rparr> = b" by simp
  then show ?case by (metis empty_iff for_each.simps(1) list.set(1))
next
  case (Cons i "is")
  obtain bm1 where 1: "mark_free i b = Some (b\<lparr>bitmap := bm1\<rparr>)"
      "\<forall>j. frame_free (b\<lparr>bitmap := bm1\<rparr>) j \<longleftrightarrow> j = i \<or> frame_free b j"
    using mark_free_eq [of i b] Cons.prems by auto
  obtain bm2 where "for_each mark_free is (b\<lparr>bitmap := bm1\<rparr>) = Some (b\<lparr>bitmap := bm2\<rparr>)"
      "\<forall>j. frame_free (b\<lparr>bitmap := bm2\<rparr>) j \<longleftrightarrow> j \<in> set is \<or> frame_free (b\<lparr>bitmap := bm1\<rparr>) j"
    using Cons.IH [of "b\<lparr>bitmap := bm1\<rparr>"] Cons.prems by auto
  with 1 show ?case by auto
qed

lemma for_each_mark_allocated:
  assumes "\<forall>i \<in> set is. i < MAX_TRACKED_FRAMES"
  shows "\<exists>bm. for_each mark_allocated is b = Some (b\<lparr>bitmap := bm\<rparr>) \<and>
     (\<forall>j. frame_free (b\<lparr>bitmap := bm\<rparr>) j \<longleftrightarrow> j \<notin> set is \<and> frame_free b j)"
  using assms
proof (induction "is" arbitrary: b)
  case Nil
  have "b\<lparr>bitmap := bitmap b\<rparr> = b" by simp
  then show ?case by (metis empty_iff for_each.simps(1) list.set(1))
next
  case (Cons i "is")
  obtain bm1 where 1: "mark_allocated i b = Some (b\<lparr>bitmap := bm1\<rparr>)"
      "\<forall>j. frame_free (b\<lparr>bitmap := bm1\<rparr>) j \<longleftrightarrow> j \<noteq> i \<and> frame_free b j"
    using mark_allocated_eq [of i b] Cons.prems by auto
  obtain bm2 where "for_each mark_allocated is (b\<lparr>bitmap := bm1\<rparr>) = Some (b\<lparr>bitmap := bm2\<rparr>)"
      "\<forall>j. frame_free (b\<lparr>bitmap := bm2\<rparr>) j \<longleftrightarrow> j \<notin> set is \<and> frame_free (b\<lparr>bitmap := bm1\<rparr>) j"
    using Cons.IH [of "b\<lparr>bitmap := bm1\<rparr>"] Cons.prems by auto
  with 1 show ?case by auto
qed

lemma mark_range_free_eq:
  assumes "s + c \<le> MAX_TRACKED_FRAMES"
  shows "\<exists>bm. mark_range_free s c b = Some (b\<lparr>bitmap := bm\<rparr>) \<and>
     free_set (b\<lparr>bitmap := bm\<rparr>) = free_set b \<union> {s..<s + c}"
proof -
  have "\<forall>i \<in> set [s..<s + c]. i < MAX_TRACKED_FRAMES"
    using assms by simp
  from for_each_mark_free [OF this, of b] obtain bm where
    bm: "for_each mark_free [s..<s + c] b = Some (b\<lparr>bitmap := bm\<rparr>)"
      "\<forall>j. frame_free (b\<lparr>bitmap := bm\<rparr>) j \<longleftrightarrow> j \<in> set [s..<s + c] \<or> frame_free b j"
    by blast
  have "free_set (b\<lparr>bitmap := bm\<rparr>) = free_set b \<union> {s..<s + c}"
    using assms by (auto simp: free_set_def bm(2))
  with bm(1) show ?thesis
    by (auto simp: mark_range_free_def)
qed

lemma mark_range_allocated_eq:
  assumes "s + c \<le> MAX_TRACKED_FRAMES"
  shows "\<exists>bm. mark_range_allocated s c b = Some (b\<lparr>bitmap := bm\<rparr>) \<and>
     free_set (b\<lparr>bitmap := bm\<rparr>) = free_set b - {s..<s + c}"
proof -
  have "\<forall>i \<in> set [s..<s + c]. i < MAX_TRACKED_FRAMES"
    using assms by simp
  from for_each_mark_allocated [OF this, of b] obtain bm where
    bm: "for_each mark_allocated [s..<s + c] b = Some (b\<lparr>bitmap := bm\<rparr>)"
      "\<forall>j. frame_free (b\<lparr>bitmap := bm\<rparr>) j \<longleftrightarrow> j \<notin> set [s..<s + c] \<and> frame_free b j"
    by blast
  have "free_set (b\<lparr>bitmap := bm\<rparr>) = free_set b - {s..<s + c}"
    using assms by (auto simp: free_set_def bm(2))
  with bm(1) show ?thesis
    by (auto simp: mark_range_allocated_def)
qed

lemma all_free_eq:
  assumes "\<forall>i \<in> set is. i < MAX_TRACKED_FRAMES"
  shows "all_free b is = Some (set is \<subseteq> free_set b)"
  using assms by (induction "is") (auto simp: is_free_eq free_set_def)

lemma is_range_free_eq:
  assumes "geometry b" "s < total_frames b" "c \<le> MAX_TRACKED_FRAMES"
  shows "is_range_free b s c =
     Some (s + c \<le> total_frames b \<and> {s..<s + c} \<subseteq> free_set b)"
proof -
  have "s + c < usize_bound"
    using assms by (simp add: geometry_def MAX_TRACKED_FRAMES_def)
  moreover have "all_free b [s..<s + c] = Some ({s..<s + c} \<subseteq> free_set b)"
    if "s + c \<le> total_frames b"
    using all_free_eq [of "[s..<s + c]" b] that assms(1) by (auto simp: geometry_def)
  ultimately show ?thesis
    by (auto simp: is_range_free_def uadd_def)
qed


subsection \<open>Doubly linked lists in memory\<close>

definition first_or :: "nat \<Rightarrow> nat list \<Rightarrow> nat" where
  "first_or e xs = (case xs of [] \<Rightarrow> e | x # _ \<Rightarrow> x)"

definition last_or :: "nat \<Rightarrow> nat list \<Rightarrow> nat" where
  "last_or p xs = (if xs = [] then p else last xs)"

lemma first_or_simps [simp]: "first_or e [] = e" "first_or e (x # xs) = x"
  by (simp_all add: first_or_def)

lemma last_or_simps [simp]: "last_or p [] = p" "last_or p (x # xs) = last_or x xs"
  by (simp_all add: last_or_def)

text \<open>A segment entered from \<open>p\<close> whose last node links to \<open>e\<close>.\<close>

primrec chain :: "buddy \<Rightarrow> nat \<Rightarrow> nat list \<Rightarrow> nat \<Rightarrow> bool" where
  "chain b p [] e \<longleftrightarrow> True"
| "chain b p (x # xs) e \<longleftrightarrow> prv b x = p \<and> nxt b x = first_or e xs \<and> chain b x xs e"

lemma chain_cong:
  assumes "\<forall>x \<in> set xs. prv b' x = prv b x \<and> nxt b' x = nxt b x"
  shows "chain b' p xs e = chain b p xs e"
  using assms by (induction xs arbitrary: p) auto

lemma chain_append:
  "chain b p (xs @ ys) e \<longleftrightarrow> chain b p xs (first_or e ys) \<and> chain b (last_or p xs) ys e"
  by (induction xs arbitrary: p) (auto simp: first_or_def split: list.splits)

lemma chain_set_prev:
  assumes "chain b p (x # xs) e" "distinct (x # xs)"
  shows "chain (poke (ptr b x + 8) q b) q (x # xs) e"
proof -
  have "chain (poke (ptr b x + 8) q b) x xs e = chain b x xs e"
    using assms(2) by (intro chain_cong) auto
  with assms(1) show ?thesis by simp
qed

lemma chain_set_last:
  assumes "chain b p (xs @ [x]) e" "distinct (xs @ [x])"
  shows "chain (poke (ptr b x) e' b) p (xs @ [x]) e'"
proof -
  have "chain (poke (ptr b x) e' b) p xs x = chain b p xs x"
    using assms(2) by (intro chain_cong) auto
  with assms(1) show ?thesis by (simp add: chain_append)
qed

lemma chain_poke_other:
  assumes "a \<notin> ptr b ` set xs" "a \<notin> (\<lambda>x. ptr b x + 8) ` set xs"
  shows "chain (poke a v b) p xs e = chain b p xs e"
  using assms by (intro chain_cong) auto

lemma chain_simp_upd [simp]:
  "chain (b\<lparr>bitmap := bm\<rparr>) p xs e = chain b p xs e"
  "chain (b\<lparr>free_lists := fl\<rparr>) p xs e = chain b p xs e"
  "chain (b\<lparr>allocated_count := c\<rparr>) p xs e = chain b p xs e"
  "chain (b\<lparr>mon := mo\<rparr>) p xs e = chain b p xs e"
  by (rule chain_cong, simp)+

subsection \<open>Blocks\<close>

definition frames :: "nat \<Rightarrow> nat \<Rightarrow> nat set" where
  "frames k x = {x..<x + 2 ^ k}"

definition block_in :: "(nat \<Rightarrow> nat list) \<Rightarrow> nat \<Rightarrow> nat \<Rightarrow> bool" where
  "block_in L k x \<longleftrightarrow> k \<le> MAX_ORDER \<and> x \<in> set (L k)"

definition covered :: "(nat \<Rightarrow> nat list) \<Rightarrow> nat set" where
  "covered L = {i. \<exists>k x. block_in L k x \<and> i \<in> frames k x}"

text \<open>Free blocks are aligned, lie in the managed range and do not overlap.\<close>

definition wf_blocks :: "nat \<Rightarrow> (nat \<Rightarrow> nat list) \<Rightarrow> bool" where
  "wf_blocks tot L \<longleftrightarrow>
     (\<forall>k \<le> MAX_ORDER. distinct (L k)) \<and>
     (\<forall>k x. block_in L k x \<longrightarrow> 2 ^ k dvd x \<and> x + 2 ^ k \<le> tot) \<and>
     (\<forall>k x k' x'. block_in L k x \<longrightarrow> block_in L k' x' \<longrightarrow> (k, x) \<noteq> (k', x') \<longrightarrow>
        frames k x \<inter> frames k' x' = {})"

definition head_of :: "nat list \<Rightarrow> nat option" where
  "head_of xs = (case xs of [] \<Rightarrow> None | x # _ \<Rightarrow> Some x)"

definition wf_lists :: "buddy \<Rightarrow> (nat \<Rightarrow> nat list) \<Rightarrow> bool" where
  "wf_lists b L \<longleftrightarrow>
     (\<forall>k \<le> MAX_ORDER. free_lists b k = head_of (L k) \<and> chain b NULL_LINK (L k) NULL_LINK)"

definition rep :: "buddy \<Rightarrow> (nat \<Rightarrow> nat list) \<Rightarrow> nat set \<Rightarrow> bool" where
  "rep b L B \<longleftrightarrow>
     geometry b \<and> wf_lists b L \<and> wf_blocks (total_frames b) L \<and> free_set b = B \<and> covered L \<subseteq> B"

lemma frames_nonempty [simp]: "x \<in> frames k x" "frames k x \<noteq> {}"
  by (simp_all add: frames_def)

lemma block_in_covered: "block_in L k x \<Longrightarrow> frames k x \<subseteq> covered L"
  by (auto simp: covered_def)

lemma wf_blocks_unique:
  assumes "wf_blocks tot L" "block_in L k x" "block_in L k' x'" "i \<in> frames k x" "i \<in> frames k' x'"
  shows "k' = k" "x' = x"
  using assms unfolding wf_blocks_def by blast+

lemma wf_blocks_less:
  assumes "wf_blocks tot L" "block_in L k x"
  shows "x < tot" "x + 2 ^ k \<le> tot" "2 ^ k dvd x"
proof -
  from assms show le: "x + 2 ^ k \<le> tot" and "2 ^ k dvd x"
    unfolding wf_blocks_def by blast+
  have "0 < (2::nat) ^ k" by simp
  with le show "x < tot" by linarith
qed

lemma block_in_insert:
  "k \<le> MAX_ORDER \<Longrightarrow>
     block_in (L(k := x # xs)) k' x' \<longleftrightarrow> (k' = k \<and> x' = x) \<or> block_in (L(k := xs)) k' x'"
  by (auto simp: block_in_def)

lemma covered_insert:
  "k \<le> MAX_ORDER \<Longrightarrow> covered (L(k := x # L k)) = covered L \<union> frames k x"
  by (auto simp: covered_def block_in_insert)

lemma wf_blocks_insert:
  assumes wf: "wf_blocks tot L" and k: "k \<le> MAX_ORDER" and x: "2 ^ k dvd x" "x + 2 ^ k \<le> tot"
    and new: "frames k x \<inter> covered L = {}"
  shows "wf_blocks tot (L(k := x # L k))"
proof -
  have disj: "frames k x \<inter> frames k' x' = {}" if "block_in L k' x'" for k' x'
    using new block_in_covered [OF that] by blast
  have "x \<notin> set (L k)"
    using k disj [of k x] by (auto simp: block_in_def)
  with wf x disj show ?thesis
    unfolding wf_blocks_def by (auto simp: block_in_insert k Int_commute)
qed

lemma wf_blocks_remove:
  assumes wf: "wf_blocks tot L" and sub: "\<forall>k \<le> MAX_ORDER. set (L' k) \<subseteq> set (L k) \<and> distinct (L' k)"
  shows "wf_blocks tot L'"
proof -
  have "block_in L k x" if "block_in L' k x" for k x
    using that sub by (auto simp: block_in_def)
  with wf sub show ?thesis
    unfolding wf_blocks_def by blast
qed

text \<open>Taking one block out of its list uncovers exactly its frames.\<close>

lemma covered_remove:
  assumes wf: "wf_blocks tot L" and k: "k \<le> MAX_ORDER" and L: "L k = xs @ x # ys"
  shows "covered (L(k := xs @ ys)) = covered L - frames k x"
proof -
  have x: "block_in L k x"
    using k L by (simp add: block_in_def)
  have dist: "distinct (xs @ x # ys)"
    using k wf unfolding wf_blocks_def by (metis L)
  have old: "block_in (L(k := xs @ ys)) k' x' \<longleftrightarrow> block_in L k' x' \<and> (k', x') \<noteq> (k, x)" for k' x'
    using L dist by (auto simp: block_in_def)
  have "frames k' x' \<inter> frames k x = {}" if "block_in L k' x'" "(k', x') \<noteq> (k, x)" for k' x'
    using wf that x unfolding wf_blocks_def by blast
  then show ?thesis
    unfolding covered_def old by blast
qed


subsection \<open>The list operations on the representation\<close>

lemma rep_geometry: "rep b L B \<Longrightarrow> geometry b"
  by (simp add: rep_def)

lemma rep_blocks: "rep b L B \<Longrightarrow> wf_blocks (total_frames b) L"
  by (simp add: rep_def)

lemma rep_null:
  assumes "rep b L B" "block_in L k x"
  shows "x \<noteq> NULL_LINK" "x < total_frames b" "x + 2 ^ k \<le> MAX_TRACKED_FRAMES"
proof -
  have "x < total_frames b" "x + 2 ^ k \<le> total_frames b"
    using wf_blocks_less [OF rep_blocks [OF assms(1)] assms(2)] by auto
  then show "x < total_frames b" "x + 2 ^ k \<le> MAX_TRACKED_FRAMES" "x \<noteq> NULL_LINK"
    using rep_geometry [OF assms(1)]
    by (auto simp: geometry_def MAX_TRACKED_FRAMES_def NULL_LINK_def)
qed

lemma rep_ptr: "rep b L B \<Longrightarrow> block_in L k x \<Longrightarrow> frame_idx_to_ptr b x = Some (ptr b x)"
  using frame_idx_to_ptr_eq rep_geometry rep_null by blast

text \<open>Two distinct block headers live at different addresses, in any list.\<close>

lemma wf_blocks_lists_disjoint:
  assumes "wf_blocks tot L" "block_in L k x" "block_in L k' x" shows "k' = k"
  using assms wf_blocks_unique [of tot L k x k' x x] by auto

lemma is_aligned_iff: "is_aligned_for_order x k \<longleftrightarrow> 2 ^ k dvd x"
proof -
  have "(2::nat) ^ k - 1 = mask k"
    by (simp add: mask_eq_exp_minus_1)
  then show ?thesis
    by (simp only: is_aligned_for_order_def take_bit_eq_mask [symmetric] take_bit_eq_0_iff)
qed

text \<open>A state that differs from \<open>b\<close> in memory only in the headers of \<open>S\<close>.\<close>

definition touches :: "nat set \<Rightarrow> buddy \<Rightarrow> buddy \<Rightarrow> bool" where
  "touches S b b' \<longleftrightarrow>
     ptr b' = ptr b \<and> (\<forall>z. z \<notin> S \<longrightarrow> prv b' z = prv b z \<and> nxt b' z = nxt b z)"

lemma touches_chain: "touches S b b' \<Longrightarrow> S \<inter> set xs = {} \<Longrightarrow> chain b' p xs e = chain b p xs e"
  by (rule chain_cong) (auto simp: touches_def)

lemma wf_lists_update:
  assumes "wf_lists b L" "k \<le> MAX_ORDER" "free_lists b' = (free_lists b)(k := head_of xs)"
    "chain b' NULL_LINK xs NULL_LINK" "touches S b b'"
    "\<And>k'. k' \<le> MAX_ORDER \<Longrightarrow> k' \<noteq> k \<Longrightarrow> S \<inter> set (L k') = {}"
  shows "wf_lists b' (L(k := xs))"
  unfolding wf_lists_def
proof (intro allI impI)
  fix k' assume k': "k' \<le> MAX_ORDER"
  show "free_lists b' k' = head_of ((L(k := xs)) k') \<and>
      chain b' NULL_LINK ((L(k := xs)) k') NULL_LINK"
    using assms(1-4) touches_chain [OF assms(5) assms(6) [OF k']] k'
    by (cases "k' = k") (auto simp: wf_lists_def)
qed

text \<open>The pointer updates of insertion at the front and of removal.\<close>

definition link_front :: "nat \<Rightarrow> nat list \<Rightarrow> buddy \<Rightarrow> buddy" where
  "link_front x ys b =
     (let b3 = poke (ptr b x + 8) NULL_LINK (poke (ptr b x) (first_or NULL_LINK ys) b)
      in case ys of [] \<Rightarrow> b3 | y # _ \<Rightarrow> poke (ptr b y + 8) x b3)"

definition unlink :: "nat list \<Rightarrow> nat list \<Rightarrow> buddy \<Rightarrow> buddy" where
  "unlink xs ys b =
     (let b1 = (if xs = [] then b else poke (ptr b (last xs)) (first_or NULL_LINK ys) b)
      in case ys of [] \<Rightarrow> b1 | y # _ \<Rightarrow> poke (ptr b y + 8) (last_or NULL_LINK xs) b1)"

lemma link_front_select [simp]:
  "ptr (link_front x ys b) = ptr b" "free_lists (link_front x ys b) = free_lists b"
  "bitmap (link_front x ys b) = bitmap b" "same_frame b (link_front x ys b)"
  by (auto simp: link_front_def same_frame_def Let_def split: list.split)

lemma unlink_select [simp]:
  "ptr (unlink xs ys b) = ptr b" "free_lists (unlink xs ys b) = free_lists b"
  "bitmap (unlink xs ys b) = bitmap b" "same_frame b (unlink xs ys b)"
  by (auto simp: unlink_def same_frame_def Let_def split: list.split)

lemma link_front_touches: "touches (insert x (set ys)) b (link_front x ys b)"
  by (auto simp: touches_def) (auto simp: link_front_def Let_def split: list.split)

lemma unlink_touches: "touches (set xs \<union> set ys) b (unlink xs ys b)"
  by (auto simp: touches_def) (auto simp: unlink_def Let_def split: list.split)

lemma chain_link_front:
  assumes "chain b p ys NULL_LINK" "distinct (x # ys)"
  shows "chain (link_front x ys b) NULL_LINK (x # ys) NULL_LINK"
proof (cases ys)
  case Nil
  then show ?thesis by (simp add: link_front_def Let_def)
next
  case (Cons y zs)
  have "chain (link_front x ys b) y zs NULL_LINK = chain b y zs NULL_LINK"
    using assms(2) Cons by (intro chain_cong) (auto simp: link_front_def Let_def)
  with assms Cons show ?thesis
    by (auto simp: link_front_def Let_def)
qed

lemma chain_unlink:
  assumes "chain b NULL_LINK (xs @ x # ys) NULL_LINK" "distinct (xs @ x # ys)"
  shows "chain (unlink xs ys b) NULL_LINK (xs @ ys) NULL_LINK"
proof -
  let ?l = "last_or NULL_LINK xs" and ?f = "first_or NULL_LINK ys"
  define b1 where "b1 = (if xs = [] then b else poke (ptr b (last xs)) ?f b)"
  have ptr1: "ptr b1 = ptr b"
    by (simp add: b1_def)
  have un: "unlink xs ys b = (case ys of [] \<Rightarrow> b1 | y # _ \<Rightarrow> poke (ptr b y + 8) ?l b1)"
    by (simp only: unlink_def b1_def Let_def)
  have left: "chain b1 NULL_LINK xs ?f"
  proof (cases xs rule: rev_cases)
    case (snoc zs z)
    with assms show ?thesis
      using chain_set_last [of b NULL_LINK zs z x ?f] by (simp add: chain_append b1_def)
  qed simp
  have right: "chain b1 x ys NULL_LINK"
  proof -
    have "chain b1 x ys NULL_LINK = chain b x ys NULL_LINK"
      using assms(2) by (intro chain_cong) (auto simp: b1_def dest: last_in_set)
    with assms(1) show ?thesis by (simp add: chain_append)
  qed
  show ?thesis
  proof (cases ys)
    case Nil
    with left un show ?thesis by simp
  next
    case (Cons y zs)
    have "chain (poke (ptr b y + 8) ?l b1) ?l ys NULL_LINK"
      using chain_set_prev [of b1 x y zs NULL_LINK ?l] right assms(2) Cons by (simp add: ptr1)
    moreover have "chain (poke (ptr b y + 8) ?l b1) NULL_LINK xs y"
      using left assms(2) Cons by (subst chain_poke_other) (auto simp: ptr1)
    ultimately show ?thesis
      using Cons un by (simp add: chain_append ptr1)
  qed
qed


subsubsection \<open>\<open>insert_free\<close>\<close>

lemma insert_free_run:
  assumes geo: "geometry b" and "x < total_frames b" "\<forall>y \<in> set ys. y < total_frames b"
    and "k \<le> MAX_ORDER" "2 ^ k dvd x" "free_lists b k = head_of ys"
    and mark: "mark_range_free x (2 ^ k) b = Some (b\<lparr>bitmap := bm\<rparr>)"
  shows "insert_free x k b =
     Some ((link_front x ys (b\<lparr>bitmap := bm\<rparr>))\<lparr>free_lists := (free_lists b)(k := Some x)\<rparr>)"
proof -
  let ?b1 = "b\<lparr>bitmap := bm\<rparr>"
  let ?b3 = "poke (ptr b x + 8) NULL_LINK (poke (ptr b x) (first_or NULL_LINK ys) ?b1)"
  have "geometry ?b1" "geometry ?b3"
    using geo by (simp_all add: geometry_def)
  then have "frame_idx_to_ptr ?b1 x = Some (ptr b x)"
    "\<forall>y \<in> set ys. frame_idx_to_ptr ?b3 y = Some (ptr b y)"
    using assms(2,3) frame_idx_to_ptr_eq [of ?b1 x] frame_idx_to_ptr_eq [of ?b3] by auto
  with assms(4-7) show ?thesis
    by (cases ys) (simp_all add: insert_free_def is_aligned_iff require_def get_free_list_def
        set_free_list_def head_of_def link_front_def Let_def)
qed

lemma rep_lists_disjoint:
  assumes "rep b L B" "k \<le> MAX_ORDER" "k' \<le> MAX_ORDER" "k' \<noteq> k"
  shows "set (L k) \<inter> set (L k') = {}"
  using wf_blocks_lists_disjoint [OF rep_blocks [OF assms(1)]] assms(2-4)
  by (auto simp: block_in_def)

lemma notin_lists:
  assumes "frames k x \<inter> covered L = {}" "k' \<le> MAX_ORDER" shows "x \<notin> set (L k')"
proof
  assume "x \<in> set (L k')"
  with assms(2) have "frames k' x \<subseteq> covered L"
    by (intro block_in_covered) (simp add: block_in_def)
  then have "x \<in> covered L"
    using frames_nonempty(1) by (rule subsetD)
  with assms(1) frames_nonempty(1) [of x k] show False by blast
qed

lemma insert_free_rep:
  assumes rep: "rep b L B" and k: "k \<le> MAX_ORDER"
    and x: "2 ^ k dvd x" "x + 2 ^ k \<le> total_frames b" and new: "frames k x \<inter> covered L = {}"
  shows "\<exists>b'. insert_free x k b = Some b' \<and> same_frame b b' \<and>
     rep b' (L(k := x # L k)) (B \<union> frames k x)"
proof -
  note geo = rep_geometry [OF rep] and wf = rep_blocks [OF rep]
  have lists: "free_lists b k = head_of (L k)" "chain b NULL_LINK (L k) NULL_LINK"
    using rep k by (auto simp: rep_def wf_lists_def)
  have "0 < (2::nat) ^ k" "x + 2 ^ k \<le> MAX_TRACKED_FRAMES"
    using x(2) geo by (simp_all add: geometry_def)
  with x(2) have lim: "x < total_frames b" "x + 2 ^ k \<le> MAX_TRACKED_FRAMES"
    by linarith+
  obtain bm where mark: "mark_range_free x (2 ^ k) b = Some (b\<lparr>bitmap := bm\<rparr>)"
      and bits: "free_set (b\<lparr>bitmap := bm\<rparr>) = B \<union> frames k x"
    using mark_range_free_eq [OF lim(2), of b] rep by (auto simp: rep_def frames_def)
  let ?b1 = "b\<lparr>bitmap := bm\<rparr>"
  define b' where "b' = (link_front x (L k) ?b1)\<lparr>free_lists := (free_lists b)(k := Some x)\<rparr>"
  have run: "insert_free x k b = Some b'"
    unfolding b'_def using geo lim(1) rep_null(2) [OF rep] k x(1) lists(1) mark
    by (intro insert_free_run) (auto simp: block_in_def)
  have same: "same_frame b b'"
    using link_front_select(4) [of ?b1 x "L k"] by (simp add: same_frame_def b'_def)
  have "distinct (x # L k)"
    using notin_lists [OF new k] wf k by (simp add: wf_blocks_def)
  then have "chain b' NULL_LINK (x # L k) NULL_LINK"
    unfolding b'_def chain_simp_upd using lists(2) by (intro chain_link_front) simp_all
  moreover have "touches (insert x (set (L k))) b b'"
    using link_front_touches [of x "L k" ?b1] by (simp add: touches_def b'_def)
  ultimately have "wf_lists b' (L(k := x # L k))"
    using rep k rep_lists_disjoint [OF rep k] notin_lists [OF new]
    by (intro wf_lists_update) (auto simp: rep_def b'_def head_of_def)
  moreover have "free_set b' = B \<union> frames k x"
    unfolding bits [symmetric] by (simp add: free_set_def frame_free_def b'_def)
  moreover have "wf_blocks (total_frames b') (L(k := x # L k))"
    using wf_blocks_insert [OF wf k x new] same by (simp add: same_frame_def)
  ultimately have "rep b' (L(k := x # L k)) (B \<union> frames k x)"
    using rep same_frame_geometry [OF same] by (auto simp: rep_def covered_insert k)
  with run same show ?thesis by blast
qed


subsubsection \<open>\<open>remove_free\<close> and \<open>pop_free\<close>\<close>

lemma remove_free_run:
  assumes geo: "geometry b" and "\<forall>z \<in> set (xs @ x # ys). z < total_frames b"
    and "k \<le> MAX_ORDER" "chain b NULL_LINK (xs @ x # ys) NULL_LINK"
    "free_lists b k = head_of (xs @ x # ys)"
  shows "remove_free x k b =
     Some ((unlink xs ys b)\<lparr>free_lists := (free_lists b)(k := head_of (xs @ ys))\<rparr>)"
proof -
  have null: "z \<noteq> NULL_LINK" if "z \<in> set (xs @ x # ys)" for z
  proof -
    have "z < MAX_TRACKED_FRAMES"
      using assms(2) that geo by (auto simp: geometry_def intro: less_le_trans)
    then show ?thesis
      by (simp add: MAX_TRACKED_FRAMES_def NULL_LINK_def)
  qed
  have ptrs: "frame_idx_to_ptr b z = Some (ptr b z)" if "z \<in> set (xs @ x # ys)" for z
    using frame_idx_to_ptr_eq [OF geo] assms(2) that by blast
  have other: "frame_idx_to_ptr (b\<lparr>pmem := m\<rparr>) = frame_idx_to_ptr b"
    "frame_idx_to_ptr (b\<lparr>free_lists := fl\<rparr>) = frame_idx_to_ptr b" for m fl
    by (auto simp: frame_idx_to_ptr_def idx_to_phys_def fun_eq_iff)
  have links: "nxt b x = first_or NULL_LINK ys" "prv b x = last_or NULL_LINK xs"
    using assms(4) by (simp_all add: chain_append)
  have same: "(free_lists b)(k := head_of (xs @ ys)) = free_lists b" if "xs \<noteq> []"
    using assms(5) that by (cases xs) (auto simp: head_of_def)
  have "b\<lparr>free_lists := free_lists b\<rparr> = b" for b :: buddy
    by simp
  show ?thesis
    using null ptrs links assms(3) same
    by (cases xs rule: rev_cases; cases ys)
      (auto simp: remove_free_def other unlink_def last_or_def set_free_list_def head_of_def Let_def
        poke_def)
qed


text \<open>
  Removal keeps the bitmap; the code clears the block's bits right after it, in \<open>coalesce_up\<close>,
  or as part of \<open>pop_free\<close>.
\<close>

lemma unlink_rep:
  assumes rep: "rep b L B" and k: "k \<le> MAX_ORDER" and L: "L k = xs @ x # ys"
    and b': "b' = (unlink xs ys b)\<lparr>free_lists := (free_lists b)(k := head_of (xs @ ys)), bitmap := bm\<rparr>"
    and bits: "free_set b' = B - frames k x"
  shows "same_frame b b'" "rep b' (L(k := xs @ ys)) (B - frames k x)"
proof -
  note wf = rep_blocks [OF rep]
  show same: "same_frame b b'"
    using unlink_select(4) [of b xs ys] by (simp add: same_frame_def b')
  have dist: "distinct (xs @ x # ys)" and chain: "chain b NULL_LINK (xs @ x # ys) NULL_LINK"
    using rep k unfolding rep_def wf_blocks_def wf_lists_def by (metis L)+
  have "chain b' NULL_LINK (xs @ ys) NULL_LINK"
    unfolding b' chain_simp_upd by (rule chain_unlink [OF chain dist])
  moreover have "touches (set xs \<union> set ys) b b'"
    using unlink_touches [of xs ys b] by (simp add: touches_def b')
  ultimately have "wf_lists b' (L(k := xs @ ys))"
    using rep k L rep_lists_disjoint [OF rep k]
    by (intro wf_lists_update) (auto simp: rep_def b')
  moreover have "wf_blocks (total_frames b') (L(k := xs @ ys))"
  proof -
    have "\<forall>k \<le> MAX_ORDER. distinct (L k)"
      using wf by (simp add: wf_blocks_def)
    with L dist have "wf_blocks (total_frames b) (L(k := xs @ ys))"
      by (intro wf_blocks_remove [OF wf]) auto
    with same show ?thesis by (simp add: same_frame_def)
  qed
  ultimately show "rep b' (L(k := xs @ ys)) (B - frames k x)"
    using rep same_frame_geometry [OF same] bits covered_remove [OF wf k L]
    by (auto simp: rep_def)
qed

lemma remove_mark_rep:
  assumes rep: "rep b L B" and x: "block_in L k x"
  shows "\<exists>xs ys b1 b'. L k = xs @ x # ys \<and> remove_free x k b = Some b1 \<and>
     mark_range_allocated x (2 ^ k) b1 = Some b' \<and> same_frame b b' \<and>
     rep b' (L(k := xs @ ys)) (B - frames k x)"
proof -
  obtain xs ys where L: "L k = xs @ x # ys" and k: "k \<le> MAX_ORDER"
    using x by (auto simp: block_in_def dest: split_list)
  define b1 where "b1 = (unlink xs ys b)\<lparr>free_lists := (free_lists b)(k := head_of (xs @ ys))\<rparr>"
  have "chain b NULL_LINK (xs @ x # ys) NULL_LINK" "free_lists b k = head_of (xs @ x # ys)"
    using rep k unfolding rep_def wf_lists_def by (metis L)+
  moreover have "\<forall>z \<in> set (xs @ x # ys). z < total_frames b"
    using rep_null(2) [OF rep] k unfolding block_in_def L [symmetric] by blast
  ultimately have run: "remove_free x k b = Some b1"
    unfolding b1_def using remove_free_run [OF rep_geometry [OF rep]] k by blast
  obtain bm where mark: "mark_range_allocated x (2 ^ k) b1 = Some (b1\<lparr>bitmap := bm\<rparr>)"
    and bits: "free_set (b1\<lparr>bitmap := bm\<rparr>) = free_set b1 - {x..<x + 2 ^ k}"
    using mark_range_allocated_eq [OF rep_null(3) [OF rep x], of b1] by blast
  have "free_set b1 = B"
    using rep by (simp add: rep_def b1_def free_set_def frame_free_def)
  with bits have "free_set (b1\<lparr>bitmap := bm\<rparr>) = B - frames k x"
    by (simp add: frames_def)
  from unlink_rep [OF rep k L _ this, of bm] L run mark show ?thesis
    by (auto simp: b1_def)
qed

lemma pop_free_empty: "k \<le> MAX_ORDER \<Longrightarrow> free_lists b k = None \<Longrightarrow> pop_free k b = Some (None, b)"
  by (simp add: pop_free_def get_free_list_def)

lemma pop_free_rep:
  assumes rep: "rep b L B" and k: "k \<le> MAX_ORDER" and L: "L k = x # ys"
  shows "\<exists>b'. pop_free k b = Some (Some x, b') \<and> same_frame b b' \<and>
     rep b' (L(k := ys)) (B - frames k x)"
proof -
  have x: "block_in L k x" and ys: "\<And>y. y \<in> set ys \<Longrightarrow> block_in L k y"
    using k L by (auto simp: block_in_def)
  define b1 where "b1 = (unlink [] ys b)\<lparr>free_lists := (free_lists b)(k := head_of ys)\<rparr>"
  have hd: "free_lists b k = Some x" "nxt b x = first_or NULL_LINK ys"
    using rep k L by (auto simp: rep_def wf_lists_def head_of_def)
  obtain bm where mark: "mark_range_allocated x (2 ^ k) b1 = Some (b1\<lparr>bitmap := bm\<rparr>)"
    and bits: "free_set (b1\<lparr>bitmap := bm\<rparr>) = free_set b1 - {x..<x + 2 ^ k}"
    using mark_range_allocated_eq [OF rep_null(3) [OF rep x], of b1] by blast
  have "pop_free k b = Some (Some x, b1\<lparr>bitmap := bm\<rparr>)"
    using hd k mark rep_ptr [OF rep x] rep_ptr [OF rep ys] rep_null(1) [OF rep ys]
    by (cases ys) (auto simp: pop_free_def get_free_list_def set_free_list_def b1_def unlink_def
        head_of_def)
  moreover have "free_set b1 = B"
    using rep by (simp add: rep_def b1_def free_set_def frame_free_def)
  with bits have "free_set (b1\<lparr>bitmap := bm\<rparr>) = B - frames k x"
    by (simp add: frames_def)
  from unlink_rep [OF rep k _ _ this, of "[]" ys bm] L
  have "same_frame b (b1\<lparr>bitmap := bm\<rparr>)" "rep (b1\<lparr>bitmap := bm\<rparr>) (L(k := ys)) (B - frames k x)"
    by (auto simp: b1_def)
  ultimately show ?thesis by blast
qed


subsection \<open>Aligned blocks\<close>

lemma frames_div:
  assumes "2 ^ k dvd x" shows "i \<in> frames k x \<longleftrightarrow> i div 2 ^ k = x div 2 ^ k"
proof -
  define m :: nat where "m = 2 ^ k"
  have "0 < m" by (simp add: m_def)
  moreover obtain q where x: "x = m * q"
    using assms by (auto simp: m_def)
  moreover have "m * (i div m) \<le> i" "i < m * (i div m) + m"
    using dividend_less_times_div [OF \<open>0 < m\<close>, of i] by (simp_all add: add.commute)
  moreover have "i div m = q" if "m * q \<le> i" "i < m * q + m"
    using that by (intro div_nat_eqI) (simp_all add: algebra_simps)
  ultimately show ?thesis
    unfolding frames_def m_def [symmetric] using \<open>0 < m\<close> by (metis atLeastLessThan_iff
        nonzero_mult_div_cancel_left less_numeral_extra(3))
qed

lemma div_pow_le: "k \<le> k' \<Longrightarrow> (i::nat) div 2 ^ k' = i div 2 ^ k div 2 ^ (k' - k)"
  by (simp add: div_mult2_eq [symmetric] power_add [symmetric])

text \<open>Aligned blocks are nested or disjoint.\<close>

lemma frames_nested:
  assumes "2 ^ k dvd x" "2 ^ k' dvd x'" "k \<le> k'" "i \<in> frames k x" "i \<in> frames k' x'"
  shows "frames k x \<subseteq> frames k' x'"
proof
  fix j assume "j \<in> frames k x"
  then have "j div 2 ^ k = i div 2 ^ k"
    using assms(1,4) by (simp add: frames_div)
  then have "j div 2 ^ k' = i div 2 ^ k'"
    using assms(3) by (simp add: div_pow_le)
  then show "j \<in> frames k' x'"
    using assms(2,5) by (simp add: frames_div)
qed

lemma frames_Suc: "frames (Suc k) x = frames k x \<union> frames k (x + 2 ^ k)"
  by (auto simp: frames_def)

lemma frames_eq_iff: "frames k x \<subseteq> frames k y \<longleftrightarrow> x = y"
  by (auto simp: frames_def ivl_subset)

lemma card_frames [simp]: "card (frames k x) = 2 ^ k" "finite (frames k x)"
  by (simp_all add: frames_def)

lemma xor_buddy:
  fixes x :: nat
  assumes "2 ^ k dvd x"
  shows "x XOR 2 ^ k = (if 2 ^ Suc k dvd x then x + 2 ^ k else x - 2 ^ k)"
proof -
  from assms obtain q where x: "x = q * 2 ^ k"
    by (metis dvd_def mult.commute)
  have "x XOR 2 ^ k = push_bit k q XOR push_bit k 1"
    by (simp add: x push_bit_eq_mult)
  also have "\<dots> = push_bit k (q XOR 1)"
    by (simp only: push_bit_xor)
  also have "q XOR 1 = (if even q then q + 1 else q - 1)"
    using xor_Suc_0_eq [of q] by auto
  finally show ?thesis
    by (auto simp: x push_bit_eq_mult algebra_simps diff_mult_distrib)
qed

lemma odd_multiple:
  fixes x :: nat
  assumes "2 ^ k dvd x" "\<not> 2 ^ Suc k dvd x"
  shows "2 ^ k \<le> x" "2 ^ Suc k dvd x - 2 ^ k"
proof -
  from assms(1) obtain q where x: "x = q * 2 ^ k"
    by (metis dvd_def mult.commute)
  with assms(2) have "odd q"
    by auto
  then obtain r where "q = 2 * r + 1" ..
  with x show "2 ^ k \<le> x" "2 ^ Suc k dvd x - 2 ^ k"
    by (simp_all add: algebra_simps)
qed

text \<open>A block and its buddy make up the aligned block of the next order.\<close>

lemma xor_buddy_aligned:
  fixes x :: nat
  assumes "2 ^ k dvd x"
  shows "2 ^ k dvd x XOR 2 ^ k" "2 ^ Suc k dvd min x (x XOR 2 ^ k)"
    "frames (Suc k) (min x (x XOR 2 ^ k)) = frames k x \<union> frames k (x XOR 2 ^ k)"
    "frames k x \<inter> frames k (x XOR 2 ^ k) = {}"
    "(x XOR 2 ^ k) XOR 2 ^ k = x"
proof -
  have min: "min x (x XOR 2 ^ k) = (if 2 ^ Suc k dvd x then x else x - 2 ^ k)"
    by (auto simp: xor_buddy [OF assms] min_def)
  show "2 ^ k dvd x XOR 2 ^ k"
    using assms xor_buddy [OF assms] by auto
  show "2 ^ Suc k dvd min x (x XOR 2 ^ k)"
    using odd_multiple [OF assms] by (auto simp: min)
  show "frames (Suc k) (min x (x XOR 2 ^ k)) = frames k x \<union> frames k (x XOR 2 ^ k)"
    using xor_buddy [OF assms] odd_multiple [OF assms] frames_Suc [of k x]
      frames_Suc [of k "x - 2 ^ k"] by (auto simp: min)
  show "frames k x \<inter> frames k (x XOR 2 ^ k) = {}"
    using xor_buddy [OF assms] odd_multiple [OF assms] by (auto simp: frames_def)
  show "(x XOR 2 ^ k) XOR 2 ^ k = x"
    by (simp add: xor.assoc)
qed

lemma xor_upper_half:
  fixes x :: nat
  assumes "2 ^ Suc k dvd x" shows "(x + 2 ^ k) XOR 2 ^ k = x"
proof -
  have "2 ^ k dvd x"
    using assms by (metis dvd_trans le_imp_power_dvd le_SucI order_refl)
  with xor_buddy [OF this] xor_buddy_aligned(5) [OF this] assms show ?thesis
    by simp
qed

subsection \<open>Maximal coalescing\<close>

text \<open>No two free blocks of the same order below the maximum are buddies.\<close>

definition maximal :: "(nat \<Rightarrow> nat list) \<Rightarrow> bool" where
  "maximal L \<longleftrightarrow> (\<forall>k x. k < MAX_ORDER \<longrightarrow> block_in L k x \<longrightarrow> \<not> block_in L k (x XOR 2 ^ k))"

text \<open>
  Then every aligned run of free frames lies inside a single free block: the bitmap test of
  \<^verbatim>\<open>deallocate_frame_order\<close> finds a block exactly when there is one.
\<close>

lemma run_in_block:
  assumes wf: "wf_blocks tot L" and max: "maximal L"
  shows "k \<le> MAX_ORDER \<Longrightarrow> 2 ^ k dvd y \<Longrightarrow> frames k y \<subseteq> covered L \<Longrightarrow>
     \<exists>k' x. k \<le> k' \<and> block_in L k' x \<and> frames k y \<subseteq> frames k' x"
proof (induction k arbitrary: y)
  case 0
  then show ?case
    by (auto simp: covered_def frames_def)
next
  case (Suc k)
  have al: "2 ^ k dvd y" "2 ^ k dvd y + 2 ^ k"
    using Suc.prems(2) by (auto intro: dvd_trans [OF le_imp_power_dvd [of k "Suc k"]])
  have "frames k y \<subseteq> covered L" "frames k (y + 2 ^ k) \<subseteq> covered L"
    using Suc.prems(3) by (auto simp: frames_Suc)
  then obtain k1 x1 k2 x2 where
    1: "k \<le> k1" "block_in L k1 x1" "frames k y \<subseteq> frames k1 x1" and
    2: "k \<le> k2" "block_in L k2 x2" "frames k (y + 2 ^ k) \<subseteq> frames k2 x2"
    using Suc.IH [OF _ al(1)] Suc.IH [OF _ al(2)] Suc.prems(1) by (metis Suc_leD)
  have up: ?case if "Suc k \<le> k'" "block_in L k' x" "z \<in> frames (Suc k) y" "z \<in> frames k' x" for k' x z
    using frames_nested [OF Suc.prems(2) _ that(1,3,4)] wf_blocks_less(3) [OF wf that(2)] that by blast
  show ?case
  proof (cases "k1 = k \<and> k2 = k")
    case True
    then have "block_in L k y" "block_in L k (y + 2 ^ k)"
      using 1 2 by (auto simp: frames_eq_iff)
    moreover have "y XOR 2 ^ k = y + 2 ^ k"
      using xor_buddy [OF al(1)] Suc.prems(2) by simp
    ultimately show ?thesis
      using max Suc.prems(1) unfolding maximal_def by (metis Suc_le_lessD)
  next
    case False
    then consider "Suc k \<le> k1" | "Suc k \<le> k2"
      using 1(1) 2(1) by linarith
    then show ?thesis
    proof cases
      case 1
      with \<open>block_in L k1 x1\<close> \<open>frames k y \<subseteq> frames k1 x1\<close> show ?thesis
        using up [of k1 x1 y] frames_nonempty(1) by blast
    next
      case 2
      have "y + 2 ^ k \<in> frames (Suc k) y"
        by (simp add: frames_def)
      with 2 \<open>block_in L k2 x2\<close> \<open>frames k (y + 2 ^ k) \<subseteq> frames k2 x2\<close> show ?thesis
        using up [of k2 x2 "y + 2 ^ k"] frames_nonempty(1) by blast
    qed
  qed
qed

end
