(* ===== verification/Buddy_Ops.thy ===== *)
theory Buddy_Ops
  imports Buddy_Inv
begin

text \<open>
  Allocation and deallocation of \<^verbatim>\<open>kernel/src/memory/buddy.rs\<close> on the representation of
  theory \<open>Buddy_Inv\<close>.  The free lists \<open>L\<close> cover exactly the free frames and no
  two buddies are both free (\<open>inv_lists\<close>).  Splitting a block on the way down and merging
  buddies on the way up keep this, never panic, and change the set of free frames by exactly the
  block handed out or taken back.
\<close>

unbundle bit_operations_syntax

definition inv_lists :: "buddy \<Rightarrow> (nat \<Rightarrow> nat list) \<Rightarrow> bool" where
  "inv_lists b L \<longleftrightarrow> rep b L (covered L) \<and> maximal L"

text \<open>An aligned block in range that overlaps no free block.\<close>

definition insertable :: "buddy \<Rightarrow> (nat \<Rightarrow> nat list) \<Rightarrow> nat \<Rightarrow> nat \<Rightarrow> bool" where
  "insertable b L x k \<longleftrightarrow>
     inv_lists b L \<and> k \<le> MAX_ORDER \<and> 2 ^ k dvd x \<and> x + 2 ^ k \<le> total_frames b \<and>
     frames k x \<inter> covered L = {}"

subsection \<open>Maximality\<close>

lemma maximal_insert:
  assumes "maximal L" "k \<le> MAX_ORDER" "2 ^ k dvd x"
    and "k < MAX_ORDER \<Longrightarrow> \<not> block_in L k (x XOR 2 ^ k)"
  shows "maximal (L(k := x # L k))"
proof -
  have "x XOR 2 ^ k \<noteq> x"
    using xor_buddy_aligned(4) [OF assms(3)] by auto
  moreover have "y XOR 2 ^ k = x \<Longrightarrow> y = x XOR 2 ^ k" for y
    by (auto simp: xor.assoc)
  ultimately show ?thesis
    using assms by (auto simp: maximal_def block_in_insert)
qed

lemma maximal_mono:
  assumes "maximal L" "\<And>k x. block_in L' k x \<Longrightarrow> block_in L k x" shows "maximal L'"
  using assms by (auto simp: maximal_def)

lemma inv_lists_free_set: "inv_lists b L \<Longrightarrow> covered L = free_set b"
  by (simp add: inv_lists_def rep_def)

subsection \<open>Allocation\<close>

lemma find_order_step:
  "k \<le> MAX_ORDER \<Longrightarrow> free_lists b k = None \<Longrightarrow> find_order b k = find_order b (Suc k)"
  "k > MAX_ORDER \<Longrightarrow> find_order b k = k"
  "free_lists b k = Some i \<Longrightarrow> find_order b k = k"
  using find_order.simps [of b k] by simp_all

lemma find_order_spec:
  assumes "k \<le> Suc MAX_ORDER"
  shows "k \<le> find_order b k" "find_order b k \<le> Suc MAX_ORDER"
    "k \<le> j \<Longrightarrow> j < find_order b k \<Longrightarrow> free_lists b j = None"
    "find_order b k \<le> MAX_ORDER \<Longrightarrow> free_lists b (find_order b k) \<noteq> None"
proof -
  have "k \<le> find_order b k \<and> find_order b k \<le> Suc MAX_ORDER \<and>
     (\<forall>j. k \<le> j \<longrightarrow> j < find_order b k \<longrightarrow> free_lists b j = None) \<and>
     (find_order b k \<le> MAX_ORDER \<longrightarrow> free_lists b (find_order b k) \<noteq> None)"
    using assms
  proof (induction "Suc MAX_ORDER - k" arbitrary: k)
    case 0
    then show ?case
      by (simp add: find_order_step(2))
  next
    case (Suc n)
    then have k: "k \<le> MAX_ORDER" "n = Suc MAX_ORDER - Suc k"
      by auto
    show ?case
    proof (cases "free_lists b k")
      case None
      have "k \<le> j \<longleftrightarrow> j = k \<or> Suc k \<le> j" for j
        by auto
      moreover have "Suc k \<le> Suc MAX_ORDER"
        using k by simp
      ultimately show ?thesis
        using Suc.hyps(1) [OF k(2)] None
        unfolding find_order_step(1) [where b = b, OF k(1) None] by (metis Suc_leD)
    next
      case (Some i)
      with k(1) show ?thesis
        by (simp add: find_order_step(3))
    qed
  qed
  then show "k \<le> find_order b k" "find_order b k \<le> Suc MAX_ORDER"
    "k \<le> j \<Longrightarrow> j < find_order b k \<Longrightarrow> free_lists b j = None"
    "find_order b k \<le> MAX_ORDER \<Longrightarrow> free_lists b (find_order b k) \<noteq> None"
    by blast+
qed

lemma pow2_orders: "k \<le> MAX_ORDER \<Longrightarrow> (2::nat) ^ k \<le> 1024"
  using power_increasing [of k 10 "2::nat"] by (simp add: MAX_ORDER_def)

lemma dvd_Suc_pow: "2 ^ Suc k dvd (x::nat) \<Longrightarrow> 2 ^ k dvd x"
  by (metis dvd_trans le_imp_power_dvd le_SucI order_refl)

lemma frames_within_iff: "frames k x \<subseteq> {..<n} \<longleftrightarrow> x + 2 ^ k \<le> n"
  by (simp add: frames_def lessThan_atLeast0 ivl_subset)

lemma split_down_inv:
  assumes "inv_lists b L" "order \<le> a" "a \<le> MAX_ORDER" "2 ^ a dvd x" "x + 2 ^ a \<le> total_frames b"
    and "frames a x \<inter> covered L = {}"
  shows "\<exists>b' L'. split_down x a order b = Some b' \<and> same_frame b b' \<and> inv_lists b' L' \<and>
     covered L' = covered L \<union> (frames a x - frames order x)"
  using assms
proof (induction a arbitrary: b L)
  case 0
  then show ?case
    by (subst split_down.simps) auto
next
  case (Suc a)
  show ?case
  proof (cases "order = Suc a")
    case True
    with Suc.prems show ?thesis
      by (subst split_down.simps) auto
  next
    case False
    have al: "2 ^ a dvd x" "2 ^ a dvd x + 2 ^ a"
      using dvd_Suc_pow [OF Suc.prems(4)] by simp_all
    have fr: "frames (Suc a) x = frames a x \<union> frames a (x + 2 ^ a)"
      "frames a x \<inter> frames a (x + 2 ^ a) = {}"
      by (auto simp: frames_def)
    have rep: "rep b L (covered L)" and geo: "geometry b"
      using Suc.prems(1) by (auto simp: inv_lists_def rep_def)
    have disj: "frames a (x + 2 ^ a) \<inter> covered L = {}"
      using Suc.prems(6) fr(1) by blast
    have a: "a \<le> MAX_ORDER" and le: "x + 2 ^ a + 2 ^ a \<le> total_frames b"
      using Suc.prems(3,5) by simp_all
    obtain b1 where ins: "insert_free (x + 2 ^ a) a b = Some b1" "same_frame b b1"
        and rep1: "rep b1 (L(a := (x + 2 ^ a) # L a)) (covered L \<union> frames a (x + 2 ^ a))"
      using insert_free_rep [OF rep a al(2) le disj] by blast
    let ?L1 = "L(a := (x + 2 ^ a) # L a)"
    have "\<not> block_in L a x"
      using block_in_covered [of L a x] Suc.prems(6) fr(1) frames_nonempty(2) [of a x] by blast
    then have "maximal ?L1"
      using Suc.prems(1) xor_upper_half [OF Suc.prems(4)]
      by (intro maximal_insert a al) (simp_all add: inv_lists_def)
    with rep1 have inv1: "inv_lists b1 ?L1"
      by (simp add: inv_lists_def covered_insert a)
    have "x + 2 ^ a \<le> total_frames b1" "frames a x \<inter> covered ?L1 = {}" "order \<le> a"
      using ins(2) le Suc.prems(2,6) False fr by (auto simp: same_frame_def covered_insert a)
    from Suc.IH [OF inv1 this(3) a al(1) this(1,2)] obtain b' L' where
      "split_down x a order b1 = Some b'" "same_frame b1 b'" "inv_lists b' L'"
      "covered L' = covered ?L1 \<union> (frames a x - frames order x)"
      by blast
    moreover have "frames order x \<inter> frames a (x + 2 ^ a) = {}"
      using power_increasing [OF \<open>order \<le> a\<close>, of "2::nat"] by (auto simp: frames_def)
    moreover have "uadd x (2 ^ a) = Some (x + 2 ^ a)"
      using le geo by (simp add: uadd_def geometry_def MAX_TRACKED_FRAMES_def)
    ultimately show ?thesis
      using ins False Suc.prems(2) fr same_frame_trans [OF ins(2)]
      by (subst split_down.simps) (auto simp: covered_insert a)
  qed
qed


lemma inv_lists_parts:
  assumes "inv_lists b L"
  shows "rep b L (covered L)" "maximal L" "geometry b" "wf_blocks (total_frames b) L"
    "k \<le> MAX_ORDER \<Longrightarrow> free_lists b k = head_of (L k)"
  using assms by (auto simp: inv_lists_def rep_def wf_lists_def)

lemma inv_lists_update:
  "inv_lists (b\<lparr>allocated_count := c\<rparr>) L = inv_lists b L"
  "inv_lists (b\<lparr>mon := m\<rparr>) L = inv_lists b L"
proof -
  have "chain (b\<lparr>allocated_count := c\<rparr>) p xs e = chain b p xs e"
    "chain (b\<lparr>mon := m\<rparr>) p xs e = chain b p xs e" for p xs e
    by (auto intro!: chain_cong simp: ptr_def)
  then show "inv_lists (b\<lparr>allocated_count := c\<rparr>) L = inv_lists b L"
    "inv_lists (b\<lparr>mon := m\<rparr>) L = inv_lists b L"
    by (auto simp: inv_lists_def rep_def wf_lists_def geometry_def free_set_def frame_free_def)
qed

lemma inv_lists_pop:
  assumes inv: "inv_lists b L" and k: "k \<le> MAX_ORDER" and L: "L k = x # ys"
  shows "\<exists>b'. pop_free k b = Some (Some x, b') \<and> same_frame b b' \<and> inv_lists b' (L(k := ys)) \<and>
     covered (L(k := ys)) = covered L - frames k x"
proof -
  note parts = inv_lists_parts [OF inv]
  have cov: "covered (L(k := ys)) = covered L - frames k x"
    using covered_remove [OF parts(4) k, of "[]"] L by simp
  have "maximal (L(k := ys))"
    by (rule maximal_mono [OF parts(2)]) (auto simp: block_in_def L split: if_splits)
  with pop_free_rep [OF parts(1) k L] cov show ?thesis
    by (auto simp: inv_lists_def)
qed

lemma frame_api_okD:
  assumes "frame_api_ok api" "p mod 4096 = 0" "p < 2 ^ 52"
  shows "\<exists>f. containing_address api p = Some f \<and> start_address api f = p"
  using assms(1) [unfolded frame_api_ok_def, THEN spec, of p] assms(2,3) by simp

text \<open>When the search finds an order, the call returns a block that was free and is aligned.\<close>

lemma allocate_some:
  assumes inv: "inv_lists b L" and order: "order \<le> MAX_ORDER" and found: "find_order b order \<le> MAX_ORDER"
    and api: "frame_api_ok api" and count: "allocated_count b + 2 ^ order < usize_bound"
  shows "\<exists>x f b' L'. allocate_frame_order api order b = Some (Some f, b') \<and>
     start_address api f = base_phys b + x * 4096 \<and> 2 ^ order dvd x \<and>
     frames order x \<subseteq> covered L \<and> inv_lists b' L' \<and> covered L' = covered L - frames order x \<and>
     same_frame (b\<lparr>allocated_count := allocated_count b + 2 ^ order,
                   mon := inc_allocated_frames (2 ^ order) (mon b)\<rparr>) b'"
proof -
  note parts = inv_lists_parts [OF inv]
  define a where "a = find_order b order"
  have a: "order \<le> a" "a \<le> MAX_ORDER" "free_lists b a \<noteq> None"
    using find_order_spec [where k = order and b = b] order found by (auto simp: a_def)
  then obtain x ys where L: "L a = x # ys"
    using parts(5) [OF a(2)] by (cases "L a") (auto simp: head_of_def)
  then have x: "block_in L a x"
    using a by (simp add: block_in_def)
  note xb = wf_blocks_less [OF parts(4) x]
  obtain b1 where pop: "pop_free a b = Some (Some x, b1)" "same_frame b b1"
      "inv_lists b1 (L(a := ys))" "covered (L(a := ys)) = covered L - frames a x"
    using inv_lists_pop [OF inv a(2) L] by blast
  have "x + 2 ^ a \<le> total_frames b1" "frames a x \<inter> covered (L(a := ys)) = {}"
    using xb pop by (auto simp: same_frame_def)
  then obtain b2 L2 where split: "split_down x a order b1 = Some b2" "same_frame b1 b2"
      "inv_lists b2 L2" "covered L2 = covered (L(a := ys)) \<union> (frames a x - frames order x)"
    using split_down_inv [OF pop(3) a(1,2) xb(3)] by blast
  have al: "2 ^ order dvd x" "frames order x \<subseteq> frames a x"
    using xb(3) a(1) by (auto simp: frames_def le_imp_power_dvd intro: dvd_trans)
  have sub: "frames a x \<subseteq> covered L"
    using block_in_covered [OF x] .
  define b4 where "b4 = b2\<lparr>allocated_count := allocated_count b + 2 ^ order,
                           mon := inc_allocated_frames (2 ^ order) (mon b)\<rparr>"
  have sf: "same_frame b b2"
    using pop(2) split(2) by (rule same_frame_trans)
  have phys: "idx_to_phys b4 x = Some (base_phys b + x * 4096)"
    using idx_to_phys_eq [of b4 x] xb(1) sf parts(3)
    by (simp add: b4_def same_frame_def geometry_def)
  have "(base_phys b + x * 4096) mod 4096 = 0" "base_phys b + x * 4096 < 2 ^ 52"
    using parts(3) xb(1) by (simp_all add: geometry_def mod_add_left_eq [symmetric])
  then obtain f where f: "containing_address api (base_phys b + x * 4096) = Some f"
      "start_address api f = base_phys b + x * 4096"
    using frame_api_okD [OF api] by metis
  have "allocate_frame_order api order b = Some (Some f, b4)"
    using order a pop(1) split(1) count sf phys f(1)
    by (simp add: allocate_frame_order_def a_def [symmetric] Let_def uadd_def same_frame_def b4_def)
  moreover have "inv_lists b4 L2"
    using split(3) by (simp add: b4_def inv_lists_update)
  moreover have "covered L2 = covered L - frames order x"
    using split(4) pop(4) al(2) sub by blast
  moreover have "same_frame (b\<lparr>allocated_count := allocated_count b + 2 ^ order,
                   mon := inc_allocated_frames (2 ^ order) (mon b)\<rparr>) b4"
    using sf by (simp add: same_frame_def b4_def)
  ultimately show ?thesis
    using f(2) al sub by blast
qed

text \<open>When it finds none, no aligned run of that many frames is free.\<close>

lemma allocate_none:
  assumes inv: "inv_lists b L" and order: "order \<le> MAX_ORDER" and none: "MAX_ORDER < find_order b order"
  shows "allocate_frame_order api order b = Some (None, b)"
    "2 ^ order dvd x \<Longrightarrow> \<not> frames order x \<subseteq> covered L"
proof -
  note parts = inv_lists_parts [OF inv]
  show "allocate_frame_order api order b = Some (None, b)"
    using order none by (simp add: allocate_frame_order_def Let_def)
  have empty: "L j = []" if "order \<le> j" "j \<le> MAX_ORDER" for j
    using find_order_spec(3) [where k = order and j = j and b = b] parts(5) [OF that(2)] order none that
    by (auto simp: head_of_def split: list.splits)
  show "\<not> frames order x \<subseteq> covered L" if al: "2 ^ order dvd x"
    using run_in_block [OF parts(4,2) order al] empty by (auto simp: block_in_def)
qed

subsection \<open>Deallocation\<close>

text \<open>
  A block next to a free buddy range merges with exactly one free block, because the buddy range
  cannot lie inside a larger free block: that one would contain the block being freed.
\<close>

lemma free_buddy_is_block:
  assumes inv: "inv_lists b L" and k: "k < MAX_ORDER" and x: "2 ^ k dvd x"
    and new: "frames k x \<inter> covered L = {}" and free: "frames k (x XOR 2 ^ k) \<subseteq> covered L"
  shows "block_in L k (x XOR 2 ^ k)"
proof -
  note parts = inv_lists_parts [OF inv] and bud = xor_buddy_aligned [OF x]
  obtain k' y where y: "k \<le> k'" "block_in L k' y" "frames k (x XOR 2 ^ k) \<subseteq> frames k' y"
    using run_in_block [OF parts(4,2) _ bud(1) free] k by auto
  have "k' = k"
  proof (rule ccontr)
    assume "k' \<noteq> k"
    with y(1) have "Suc k \<le> k'" by simp
    moreover have "x XOR 2 ^ k \<in> frames (Suc k) (min x (x XOR 2 ^ k))"
      using bud(3) by simp
    moreover have "x XOR 2 ^ k \<in> frames k' y"
      using y(3) frames_nonempty(1) by (rule subsetD)
    ultimately have "frames (Suc k) (min x (x XOR 2 ^ k)) \<subseteq> frames k' y"
      by (intro frames_nested [OF bud(2)] wf_blocks_less(3) [OF parts(4) y(2)])
    then have "frames k x \<subseteq> covered L"
      using block_in_covered [OF y(2)] bud(3) by blast
    with new show False
      using frames_nonempty(1) [of x k] by blast
  qed
  with y frames_eq_iff [of k "x XOR 2 ^ k" y] show ?thesis
    by simp
qed

lemma coalesce_merge:
  assumes ins: "insertable b L x k" and k: "k < MAX_ORDER" and blk: "block_in L k (x XOR 2 ^ k)"
  shows "\<exists>b1 b2 L'. remove_free (x XOR 2 ^ k) k b = Some b1 \<and>
     mark_range_allocated (x XOR 2 ^ k) (2 ^ k) b1 = Some b2 \<and> same_frame b b2 \<and>
     insertable b2 L' (min x (x XOR 2 ^ k)) (Suc k) \<and>
     covered L' \<union> frames (Suc k) (min x (x XOR 2 ^ k)) = covered L \<union> frames k x"
proof -
  have inv: "inv_lists b L" and x: "2 ^ k dvd x" "x + 2 ^ k \<le> total_frames b"
    and new: "frames k x \<inter> covered L = {}"
    using ins by (auto simp: insertable_def)
  note parts = inv_lists_parts [OF inv] and bud = xor_buddy_aligned [OF x(1)]
  obtain xs ys b1 b2 where rm: "L k = xs @ (x XOR 2 ^ k) # ys"
      "remove_free (x XOR 2 ^ k) k b = Some b1"
      "mark_range_allocated (x XOR 2 ^ k) (2 ^ k) b1 = Some b2" "same_frame b b2"
      "rep b2 (L(k := xs @ ys)) (covered L - frames k (x XOR 2 ^ k))"
    using remove_mark_rep [OF parts(1) blk] by blast
  let ?L' = "L(k := xs @ ys)"
  have cov: "covered ?L' = covered L - frames k (x XOR 2 ^ k)"
    using covered_remove [OF parts(4) _ rm(1)] k by simp
  have "maximal ?L'"
    by (rule maximal_mono [OF parts(2)]) (auto simp: block_in_def rm(1) split: if_splits)
  then have inv2: "inv_lists b2 ?L'"
    using rm(5) cov by (simp add: inv_lists_def)
  have "(x XOR 2 ^ k) + 2 ^ k \<le> total_frames b"
    using wf_blocks_less(2) [OF parts(4) blk] .
  then have "frames (Suc k) (min x (x XOR 2 ^ k)) \<subseteq> {..<total_frames b}"
    using x(2) bud(3) by (simp add: frames_within_iff [symmetric])
  then have le: "min x (x XOR 2 ^ k) + 2 ^ Suc k \<le> total_frames b2"
    using rm(4) unfolding frames_within_iff by (simp add: same_frame_def)
  have "frames k (x XOR 2 ^ k) \<subseteq> covered L"
    using block_in_covered [OF blk] .
  then have "insertable b2 ?L' (min x (x XOR 2 ^ k)) (Suc k)"
      "covered ?L' \<union> frames (Suc k) (min x (x XOR 2 ^ k)) = covered L \<union> frames k x"
    using inv2 le k bud(2,3) new cov by (auto simp: insertable_def)
  with rm show ?thesis
    by blast
qed

lemma coalesce_up_inv:
  "insertable b L x k \<Longrightarrow>
   \<exists>x' k' b' L'. coalesce_up x k b = Some (x', k', b') \<and> same_frame b b' \<and> insertable b' L' x' k' \<and>
     covered L' \<union> frames k' x' = covered L \<union> frames k x \<and>
     (k' < MAX_ORDER \<longrightarrow> \<not> block_in L' k' (x' XOR 2 ^ k'))"
proof (induction "MAX_ORDER - k" arbitrary: b L x k)
  case 0
  then show ?case
    using coalesce_up.simps [of x k b] by (auto simp: insertable_def)
next
  case (Suc n)
  then have k: "k < MAX_ORDER" "n = MAX_ORDER - Suc k"
    by auto
  have ins: "inv_lists b L" "2 ^ k dvd x" "x + 2 ^ k \<le> total_frames b" "frames k x \<inter> covered L = {}"
    using Suc.prems by (auto simp: insertable_def)
  note parts = inv_lists_parts [OF ins(1)]
  let ?bud = "x XOR 2 ^ k"
  show ?case
  proof (cases "block_in L k ?bud")
    case True
    obtain b1 b2 L1 where m: "remove_free ?bud k b = Some b1"
        "mark_range_allocated ?bud (2 ^ k) b1 = Some b2" "same_frame b b2"
        "insertable b2 L1 (min x ?bud) (Suc k)"
        "covered L1 \<union> frames (Suc k) (min x ?bud) = covered L \<union> frames k x"
      using coalesce_merge [OF Suc.prems k(1) True] by blast
    note le = wf_blocks_less [OF parts(4) True]
    have "is_range_free b ?bud (2 ^ k) = Some True"
      using is_range_free_eq [OF parts(3) le(1), of "2 ^ k"] le(2) block_in_covered [OF True]
        inv_lists_free_set [OF ins(1)] parts(3)
      by (auto simp: frames_def geometry_def)
    with k le(1) m(1,2) have "coalesce_up x k b = coalesce_up (min x ?bud) (Suc k) b2"
      unfolding coalesce_up.simps [of x k b] by (simp add: Let_def)
    moreover obtain x' k' b' L' where "coalesce_up (min x ?bud) (Suc k) b2 = Some (x', k', b')"
        "same_frame b2 b'" "insertable b' L' x' k'"
        "covered L' \<union> frames k' x' = covered L1 \<union> frames (Suc k) (min x ?bud)"
        "k' < MAX_ORDER \<longrightarrow> \<not> block_in L' k' (x' XOR 2 ^ k')"
      using Suc.hyps(1) [OF k(2) m(4)] by blast
    ultimately show ?thesis
      using same_frame_trans [OF m(3)] m(5) by metis
  next
    case False
    have "coalesce_up x k b = Some (x, k, b)"
    proof (cases "?bud < total_frames b")
      case True
      have "\<not> frames k ?bud \<subseteq> covered L"
        using free_buddy_is_block [OF ins(1) k(1) ins(2,4)] False by blast
      then have "is_range_free b ?bud (2 ^ k) = Some False"
        using is_range_free_eq [OF parts(3) True, of "2 ^ k"] inv_lists_free_set [OF ins(1)]
          pow2_orders [of k] k by (simp add: frames_def MAX_TRACKED_FRAMES_def)
      with k True show ?thesis
        unfolding coalesce_up.simps [of x k b] by (simp add: Let_def)
    next
      case False
      then show ?thesis
        unfolding coalesce_up.simps [of x k b] by (simp add: Let_def)
    qed
    with Suc.prems False show ?thesis
      by auto
  qed
qed

lemma phys_to_idx_eq:
  "base_phys b + x * 4096 < usize_bound \<Longrightarrow> phys_to_idx b (base_phys b + x * 4096) = Some x"
  by (simp add: phys_to_idx_def usub_def)

lemma deallocate_inv:
  assumes ins: "insertable b L x order" and f: "start_address api f = base_phys b + x * 4096"
    and count: "2 ^ order \<le> allocated_count b"
  shows "\<exists>b' L'. deallocate_frame_order api f order b = Some b' \<and> inv_lists b' L' \<and>
     covered L' = covered L \<union> frames order x \<and>
     same_frame (b\<lparr>allocated_count := allocated_count b - 2 ^ order,
                   mon := dec_allocated_frames (2 ^ order) (mon b)\<rparr>) b'"
proof -
  define b2 where "b2 = b\<lparr>allocated_count := allocated_count b - 2 ^ order,
                          mon := dec_allocated_frames (2 ^ order) (mon b)\<rparr>"
  have ins2: "insertable b2 L x order"
    using ins by (simp add: insertable_def b2_def inv_lists_update)
  obtain x' k' b3 L3 where co: "coalesce_up x order b2 = Some (x', k', b3)" "same_frame b2 b3"
      "insertable b3 L3 x' k'" "covered L3 \<union> frames k' x' = covered L \<union> frames order x"
      "k' < MAX_ORDER \<longrightarrow> \<not> block_in L3 k' (x' XOR 2 ^ k')"
    using coalesce_up_inv [OF ins2] by blast
  have i: "inv_lists b3 L3" "k' \<le> MAX_ORDER" "2 ^ k' dvd x'" "x' + 2 ^ k' \<le> total_frames b3"
      "frames k' x' \<inter> covered L3 = {}"
    using co(3) by (auto simp: insertable_def)
  obtain b' where b': "insert_free x' k' b3 = Some b'" "same_frame b3 b'"
      "rep b' (L3(k' := x' # L3 k')) (covered L3 \<union> frames k' x')"
    using insert_free_rep [OF inv_lists_parts(1) [OF i(1)] i(2-5)] by blast
  have "maximal (L3(k' := x' # L3 k'))"
    using co(5) by (intro maximal_insert inv_lists_parts(2) [OF i(1)] i(2,3)) simp
  then have "inv_lists b' (L3(k' := x' # L3 k'))"
    using b'(3) by (simp add: inv_lists_def covered_insert i(2))
  moreover have "covered (L3(k' := x' # L3 k')) = covered L \<union> frames order x"
    using co(4) by (simp add: covered_insert i(2))
  moreover have "base_phys b + x * 4096 < usize_bound"
    using ins by (auto simp: insertable_def inv_lists_def rep_def geometry_def)
  then have "deallocate_frame_order api f order b = Some b'"
    using co(1) b'(1) f count ins phys_to_idx_eq [of b2 x]
    by (simp add: deallocate_frame_order_def usub_def b2_def [symmetric] insertable_def Let_def)
      (simp add: b2_def)
  ultimately show ?thesis
    using same_frame_trans [OF co(2) b'(2)] unfolding b2_def by blast
qed

end
