(* ===== verification/Buddy_Init.thy ===== *)
theory Buddy_Init
  imports Buddy_Ops
begin

text \<open>
  \<^verbatim>\<open>BuddyAllocator::new\<close>: from a memory map with page-aligned usable regions, no two of which
  overlap or touch, construction never panics, marks exactly the frames of the usable regions as
  free and carves them into maximal blocks, so that the invariant of theory \<open>Buddy_Ops\<close> holds.
\<close>

unbundle bit_operations_syntax

subsection \<open>The memory map\<close>

definition separated :: "memory_region \<Rightarrow> memory_region \<Rightarrow> bool" where
  "separated r r' \<longleftrightarrow> region_end r < region_start r' \<or> region_end r' < region_start r"

definition region_ok :: "nat \<Rightarrow> memory_region \<Rightarrow> bool" where
  "region_ok off r \<longleftrightarrow>
     region_start r mod 4096 = 0 \<and> region_end r mod 4096 = 0 \<and> region_start r \<le> region_end r \<and>
     region_end r \<le> 2 ^ 52 \<and> region_end r + off \<le> 2 ^ 64"

definition regions_ok :: "memory_region list \<Rightarrow> nat \<Rightarrow> bool" where
  "regions_ok rs off \<longleftrightarrow>
     usable_regions rs \<noteq> [] \<and> list_all (region_ok off) (usable_regions rs) \<and>
     sorted_wrt separated (usable_regions rs)"

text \<open>The frame indices of an allocator state whose frames lie in a usable region.\<close>

definition usable_frames :: "memory_region list \<Rightarrow> buddy \<Rightarrow> nat set" where
  "usable_frames rs b =
     {i. i < total_frames b \<and>
         (\<exists>r \<in> set (usable_regions rs).
            region_start r \<le> base_phys b + i * 4096 \<and> base_phys b + i * 4096 < region_end r)}"

definition region_frames :: "buddy \<Rightarrow> memory_region \<Rightarrow> nat set" where
  "region_frames b r =
     {(region_start r - base_phys b) div 4096..<
      min ((region_end r - base_phys b) div 4096) (total_frames b)}"

lemma foldl_min_spec:
  fixes a :: nat
  shows "(\<forall>x \<in> insert a (set xs). foldl min a xs \<le> x) \<and> foldl min a xs \<in> insert a (set xs)"
proof (induction xs arbitrary: a)
  case (Cons x xs)
  from Cons [of "min a x"] show ?case
    by (auto simp: min_def split: if_splits)
qed simp

lemma foldl_max_spec:
  fixes a :: nat
  shows "(\<forall>x \<in> insert a (set xs). x \<le> foldl max a xs) \<and> foldl max a xs \<in> insert a (set xs)"
proof (induction xs arbitrary: a)
  case (Cons x xs)
  from Cons [of "max a x"] show ?case
    by (auto simp: max_def split: if_splits)
qed simp

lemma aligned_div_le_iff:
  fixes s base i :: nat
  assumes "s mod 4096 = 0" "base mod 4096 = 0" "base \<le> s"
  shows "(s - base) div 4096 \<le> i \<longleftrightarrow> s \<le> base + i * 4096"
proof -
  obtain p q where "s = 4096 * p" "base = 4096 * q"
    using assms by (auto simp: mod_eq_0_iff_dvd dvd_def)
  then show ?thesis
    using assms(3) by (auto simp: diff_mult_distrib2 [symmetric])
qed

lemma region_frames_iff:
  assumes "region_ok off r" "base_phys b mod 4096 = 0" "base_phys b \<le> region_start r"
  shows "i \<in> region_frames b r \<longleftrightarrow>
     i < total_frames b \<and> region_start r \<le> base_phys b + i * 4096 \<and> base_phys b + i * 4096 < region_end r"
proof -
  have "(region_end r - base_phys b) div 4096 \<le> i \<longleftrightarrow> region_end r \<le> base_phys b + i * 4096"
    using assms by (intro aligned_div_le_iff) (auto simp: region_ok_def)
  moreover have "(region_start r - base_phys b) div 4096 \<le> i \<longleftrightarrow> region_start r \<le> base_phys b + i * 4096"
    using assms by (intro aligned_div_le_iff) (auto simp: region_ok_def)
  ultimately show ?thesis
    by (auto simp: region_frames_def not_le [symmetric])
qed

subsection \<open>Marking\<close>

lemma for_each_mark_below:
  assumes "total_frames b \<le> MAX_TRACKED_FRAMES"
  shows "\<exists>bm. for_each (\<lambda>idx b. if idx < total_frames b then mark_free idx b else Some b) is b =
       Some (b\<lparr>bitmap := bm\<rparr>) \<and>
     (\<forall>j. frame_free (b\<lparr>bitmap := bm\<rparr>) j \<longleftrightarrow> (j \<in> set is \<and> j < total_frames b) \<or> frame_free b j)"
  using assms
proof (induction "is" arbitrary: b)
  case Nil
  have "b\<lparr>bitmap := bitmap b\<rparr> = b" by simp
  then show ?case by (metis empty_iff for_each.simps(1) list.set(1))
next
  case (Cons i "is")
  let ?body = "\<lambda>idx b. if idx < total_frames b then mark_free idx b else Some b"
  obtain bm1 where 1: "?body i b = Some (b\<lparr>bitmap := bm1\<rparr>)"
      "\<forall>j. frame_free (b\<lparr>bitmap := bm1\<rparr>) j \<longleftrightarrow> (j = i \<and> j < total_frames b) \<or> frame_free b j"
  proof (cases "i < total_frames b")
    case True
    then obtain bm where "mark_free i b = Some (b\<lparr>bitmap := bm\<rparr>)"
        "\<forall>j. frame_free (b\<lparr>bitmap := bm\<rparr>) j \<longleftrightarrow> j = i \<or> frame_free b j"
      using mark_free_eq [of i b] Cons.prems by auto
    with True show ?thesis by (intro that [of bm]) auto
  next
    case False
    with that [of "bitmap b"] show ?thesis by auto
  qed
  obtain bm2 where "for_each ?body is (b\<lparr>bitmap := bm1\<rparr>) = Some (b\<lparr>bitmap := bm2\<rparr>)"
      "\<forall>j. frame_free (b\<lparr>bitmap := bm2\<rparr>) j \<longleftrightarrow>
         (j \<in> set is \<and> j < total_frames b) \<or> frame_free (b\<lparr>bitmap := bm1\<rparr>) j"
    using Cons.IH [of "b\<lparr>bitmap := bm1\<rparr>"] Cons.prems by auto
  with 1 show ?case by auto
qed

lemma region_idx_eq:
  "base_phys b \<le> a \<Longrightarrow> region_idx b a = Some ((a - base_phys b) div 4096)"
  by (simp add: region_idx_def usub_def)

lemma mark_region_eq:
  assumes "total_frames b \<le> MAX_TRACKED_FRAMES" "base_phys b \<le> region_start r"
    "region_start r \<le> region_end r"
  shows "\<exists>bm. mark_region r b = Some (b\<lparr>bitmap := bm\<rparr>) \<and>
     free_set (b\<lparr>bitmap := bm\<rparr>) = free_set b \<union> region_frames b r"
proof -
  let ?s = "(region_start r - base_phys b) div 4096" and ?e = "(region_end r - base_phys b) div 4096"
  obtain bm where bm:
    "for_each (\<lambda>idx b. if idx < total_frames b then mark_free idx b else Some b) [?s..<?e] b =
       Some (b\<lparr>bitmap := bm\<rparr>)"
    "\<forall>j. frame_free (b\<lparr>bitmap := bm\<rparr>) j \<longleftrightarrow> (j \<in> set [?s..<?e] \<and> j < total_frames b) \<or> frame_free b j"
    using for_each_mark_below [OF assms(1)] by blast
  have "mark_region r b = Some (b\<lparr>bitmap := bm\<rparr>)"
    using assms bm(1) by (simp add: mark_region_def region_idx_eq)
  moreover have "free_set (b\<lparr>bitmap := bm\<rparr>) = free_set b \<union> region_frames b r"
    using assms(1) by (auto simp: free_set_def bm(2) region_frames_def)
  ultimately show ?thesis
    by blast
qed

lemma region_frames_bitmap [simp]: "region_frames (b\<lparr>bitmap := bm\<rparr>) r = region_frames b r"
  by (simp add: region_frames_def)

lemma mark_regions_eq:
  assumes "total_frames b \<le> MAX_TRACKED_FRAMES"
    and "\<forall>r \<in> set rs. base_phys b \<le> region_start r \<and> region_start r \<le> region_end r"
  shows "\<exists>bm. for_each mark_region rs b = Some (b\<lparr>bitmap := bm\<rparr>) \<and>
     free_set (b\<lparr>bitmap := bm\<rparr>) = free_set b \<union> (\<Union>r \<in> set rs. region_frames b r)"
  using assms
proof (induction rs arbitrary: b)
  case Nil
  have "b\<lparr>bitmap := bitmap b\<rparr> = b" by simp
  then show ?case by (metis Un_empty_right UN_empty for_each.simps(1) list.set(1))
next
  case (Cons r rs)
  obtain bm1 where 1: "mark_region r b = Some (b\<lparr>bitmap := bm1\<rparr>)"
      "free_set (b\<lparr>bitmap := bm1\<rparr>) = free_set b \<union> region_frames b r"
    using mark_region_eq [of b r] Cons.prems by auto
  obtain bm2 where "for_each mark_region rs (b\<lparr>bitmap := bm1\<rparr>) = Some (b\<lparr>bitmap := bm2\<rparr>)"
      "free_set (b\<lparr>bitmap := bm2\<rparr>) =
         free_set (b\<lparr>bitmap := bm1\<rparr>) \<union> (\<Union>r \<in> set rs. region_frames b r)"
    using Cons.IH [of "b\<lparr>bitmap := bm1\<rparr>"] Cons.prems by auto
  with 1 show ?case
    by (intro exI [of _ bm2]) auto
qed

subsection \<open>Carving\<close>

lemma floor_log2_bounds:
  assumes "0 < n" "n < 2 ^ 64" shows "2 ^ floor_log2 n \<le> n" "n < 2 ^ Suc (floor_log2 n)"
proof -
  have "floor_log2 n = bit_len n - 1"
    using assms bit_len_le [of n 64] by (simp add: floor_log2_def leading_zeros64_def)
  then show "2 ^ floor_log2 n \<le> n" "n < 2 ^ Suc (floor_log2 n)"
    using bit_len_bounds [OF assms(1)] by auto
qed

lemma lower_order_spec:
  "lower_order pos m \<le> m \<and> 2 ^ lower_order pos m dvd pos \<and>
   (lower_order pos m < m \<longrightarrow> \<not> 2 ^ Suc (lower_order pos m) dvd pos)"
proof (induction m)
  case 0
  then show ?case
    by (simp add: lower_order.simps [of pos 0])
next
  case (Suc m)
  show ?case
  proof (cases "2 ^ Suc m dvd pos")
    case True
    then show ?thesis
      by (simp add: lower_order.simps [of pos "Suc m"] is_aligned_iff)
  next
    case False
    then have "lower_order pos (Suc m) = lower_order pos m"
      by (simp add: lower_order.simps [of pos "Suc m"] is_aligned_iff)
    with Suc False show ?thesis
      by (metis le_SucI le_antisym not_less)
  qed
qed

text \<open>No block could have been carved one order larger inside the free frames \<open>B\<close>.\<close>

definition tight :: "(nat \<Rightarrow> nat list) \<Rightarrow> nat set \<Rightarrow> bool" where
  "tight L B \<longleftrightarrow>
     (\<forall>k x. block_in L k x \<longrightarrow> k < MAX_ORDER \<longrightarrow> 2 ^ Suc k dvd x \<longrightarrow> \<not> frames (Suc k) x \<subseteq> B)"

lemma tight_maximal:
  assumes "tight L B" "covered L \<subseteq> B" "\<And>k x. block_in L k x \<Longrightarrow> 2 ^ k dvd x"
  shows "maximal L"
  unfolding maximal_def
proof (intro allI impI notI)
  fix k x assume k: "k < MAX_ORDER" and b: "block_in L k x" "block_in L k (x XOR 2 ^ k)"
  note al = assms(3) [OF b(1)]
  let ?m = "min x (x XOR 2 ^ k)"
  have "frames (Suc k) ?m \<subseteq> B"
    using xor_buddy_aligned(3) [OF al] block_in_covered [OF b(1)] block_in_covered [OF b(2)] assms(2)
    by blast
  moreover have "block_in L k ?m"
    using b by (simp add: min_def)
  ultimately show False
    using assms(1) k xor_buddy_aligned(2) [OF al] by (auto simp: tight_def)
qed


lemma carve_order:
  assumes "pos < e" "e < 2 ^ 64"
  defines "k \<equiv> lower_order pos (min MAX_ORDER (floor_log2 (e - pos)))"
  shows "k \<le> MAX_ORDER" "2 ^ k dvd pos" "pos + 2 ^ k \<le> e"
    "k < MAX_ORDER \<Longrightarrow> 2 ^ Suc k dvd pos \<Longrightarrow> e \<in> frames (Suc k) pos"
proof -
  note low = lower_order_spec [of pos "min MAX_ORDER (floor_log2 (e - pos))", folded k_def]
  have log: "2 ^ floor_log2 (e - pos) \<le> e - pos" "e - pos < 2 ^ Suc (floor_log2 (e - pos))"
    using floor_log2_bounds [of "e - pos"] assms(1,2) by auto
  show "k \<le> MAX_ORDER" "2 ^ k dvd pos"
    using low by simp_all
  have "(2::nat) ^ k \<le> 2 ^ floor_log2 (e - pos)"
    using low by (intro power_increasing) simp_all
  then show "pos + 2 ^ k \<le> e"
    using log(1) assms(1) by linarith
  show "e \<in> frames (Suc k) pos" if "k < MAX_ORDER" "2 ^ Suc k dvd pos"
  proof -
    have "k = floor_log2 (e - pos)"
      using low that by (auto simp: min_def split: if_splits)
    then show ?thesis
      using log(2) assms(1) by (auto simp: frames_def)
  qed
qed

lemma carve_inv:
  assumes "rep b L B" "tight L B" "e \<notin> B" "{pos..<e} \<subseteq> B" "{pos..<e} \<inter> covered L = {}"
    and "e \<le> total_frames b"
  shows "\<exists>b' L'. carve pos e b = Some b' \<and> same_frame b b' \<and> rep b' L' B \<and> tight L' B \<and>
     covered L' = covered L \<union> {pos..<e}"
  using assms
proof (induction "e - pos" arbitrary: pos b L rule: less_induct)
  case less
  show ?case
  proof (cases "pos < e")
    case True
    define k where "k = lower_order pos (min MAX_ORDER (floor_log2 (e - pos)))"
    have geo: "geometry b" and B: "free_set b = B"
      using less.prems(1) by (auto simp: rep_def)
    have tr: "e \<le> MAX_TRACKED_FRAMES"
      using less.prems(6) geo by (simp add: geometry_def)
    then have e64: "e < 2 ^ 64"
      by (simp add: MAX_TRACKED_FRAMES_def)
    note ord = carve_order [OF True e64, folded k_def]
    have sub: "frames k pos \<subseteq> {pos..<e}" "{pos..<e} = frames k pos \<union> {pos + 2 ^ k..<e}"
      using ord(3) by (auto simp: frames_def)
    have free: "is_free b pos = Some True"
    proof -
      have "pos \<in> free_set b"
        using less.prems(4) True B by auto
      then show ?thesis
        using is_free_eq [of pos b] by (simp add: free_set_def)
    qed
    have "pos + 2 ^ k \<le> total_frames b" "frames k pos \<inter> covered L = {}"
      using ord(3) less.prems(5,6) sub(1) by auto
    then obtain b1 where b1: "insert_free pos k b = Some b1" "same_frame b b1"
        "rep b1 (L(k := pos # L k)) (B \<union> frames k pos)"
      using insert_free_rep [OF less.prems(1) ord(1,2)] by blast
    let ?L1 = "L(k := pos # L k)"
    have cov: "covered ?L1 = covered L \<union> frames k pos"
      by (simp add: covered_insert ord(1))
    have "tight ?L1 B"
      using less.prems(2,3) ord(4) by (auto simp: tight_def block_in_insert ord(1))
    moreover have "B \<union> frames k pos = B"
      using sub less.prems(4) by blast
    moreover have "{pos + 2 ^ k..<e} \<inter> covered ?L1 = {}" "{pos + 2 ^ k..<e} \<subseteq> B"
      using less.prems(4,5) sub by (auto simp: cov frames_def)
    moreover have "e \<le> total_frames b1" "e - (pos + 2 ^ k) < e - pos"
      using less.prems(6) b1(2) True by (auto simp: same_frame_def diff_less_mono2)
    ultimately obtain b' L' where "carve (pos + 2 ^ k) e b1 = Some b'" "same_frame b1 b'"
        "rep b' L' B" "tight L' B" "covered L' = covered ?L1 \<union> {pos + 2 ^ k..<e}"
      using less.hyps [of "pos + 2 ^ k" b1 ?L1] b1(3) less.prems(3) by auto
    moreover have "carve pos e b = carve (pos + 2 ^ k) e b1"
      using True free b1(1) unfolding carve.simps [of pos e b] by (simp add: Let_def k_def)
    ultimately show ?thesis
      using same_frame_trans [OF b1(2)] cov sub(2) by (metis sup_assoc)
  next
    case False
    with less.prems show ?thesis
      using carve.simps [of pos e b] by auto
  qed
qed


lemma region_frames_same: "same_frame b b' \<Longrightarrow> region_frames b' r = region_frames b r"
  by (simp add: region_frames_def same_frame_def)

lemma carve_region_inv:
  assumes "rep b L B" "tight L B" "base_phys b \<le> region_start r" "region_start r \<le> region_end r"
    and "region_frames b r \<subseteq> B" "region_frames b r \<inter> covered L = {}"
    and "min ((region_end r - base_phys b) div 4096) (total_frames b) \<notin> B"
  shows "\<exists>b' L'. carve_region r b = Some b' \<and> same_frame b b' \<and> rep b' L' B \<and> tight L' B \<and>
     covered L' = covered L \<union> region_frames b r"
proof -
  let ?s = "(region_start r - base_phys b) div 4096"
  let ?e = "min ((region_end r - base_phys b) div 4096) (total_frames b)"
  have eq: "carve_region r b = (if ?s \<ge> total_frames b then Some b else carve ?s ?e b)"
    using assms(3,4) by (auto simp: carve_region_def region_idx_eq min_def)
  show ?thesis
  proof (cases "?s \<ge> total_frames b")
    case True
    then have "region_frames b r = {}"
      by (auto simp: region_frames_def)
    with True eq assms(1,2) show ?thesis
      by auto
  next
    case False
    with eq carve_inv [OF assms(1,2,7), of ?s] assms(5,6) show ?thesis
      by (simp add: region_frames_def)
  qed
qed

lemma carve_regions_inv:
  assumes "rep b L B" "tight L B" "sorted_wrt (\<lambda>r r'. region_frames b r \<inter> region_frames b r' = {}) rs"
    and "\<forall>r \<in> set rs. base_phys b \<le> region_start r \<and> region_start r \<le> region_end r \<and>
       region_frames b r \<subseteq> B \<and> region_frames b r \<inter> covered L = {} \<and>
       min ((region_end r - base_phys b) div 4096) (total_frames b) \<notin> B"
  shows "\<exists>b' L'. for_each carve_region rs b = Some b' \<and> same_frame b b' \<and> rep b' L' B \<and> tight L' B \<and>
     covered L' = covered L \<union> (\<Union>r \<in> set rs. region_frames b r)"
  using assms
proof (induction rs arbitrary: b L)
  case Nil
  then show ?case by auto
next
  case (Cons r rs)
  obtain b1 L1 where 1: "carve_region r b = Some b1" "same_frame b b1" "rep b1 L1 B" "tight L1 B"
      "covered L1 = covered L \<union> region_frames b r"
    using carve_region_inv [OF Cons.prems(1,2), of r] Cons.prems(4) by auto
  note rf = region_frames_same [OF 1(2)]
  have sf: "base_phys b1 = base_phys b" "total_frames b1 = total_frames b"
    using 1(2) by (simp_all add: same_frame_def)
  have "\<forall>r \<in> set rs. region_frames b r \<inter> covered L1 = {}"
    using Cons.prems(3,4) unfolding 1(5) by auto
  then obtain b' L' where "for_each carve_region rs b1 = Some b'" "same_frame b1 b'" "rep b' L' B"
      "tight L' B" "covered L' = covered L1 \<union> (\<Union>r \<in> set rs. region_frames b r)"
    using Cons.IH [OF 1(3,4)] Cons.prems(3,4) unfolding rf sf by auto
  with 1 same_frame_trans [OF 1(2)] show ?case
    by (intro exI [of _ b'] exI [of _ L']) (simp add: Un_assoc)
qed

subsection \<open>The whole constructor\<close>

abbreviation new_base :: "memory_region list \<Rightarrow> nat" where
  "new_base us \<equiv> foldl min 18446744073709551615 (map region_start us)"

abbreviation new_end :: "memory_region list \<Rightarrow> nat" where
  "new_end us \<equiv> foldl max 0 (map region_end us)"

lemma new_base_spec:
  assumes "us \<noteq> []" "list_all (region_ok off) us"
  shows "\<And>r. r \<in> set us \<Longrightarrow> new_base us \<le> region_start r" "new_base us mod 4096 = 0"
    "new_base us \<le> new_end us" "new_end us \<le> 2 ^ 52" "new_end us + off \<le> 2 ^ 64"
proof -
  have ok: "region_ok off r" if "r \<in> set us" for r
    using assms(2) that by (simp add: list_all_iff)
  show le: "new_base us \<le> region_start r" if "r \<in> set us" for r
    using foldl_min_spec [of 18446744073709551615 "map region_start us"] that by auto
  obtain r0 where r0: "r0 \<in> set us"
    using assms(1) by (cases us) auto
  have "new_base us \<le> region_start r0" "region_start r0 \<le> 2 ^ 52"
    using le [OF r0] ok [OF r0] by (auto simp: region_ok_def)
  then have "new_base us < 18446744073709551615"
    by simp
  then obtain r1 where "r1 \<in> set us" "new_base us = region_start r1"
    using foldl_min_spec [of 18446744073709551615 "map region_start us"] by auto
  then show "new_base us mod 4096 = 0"
    using ok by (auto simp: region_ok_def)
  have ends: "region_end r0 \<le> new_end us" "new_end us \<in> insert 0 (region_end ` set us)"
    using foldl_max_spec [of 0 "map region_end us"] r0 by auto
  then show "new_base us \<le> new_end us"
    using le [OF r0] ok [OF r0] by (auto simp: region_ok_def)
  have "new_end us = 0 \<longrightarrow> region_end r0 = 0"
    using ends(1) by simp
  then obtain r2 where "r2 \<in> set us" "new_end us = region_end r2"
    using ends(2) r0 by auto
  then show "new_end us \<le> 2 ^ 52" "new_end us + off \<le> 2 ^ 64"
    using ok by (auto simp: region_ok_def)
qed

lemma separated_frames:
  assumes "region_ok off r" "region_ok off r'" "separated r r'" "base_phys b mod 4096 = 0"
    and "base_phys b \<le> region_start r" "base_phys b \<le> region_start r'"
  shows "region_frames b r \<inter> region_frames b r' = {}"
    "(region_end r - base_phys b) div 4096 \<notin> region_frames b r'"
proof -
  note iff = region_frames_iff [OF assms(1,4,5)] region_frames_iff [OF assms(2,4,6)]
  show "region_frames b r \<inter> region_frames b r' = {}"
    using assms(3) by (auto simp: iff separated_def)
  have "(region_end r - base_phys b) div 4096 * 4096 = region_end r - base_phys b"
    using assms(1,4,5) by (auto simp: region_ok_def mod_eq_0_iff_dvd dvd_diff_nat)
  then have "base_phys b + (region_end r - base_phys b) div 4096 * 4096 = region_end r"
    using assms(1,5) by (simp add: region_ok_def)
  then show "(region_end r - base_phys b) div 4096 \<notin> region_frames b r'"
    using assms(1,3) by (auto simp: iff(2) separated_def region_ok_def)
qed


lemma sorted_wrt_pairs:
  assumes "sorted_wrt P xs" "symp P" "x \<in> set xs" "y \<in> set xs" shows "x = y \<or> P x y"
  using assms by (induction xs) (auto dest: sympD)

lemma separated_symp: "symp separated"
  by (auto simp: symp_def separated_def)

text \<open>The state before carving satisfies the hypotheses of the carving lemma.\<close>

lemma marked_regions:
  assumes ok: "list_all (region_ok off) us" and sep: "sorted_wrt separated us"
    and base: "base_phys b mod 4096 = 0" "\<And>r. r \<in> set us \<Longrightarrow> base_phys b \<le> region_start r"
  defines "B \<equiv> \<Union>r \<in> set us. region_frames b r"
  shows "sorted_wrt (\<lambda>r r'. region_frames b r \<inter> region_frames b r' = {}) us"
    "r \<in> set us \<Longrightarrow> min ((region_end r - base_phys b) div 4096) (total_frames b) \<notin> B"
proof -
  have rok: "region_ok off r" if "r \<in> set us" for r
    using ok that by (simp add: list_all_iff)
  show "sorted_wrt (\<lambda>r r'. region_frames b r \<inter> region_frames b r' = {}) us"
    using sep rok base by (intro sorted_wrt_mono_rel [OF _ sep] separated_frames(1)) auto
  show "min ((region_end r - base_phys b) div 4096) (total_frames b) \<notin> B" if r: "r \<in> set us"
  proof
    let ?e = "(region_end r - base_phys b) div 4096"
    assume "min ?e (total_frames b) \<in> B"
    then obtain r' where r': "r' \<in> set us" "min ?e (total_frames b) \<in> region_frames b r'"
      by (auto simp: B_def)
    then have "min ?e (total_frames b) = ?e" "?e \<in> region_frames b r'"
      by (auto simp: region_frames_def min_def split: if_splits)
    moreover have "r = r' \<or> separated r r'"
      using sorted_wrt_pairs [OF sep separated_symp r r'(1)] .
    ultimately show False
      using separated_frames(2) [OF rok [OF r] rok [OF r'(1)] _ base(1) base(2) [OF r] base(2) [OF r'(1)]]
      by (auto simp: region_frames_def)
  qed
qed

lemma buddy_new_inv:
  assumes ok: "regions_ok rs off"
  shows "\<exists>b L. buddy_new rs off memory m = Some b \<and> inv_lists b L \<and> free_set b = usable_frames rs b \<and>
     allocated_count b = 0 \<and> mon b = set_frame_metrics (total_frames b) m \<and>
     base_phys b = new_base (usable_regions rs) \<and>
     total_frames b = min ((new_end (usable_regions rs) - new_base (usable_regions rs)) div 4096) MAX_TRACKED_FRAMES"
proof -
  define us where "us = usable_regions rs"
  have us: "us \<noteq> []" "list_all (region_ok off) us" "sorted_wrt separated us"
    using ok by (simp_all add: regions_ok_def us_def)
  note spec = new_base_spec [OF us(1,2)]
  have rok: "region_ok off r" if "r \<in> set us" for r
    using us(2) that by (simp add: list_all_iff)
  define tot where "tot = min ((new_end us - new_base us) div 4096) MAX_TRACKED_FRAMES"
  define b0 where "b0 = \<lparr>free_lists = (\<lambda>_. None), bitmap = (\<lambda>_. 0), total_frames = tot,
     base_phys = new_base us, phys_mem_offset = off, allocated_count = 0, pmem = memory,
     mon = set_frame_metrics tot m\<rparr>"
  define B where "B = (\<Union>r \<in> set us. region_frames b0 r)"
  have b0: "total_frames b0 = tot" "base_phys b0 = new_base us" "free_set b0 = {}"
    by (simp_all add: b0_def free_set_def frame_free_def)
  have "tot * 4096 \<le> new_end us - new_base us"
    by (simp add: tot_def min_def) (meson div_times_less_eq_dividend le_trans mult_le_mono1 nat_le_linear)
  then have "new_base us + tot * 4096 \<le> new_end us" "tot \<le> MAX_TRACKED_FRAMES"
    using spec(3) by (linarith, simp add: tot_def)
  then have geo: "geometry b0"
    using spec(2,4,5) unfolding geometry_def b0(1,2) by (simp add: b0_def)
  have sub: "\<forall>r \<in> set us. base_phys b0 \<le> region_start r \<and> region_start r \<le> region_end r"
    using spec(1) rok by (auto simp: b0 region_ok_def)
  obtain bm where bm: "for_each mark_region us b0 = Some (b0\<lparr>bitmap := bm\<rparr>)"
      "free_set (b0\<lparr>bitmap := bm\<rparr>) = B"
    using mark_regions_eq [OF _ sub] geo by (auto simp: geometry_def b0(3) B_def)
  let ?b1 = "b0\<lparr>bitmap := bm\<rparr>"
  have "base_phys ?b1 mod 4096 = 0" "\<And>r. r \<in> set us \<Longrightarrow> base_phys ?b1 \<le> region_start r"
    using spec(1,2) by (simp_all add: b0(2))
  note mk = marked_regions [OF us(2,3) this, unfolded region_frames_bitmap, folded B_def]
  have rep: "rep ?b1 (\<lambda>_. []) B" "covered (\<lambda>_. []) = {}" "tight (\<lambda>_. []) B"
    using geo bm(2)
    by (simp_all add: rep_def wf_lists_def wf_blocks_def block_in_def covered_def geometry_def
        tight_def head_of_def b0_def)
  obtain b L where b: "for_each carve_region us ?b1 = Some b" "same_frame ?b1 b" "rep b L B"
      "tight L B" "covered L = B"
    using carve_regions_inv [OF rep(1,3), of us] mk sub by (auto simp: rep(2) B_def)
  have "maximal L"
    using tight_maximal [OF b(4)] b(5) wf_blocks_less(3) [OF rep_blocks [OF b(3)]] by auto
  then have "inv_lists b L" "free_set b = B"
    using b(3,5) by (simp_all add: inv_lists_def rep_def)
  moreover have "buddy_new rs off memory m = Some b"
    using us(1) spec(3) bm(1) b(1)
    by (simp add: buddy_new_def us_def [symmetric] Let_def require_def usub_def b0_def tot_def)
  moreover have "B = usable_frames rs b"
    using b(2) region_frames_iff [OF rok] spec(1,2)
    by (auto simp: B_def usable_frames_def us_def [symmetric] same_frame_def b0)
  ultimately show ?thesis
    using b(2) unfolding us_def [symmetric] by (auto simp: same_frame_def b0_def tot_def)
qed

end
