(* ===== verification/Buddy_Props.thy ===== *)
theory Buddy_Props
  imports Buddy_Init "HOL-Library.Code_Target_Nat"
begin

text \<open>
  The contract of the frame allocator: what an allocation and a deallocation do to the set of free
  frames, when an allocation fails, and that over every sequence of operations of a kernel that
  frees only blocks it was given, and writes only into them, no frame is ever owned twice, lost or
  handed out while free, and no operation panics.
\<close>

unbundle bit_operations_syntax

subsection \<open>Ownership\<close>

text \<open>The invariant of the allocator: some free lists represent exactly the free frames.\<close>

definition buddy_inv :: "buddy \<Rightarrow> bool" where
  "buddy_inv b \<longleftrightarrow> (\<exists>L. inv_lists b L)"

text \<open>The frame index of a frame, and the frames of a block given by its first frame and order.\<close>

definition block_idx :: "'f frame_api \<Rightarrow> buddy \<Rightarrow> 'f \<Rightarrow> nat" where
  "block_idx api b f = (start_address api f - base_phys b) div 4096"

definition block_frames :: "'f frame_api \<Rightarrow> buddy \<Rightarrow> 'f \<times> nat \<Rightarrow> nat set" where
  "block_frames api b p = frames (snd p) (block_idx api b (fst p))"

definition valid_block :: "'f frame_api \<Rightarrow> buddy \<Rightarrow> 'f \<times> nat \<Rightarrow> bool" where
  "valid_block api b p \<longleftrightarrow>
     snd p \<le> MAX_ORDER \<and> start_address api (fst p) = base_phys b + block_idx api b (fst p) * 4096 \<and>
     2 ^ snd p dvd block_idx api b (fst p) \<and>
     block_idx api b (fst p) + 2 ^ snd p \<le> total_frames b"

text \<open>
  The set \<open>live\<close> holds the blocks handed out and not yet returned.  \<open>U\<close> is the
  set of frames the allocator manages.
\<close>

definition ownership :: "'f frame_api \<Rightarrow> nat set \<Rightarrow> buddy \<times> ('f \<times> nat) set \<Rightarrow> bool" where
  "ownership api U s \<longleftrightarrow>
     (let (b, live) = s
      in finite live \<and> (\<forall>p \<in> live. valid_block api b p) \<and>
         (\<forall>p \<in> live. \<forall>q \<in> live. p \<noteq> q \<longrightarrow> block_frames api b p \<inter> block_frames api b q = {}) \<and>
         free_set b \<inter> (\<Union>p \<in> live. block_frames api b p) = {} \<and>
         free_set b \<union> (\<Union>p \<in> live. block_frames api b p) = U \<and>
         allocated_count b = (\<Sum>p \<in> live. 2 ^ snd p))"

text \<open>
  One step of a kernel that uses the allocator: a successful or failing allocation, the return of a
  live block, or a write of the kernel somewhere inside a live block.
\<close>

inductive buddy_step ::
    "'f frame_api \<Rightarrow> buddy \<times> ('f \<times> nat) set \<Rightarrow> buddy \<times> ('f \<times> nat) set \<Rightarrow> bool" for api where
  step_alloc:
    "allocate_frame_order api order b = Some (Some f, b') \<Longrightarrow>
       buddy_step api (b, live) (b', insert (f, order) live)"
| step_alloc_none:
    "allocate_frame_order api order b = Some (None, b') \<Longrightarrow> buddy_step api (b, live) (b', live)"
| step_free:
    "(f, order) \<in> live \<Longrightarrow> deallocate_frame_order api f order b = Some b' \<Longrightarrow>
       buddy_step api (b, live) (b', live - {(f, order)})"
| step_write:
    "p \<in> live \<Longrightarrow> i \<in> block_frames api b p \<Longrightarrow> ptr b i \<le> a \<Longrightarrow> a < ptr b i + 4096 \<Longrightarrow>
       buddy_step api (b, live) (b\<lparr>pmem := (pmem b)(a := v)\<rparr>, live)"

text \<open>
  A concrete frame interface with the documented behaviour of \<^verbatim>\<open>PhysAddr::new\<close> and
  \<^verbatim>\<open>PhysFrame\<close> (an address of more than 52 bits panics), and two small memory maps: one
  region of eight frames, and two usable regions that touch.
\<close>

definition phys_frames :: "nat frame_api" where
  "phys_frames =
     \<lparr>containing_address = (\<lambda>p. if p < 2 ^ 52 then Some (p - p mod 4096) else None),
      start_address = id\<rparr>"

definition demo_map :: "memory_region list" where
  "demo_map = [\<lparr>region_start = 4096, region_end = 36864, region_kind = Usable\<rparr>]"

definition touching_map :: "memory_region list" where
  "touching_map =
     [\<lparr>region_start = 0, region_end = 4096, region_kind = Usable\<rparr>,
      \<lparr>region_start = 4096, region_end = 16384, region_kind = Usable\<rparr>]"

subsection \<open>The operations under the invariant\<close>

lemma block_idx_eq: "start_address api f = base_phys b + x * 4096 \<Longrightarrow> block_idx api b f = x"
  by (simp add: block_idx_def)

lemma free_set_in_range:
  assumes "inv_lists b L" shows "free_set b \<subseteq> {..<total_frames b}" "finite (free_set b)"
proof -
  note parts = inv_lists_parts [OF assms]
  show "free_set b \<subseteq> {..<total_frames b}"
    unfolding inv_lists_free_set [OF assms, symmetric] covered_def frames_def
    using wf_blocks_less(2) [OF parts(4)] by fastforce
  then show "finite (free_set b)"
    by (rule finite_subset) simp
qed

lemma allocate_free_set:
  assumes inv: "buddy_inv b" and order: "order \<le> MAX_ORDER" and api: "frame_api_ok api"
    and count: "allocated_count b \<le> total_frames b"
  shows "(\<exists>x f b'. allocate_frame_order api order b = Some (Some f, b') \<and> buddy_inv b' \<and>
       start_address api f = base_phys b + x * 4096 \<and> 2 ^ order dvd x \<and>
       frames order x \<subseteq> free_set b \<and> free_set b' = free_set b - frames order x \<and>
       same_frame (b\<lparr>allocated_count := allocated_count b + 2 ^ order,
                     mon := inc_allocated_frames (2 ^ order) (mon b)\<rparr>) b') \<or>
     (allocate_frame_order api order b = Some (None, b) \<and>
       (\<forall>x. 2 ^ order dvd x \<longrightarrow> \<not> frames order x \<subseteq> free_set b))"
proof -
  obtain L where L: "inv_lists b L"
    using inv by (auto simp: buddy_inv_def)
  note cov = inv_lists_free_set [OF L]
  show ?thesis
  proof (cases "find_order b order \<le> MAX_ORDER")
    case True
    have "total_frames b \<le> MAX_TRACKED_FRAMES"
      using inv_lists_parts(3) [OF L] by (simp add: geometry_def)
    then have "allocated_count b + 2 ^ order < usize_bound"
      using count pow2_orders [OF order] by (simp add: MAX_TRACKED_FRAMES_def)
    then obtain x f b' L' where
      "allocate_frame_order api order b = Some (Some f, b')" "inv_lists b' L'"
      "start_address api f = base_phys b + x * 4096" "2 ^ order dvd x"
      "frames order x \<subseteq> covered L" "covered L' = covered L - frames order x"
      "same_frame (b\<lparr>allocated_count := allocated_count b + 2 ^ order,
                    mon := inc_allocated_frames (2 ^ order) (mon b)\<rparr>) b'"
      using allocate_some [OF L order True api] by blast
    moreover from this(2) have "buddy_inv b'" "covered L' = free_set b'"
      by (auto simp: buddy_inv_def inv_lists_free_set)
    ultimately show ?thesis
      unfolding cov by (intro disjI1 exI [of _ x] exI [of _ f] exI [of _ b']) simp
  next
    case False
    then show ?thesis
      using allocate_none [OF L order] cov by auto
  qed
qed

lemma deallocate_free_set:
  assumes inv: "buddy_inv b" and blk: "valid_block api b (f, order)"
    and free: "block_frames api b (f, order) \<inter> free_set b = {}" and count: "2 ^ order \<le> allocated_count b"
  shows "\<exists>b'. deallocate_frame_order api f order b = Some b' \<and> buddy_inv b' \<and>
     free_set b' = free_set b \<union> block_frames api b (f, order) \<and>
     same_frame (b\<lparr>allocated_count := allocated_count b - 2 ^ order,
                   mon := dec_allocated_frames (2 ^ order) (mon b)\<rparr>) b'"
proof -
  obtain L where L: "inv_lists b L"
    using inv by (auto simp: buddy_inv_def)
  have ins: "insertable b L (block_idx api b f) order"
    using blk free L unfolding inv_lists_free_set [OF L, symmetric]
    by (simp add: insertable_def valid_block_def block_frames_def)
  have sa: "start_address api f = base_phys b + block_idx api b f * 4096"
    using blk by (simp add: valid_block_def)
  obtain b' L' where "deallocate_frame_order api f order b = Some b'" "inv_lists b' L'"
      "covered L' = covered L \<union> frames order (block_idx api b f)"
      "same_frame (b\<lparr>allocated_count := allocated_count b - 2 ^ order,
                    mon := dec_allocated_frames (2 ^ order) (mon b)\<rparr>) b'"
    using deallocate_inv [OF ins sa count] by blast
  moreover from this(2) have "buddy_inv b'" "covered L' = free_set b'"
    by (auto simp: buddy_inv_def inv_lists_free_set)
  ultimately show ?thesis
    unfolding inv_lists_free_set [OF L] by (intro exI [of _ b']) (simp add: block_frames_def)
qed

text \<open>Writing inside a frame that is not free touches no link of a free list.\<close>

lemma write_keeps_inv:
  assumes inv: "buddy_inv b" and i: "i \<notin> free_set b" and a: "ptr b i \<le> a" "a < ptr b i + 4096"
  shows "buddy_inv (b\<lparr>pmem := (pmem b)(a := v)\<rparr>)"
proof -
  let ?b = "b\<lparr>pmem := (pmem b)(a := v)\<rparr>"
  obtain L where L: "inv_lists b L"
    using inv by (auto simp: buddy_inv_def)
  note parts = inv_lists_parts [OF L]
  have ne: "ptr b y \<noteq> a \<and> ptr b y + 8 \<noteq> a" if "block_in L k y" for k y
  proof -
    have "y \<in> free_set b"
      using block_in_covered [OF that] frames_nonempty(1) [of y k] inv_lists_free_set [OF L] by blast
    with i have "y < i \<or> i < y"
      by (metis linorder_neqE_nat)
    then have "y * 4096 + 4096 \<le> i * 4096 \<or> i * 4096 + 4096 \<le> y * 4096"
      by auto
    then show ?thesis
      using a by (auto simp: ptr_def)
  qed
  have "chain ?b NULL_LINK (L k) NULL_LINK = chain b NULL_LINK (L k) NULL_LINK" if "k \<le> MAX_ORDER" for k
    using ne that by (intro chain_cong) (auto simp: ptr_def block_in_def)
  then have "inv_lists ?b L"
    using L by (auto simp: inv_lists_def rep_def wf_lists_def geometry_def free_set_def frame_free_def)
  then show ?thesis
    by (auto simp: buddy_inv_def)
qed


subsection \<open>Ownership is kept by every step\<close>

lemma card_blocks:
  assumes "ownership api U (b, live)"
  shows "card (\<Union>p \<in> live. block_frames api b p) = allocated_count b"
proof -
  have "card (\<Union>p \<in> live. block_frames api b p) = (\<Sum>p \<in> live. card (block_frames api b p))"
    using assms by (intro card_UN_disjoint) (auto simp: ownership_def block_frames_def)
  then show ?thesis
    using assms by (simp add: ownership_def block_frames_def)
qed

lemma ownership_count:
  assumes "ownership api U (b, live)"
  shows "allocated_count b \<le> total_frames b" "(f, order) \<in> live \<Longrightarrow> 2 ^ order \<le> allocated_count b"
proof -
  have "block_frames api b p \<subseteq> {..<total_frames b}" if "p \<in> live" for p
    using assms that by (simp add: ownership_def valid_block_def block_frames_def frames_within_iff)
  then have "(\<Union>p \<in> live. block_frames api b p) \<subseteq> {..<total_frames b}"
    by (rule UN_least)
  from card_mono [OF finite_lessThan this] show "allocated_count b \<le> total_frames b"
    by (simp add: card_blocks [OF assms])
  show "2 ^ order \<le> allocated_count b" if "(f, order) \<in> live"
    using assms member_le_sum [of "(f, order)" live "\<lambda>p. 2 ^ snd p :: nat"] that
    by (simp add: ownership_def)
qed

lemma block_same_frame:
  assumes "same_frame (b\<lparr>allocated_count := c, mon := m\<rparr>) b'"
  shows "block_idx api b' = block_idx api b" "block_frames api b' = block_frames api b"
    "valid_block api b' = valid_block api b" "allocated_count b' = c"
  using assms by (auto simp: block_idx_def block_frames_def valid_block_def same_frame_def fun_eq_iff)

lemma ownership_alloc:
  assumes inv: "buddy_inv b" and own: "ownership api U (b, live)" and api: "frame_api_ok api"
    and order: "order \<le> MAX_ORDER" and al: "allocate_frame_order api order b = Some (Some f, b')"
  shows "buddy_inv b' \<and> ownership api U (b', insert (f, order) live)"
proof -
  obtain x where x: "buddy_inv b'" "start_address api f = base_phys b + x * 4096" "2 ^ order dvd x"
      "frames order x \<subseteq> free_set b" "free_set b' = free_set b - frames order x"
      "same_frame (b\<lparr>allocated_count := allocated_count b + 2 ^ order,
                    mon := inc_allocated_frames (2 ^ order) (mon b)\<rparr>) b'"
    using allocate_free_set [OF inv order api ownership_count(1) [OF own]] al by auto
  note sf = block_same_frame [OF x(6)]
  have blk: "block_frames api b (f, order) = frames order x"
    by (simp add: block_frames_def block_idx_eq [OF x(2)])
  obtain L where L: "inv_lists b L"
    using inv by (auto simp: buddy_inv_def)
  have "x + 2 ^ order \<le> total_frames b"
    using x(4) free_set_in_range(1) [OF L] frames_within_iff by blast
  then have valid: "valid_block api b (f, order)"
    using x(2,3) order by (simp add: valid_block_def block_idx_eq [OF x(2)])
  have old: "block_frames api b p \<inter> frames order x = {}" if "p \<in> live" for p
    using own x(4) that by (auto simp: ownership_def)
  have "(f, order) \<notin> live"
    using old [of "(f, order)"] blk frames_nonempty(2) [of order x] by auto
  with own valid old x(4,5) show ?thesis
    by (auto simp: ownership_def sf blk x(1))
qed

lemma ownershipD:
  assumes "ownership api U (b, live)"
  shows "finite live" "\<And>p. p \<in> live \<Longrightarrow> valid_block api b p"
    "\<And>p q. p \<in> live \<Longrightarrow> q \<in> live \<Longrightarrow> p \<noteq> q \<Longrightarrow> block_frames api b p \<inter> block_frames api b q = {}"
    "free_set b \<inter> (\<Union>p \<in> live. block_frames api b p) = {}"
    "free_set b \<union> (\<Union>p \<in> live. block_frames api b p) = U"
    "allocated_count b = (\<Sum>p \<in> live. 2 ^ snd p)"
  using assms by (simp_all add: ownership_def)

lemma ownershipI:
  assumes "finite live" "\<And>p. p \<in> live \<Longrightarrow> valid_block api b p"
    "\<And>p q. p \<in> live \<Longrightarrow> q \<in> live \<Longrightarrow> p \<noteq> q \<Longrightarrow> block_frames api b p \<inter> block_frames api b q = {}"
    "free_set b \<inter> (\<Union>p \<in> live. block_frames api b p) = {}"
    "free_set b \<union> (\<Union>p \<in> live. block_frames api b p) = U"
    "allocated_count b = (\<Sum>p \<in> live. 2 ^ snd p)"
  shows "ownership api U (b, live)"
  using assms by (simp add: ownership_def)

lemma ownership_free:
  assumes inv: "buddy_inv b" and own: "ownership api U (b, live)" and f: "(f, order) \<in> live"
  shows "\<exists>b'. deallocate_frame_order api f order b = Some b' \<and> buddy_inv b' \<and>
     ownership api U (b', live - {(f, order)})"
proof -
  have blk: "valid_block api b (f, order)" "block_frames api b (f, order) \<inter> free_set b = {}"
    using ownershipD(2,4) [OF own] f by auto
  obtain b' where b': "deallocate_frame_order api f order b = Some b'" "buddy_inv b'"
      "free_set b' = free_set b \<union> block_frames api b (f, order)"
      "same_frame (b\<lparr>allocated_count := allocated_count b - 2 ^ order,
                    mon := dec_allocated_frames (2 ^ order) (mon b)\<rparr>) b'"
    using deallocate_free_set [OF inv blk ownership_count(2) [OF own f]] by blast
  note sf = block_same_frame [OF b'(4)]
  note own = ownershipD [OF own]
  let ?rest = "\<Union>p \<in> live - {(f, order)}. block_frames api b p"
  have sum: "(\<Sum>p \<in> live. 2 ^ snd p) = 2 ^ order + (\<Sum>p \<in> live - {(f, order)}. 2 ^ snd p :: nat)"
    using sum.remove [OF own(1) f, of "\<lambda>p. 2 ^ snd p :: nat"] by simp
  have un: "(\<Union>p \<in> live. block_frames api b p) = ?rest \<union> block_frames api b (f, order)"
    using f by blast
  have dj: "?rest \<inter> block_frames api b (f, order) = {}"
    using own(3) [OF _ f] by blast
  have "ownership api U (b', live - {(f, order)})"
  proof (rule ownershipI)
    show "free_set b' \<inter> (\<Union>p \<in> live - {(f, order)}. block_frames api b' p) = {}"
      "free_set b' \<union> (\<Union>p \<in> live - {(f, order)}. block_frames api b' p) = U"
      using own(4,5) dj unfolding sf b'(3) un by blast+
  qed (use own(1-3,6) sum in \<open>auto simp: sf\<close>)
  with b' show ?thesis
    by blast
qed

lemma buddy_step_ownership:
  assumes "buddy_step api s s'" "frame_api_ok api" "buddy_inv (fst s)" "ownership api U s"
  shows "buddy_inv (fst s') \<and> ownership api U s'"
  using assms
proof (cases rule: buddy_step.cases)
  case (step_alloc order b f b' live)
  then have "order \<le> MAX_ORDER"
    by (auto simp: allocate_frame_order_def split: if_splits)
  with step_alloc assms ownership_alloc show ?thesis
    by fastforce
next
  case (step_alloc_none order b b' live)
  have "b' = b"
  proof (cases "order \<le> MAX_ORDER")
    case True
    with step_alloc_none assms allocate_free_set [OF _ True assms(2) ownership_count(1)] show ?thesis
      by fastforce
  qed (use step_alloc_none in \<open>auto simp: allocate_frame_order_def\<close>)
  with step_alloc_none assms show ?thesis
    by simp
next
  case (step_free f order live b b')
  with assms ownership_free [of b api U live f order] show ?thesis
    by auto
next
  case (step_write p live i b a v)
  have "i \<notin> free_set b"
    using step_write assms(4) by (auto simp: ownership_def)
  then have "buddy_inv (fst s')"
    using write_keeps_inv [of b i a v] step_write assms(3) by auto
  moreover have "ownership api U s'"
    using step_write assms(4)
    by (simp add: ownership_def valid_block_def block_frames_def block_idx_def free_set_def frame_free_def)
  ultimately show ?thesis ..
qed

lemma buddy_steps_ownership:
  assumes "(buddy_step api)\<^sup>*\<^sup>* s s'" "frame_api_ok api" "buddy_inv (fst s)" "ownership api U s"
  shows "buddy_inv (fst s') \<and> ownership api U s'"
  using assms by (induction rule: rtranclp_induct) (auto dest: buddy_step_ownership)


lemma new_ownership:
  assumes "regions_ok rs off" "buddy_new rs off memory m = Some b"
  shows "buddy_inv b" "ownership api (usable_frames rs b) (b, {})"
  using buddy_new_inv [OF assms(1), of memory m] assms(2)
  by (auto simp: buddy_inv_def ownership_def)

lemma reachable_ownership:
  assumes "frame_api_ok api" "regions_ok rs off" "buddy_new rs off memory m = Some b0"
    and "(buddy_step api)\<^sup>*\<^sup>* (b0, {}) (b, live)"
  shows "buddy_inv b \<and> ownership api (usable_frames rs b0) (b, live)"
  using buddy_steps_ownership [OF assms(4,1)] new_ownership(1) [OF assms(2,3)]
    new_ownership(2) [OF assms(2,3), where api = api] by simp

subsection \<open>Concrete instances\<close>

lemma phys_frames_ok: "frame_api_ok phys_frames"
  by (simp add: frame_api_ok_def phys_frames_def)

lemma demo_map_ok: "regions_ok demo_map 0"
  by (simp add: regions_ok_def demo_map_def usable_regions_def region_ok_def)

definition demo_alloc :: "nat \<Rightarrow> (buddy \<times> nat \<times> buddy) option" where
  "demo_alloc order =
     do { b0 \<leftarrow> buddy_new demo_map 0 (\<lambda>_. 0) monitor_new;
          (r, b1) \<leftarrow> allocate_frame_order phys_frames order b0;
          f \<leftarrow> r;
          Some (b0, f, b1) }"

lemma demo_alloc_runs:
  "map_option (\<lambda>(b0, f, b1). (total_frames b0, base_phys b0, f, allocated_count b1)) (demo_alloc 1) =
     Some (8, 4096, 4096, 2)"
  by code_simp

lemma demo_alloc_run:
  obtains b0 b1 where "buddy_new demo_map 0 (\<lambda>_. 0) monitor_new = Some b0"
    "allocate_frame_order phys_frames 1 b0 = Some (Some 4096, b1)"
    "total_frames b0 = 8" "base_phys b0 = 4096" "allocated_count b1 = 2"
  using demo_alloc_runs by (auto simp: demo_alloc_def split: bind_splits)

lemma demo_step:
  assumes "allocate_frame_order phys_frames 1 b0 = Some (Some 4096, b1)"
  shows "(buddy_step phys_frames)\<^sup>*\<^sup>* (b0, {}) (b1, {(4096, 1)})"
  using step_alloc [OF assms, of "{}"] by (rule r_into_rtranclp)

subsection \<open>Properties\<close>






text \<open>
  Functional.  A successful allocation of a given order returns an aligned block of that many
  frames, all of which were free; afterwards exactly those frames are no longer free, the
  allocation count and the frame metric grow by their number, and the invariant still holds.
\<close>

lemma buddy_allocate_correct:
  assumes "buddy_inv b" "frame_api_ok api" "allocated_count b \<le> total_frames b"
    and "allocate_frame_order api order b = Some (Some f, b')"
  shows "valid_block api b (f, order) \<and> block_frames api b (f, order) \<subseteq> free_set b \<and>
     free_set b' = free_set b - block_frames api b (f, order) \<and> buddy_inv b' \<and>
     allocated_count b' = allocated_count b + 2 ^ order \<and>
     mon b' = inc_allocated_frames (2 ^ order) (mon b)"
proof -
  have order: "order \<le> MAX_ORDER"
    using assms(4) by (auto simp: allocate_frame_order_def split: if_splits)
  obtain x where x: "buddy_inv b'" "start_address api f = base_phys b + x * 4096" "2 ^ order dvd x"
      "frames order x \<subseteq> free_set b" "free_set b' = free_set b - frames order x"
      "same_frame (b\<lparr>allocated_count := allocated_count b + 2 ^ order,
                    mon := inc_allocated_frames (2 ^ order) (mon b)\<rparr>) b'"
    using allocate_free_set [OF assms(1) order assms(2,3)] assms(4) by auto
  obtain L where L: "inv_lists b L"
    using assms(1) by (auto simp: buddy_inv_def)
  have "x + 2 ^ order \<le> total_frames b"
    using x(4) free_set_in_range(1) [OF L] frames_within_iff by blast
  with x order show ?thesis
    by (simp add: valid_block_def block_frames_def block_idx_eq [OF x(2)] same_frame_def)
qed

lemma buddy_allocate_correct_witness:
  "\<exists>b0 b1. buddy_new demo_map 0 (\<lambda>_. 0) monitor_new = Some b0 \<and>
     allocate_frame_order phys_frames 1 b0 = Some (Some 4096, b1) \<and>
     free_set b1 = free_set b0 - {0, 1}"
proof -
  obtain b0 b1 where run: "buddy_new demo_map 0 (\<lambda>_. 0) monitor_new = Some b0"
      "allocate_frame_order phys_frames 1 b0 = Some (Some 4096, b1)" "base_phys b0 = 4096"
    by (rule demo_alloc_run)
  note own = new_ownership [OF demo_map_ok run(1)]
  have "block_frames phys_frames b0 (4096, 1) = {0, 1}"
    by (auto simp: block_frames_def block_idx_def frames_def phys_frames_def run(3))
  with buddy_allocate_correct [OF own(1) phys_frames_ok ownership_count(1) [OF own(2)] run(2)]
  show ?thesis
    using run by auto
qed



text \<open>
  C15 (functional). Freeing a block that is not free gives back exactly its frames, decreases the
  count and the metric by their number, keeps the invariant and does not panic.
\<close>

theorem buddy_deallocate_correct:
  assumes "buddy_inv b" "valid_block api b (f, order)" "2 ^ order \<le> allocated_count b"
    and "block_frames api b (f, order) \<inter> free_set b = {}"
  shows "\<exists>b'. deallocate_frame_order api f order b = Some b' \<and> buddy_inv b' \<and>
     free_set b' = free_set b \<union> block_frames api b (f, order) \<and>
     allocated_count b' = allocated_count b - 2 ^ order \<and>
     mon b' = dec_allocated_frames (2 ^ order) (mon b)"
  using deallocate_free_set [OF assms(1,2,4,3)] by (auto simp: same_frame_def)

theorem buddy_deallocate_correct_witness:
  "\<exists>b0 b1 b2. buddy_new demo_map 0 (\<lambda>_. 0) monitor_new = Some b0 \<and>
     allocate_frame_order phys_frames 1 b0 = Some (Some 4096, b1) \<and>
     deallocate_frame_order phys_frames 4096 1 b1 = Some b2 \<and>
     allocated_count b2 = 0"
proof -
  obtain b0 b1 where run: "buddy_new demo_map 0 (\<lambda>_. 0) monitor_new = Some b0"
      "allocate_frame_order phys_frames 1 b0 = Some (Some 4096, b1)" "allocated_count b1 = 2"
    by (rule demo_alloc_run)
  have own: "buddy_inv b1" "ownership phys_frames (usable_frames demo_map b0) (b1, {(4096, 1)})"
    using reachable_ownership [OF phys_frames_ok demo_map_ok run(1) demo_step [OF run(2)]] by blast+
  have "valid_block phys_frames b1 (4096, 1)" "2 ^ 1 \<le> allocated_count b1"
      "block_frames phys_frames b1 (4096, 1) \<inter> free_set b1 = {}"
    using own(2) by (auto simp: ownership_def)
  from buddy_deallocate_correct [OF own(1) this] show ?thesis
    using run by auto
qed

text \<open>
  Round trip.  Freeing a block right after it was allocated restores the set of free frames,
  the allocation count and the metrics.
\<close>

lemma buddy_allocate_deallocate:
  assumes "buddy_inv b" "frame_api_ok api" "allocated_count b \<le> total_frames b"
    and "allocate_frame_order api order b = Some (Some f, b')"
  shows "\<exists>b''. deallocate_frame_order api f order b' = Some b'' \<and> buddy_inv b'' \<and>
     free_set b'' = free_set b \<and> allocated_count b'' = allocated_count b \<and> mon b'' = mon b"
proof -
  have order: "order \<le> MAX_ORDER"
    using assms(4) by (auto simp: allocate_frame_order_def split: if_splits)
  obtain x where x: "buddy_inv b'" "start_address api f = base_phys b + x * 4096" "2 ^ order dvd x"
      "frames order x \<subseteq> free_set b" "free_set b' = free_set b - frames order x"
      "same_frame (b\<lparr>allocated_count := allocated_count b + 2 ^ order,
                    mon := inc_allocated_frames (2 ^ order) (mon b)\<rparr>) b'"
    using allocate_free_set [OF assms(1) order assms(2,3)] assms(4) by auto
  note sf = block_same_frame [OF x(6)]
  obtain L where L: "inv_lists b L"
    using assms(1) by (auto simp: buddy_inv_def)
  have "x + 2 ^ order \<le> total_frames b"
    using x(4) free_set_in_range(1) [OF L] frames_within_iff by blast
  then have blk: "valid_block api b' (f, order)" "block_frames api b' (f, order) = frames order x"
    using x(2,3) order by (simp_all add: sf valid_block_def block_frames_def block_idx_eq [OF x(2)])
  have "block_frames api b' (f, order) \<inter> free_set b' = {}" "2 ^ order \<le> allocated_count b'"
    using x(5) by (auto simp: blk(2) sf(4))
  from deallocate_free_set [OF x(1) blk(1) this] show ?thesis
    using x(4-6) unfolding blk(2)
    by (auto simp: same_frame_def dec_allocated_frames_def inc_allocated_frames_def)
qed

lemma buddy_allocate_deallocate_witness:
  "\<exists>b0 b1 b2. buddy_new demo_map 0 (\<lambda>_. 0) monitor_new = Some b0 \<and>
     allocate_frame_order phys_frames 1 b0 = Some (Some 4096, b1) \<and>
     deallocate_frame_order phys_frames 4096 1 b1 = Some b2 \<and> free_set b2 = free_set b0"
proof -
  obtain b0 b1 where run: "buddy_new demo_map 0 (\<lambda>_. 0) monitor_new = Some b0"
      "allocate_frame_order phys_frames 1 b0 = Some (Some 4096, b1)"
    by (rule demo_alloc_run)
  note own = new_ownership [OF demo_map_ok run(1)]
  from buddy_allocate_deallocate [OF own(1) phys_frames_ok ownership_count(1) [OF own(2)] run(2)]
  show ?thesis
    using run by auto
qed

text \<open>
  C16 (functional). \<^verbatim>\<open>BuddyAllocator::new\<close> on a memory map with page-aligned usable regions
  that neither overlap nor touch does not panic, establishes the invariant, and makes exactly the
  frames inside usable regions free.
\<close>

theorem buddy_new_correct:
  assumes "regions_ok rs off"
  shows "\<exists>b. buddy_new rs off memory m = Some b \<and> buddy_inv b \<and> free_set b = usable_frames rs b \<and>
     allocated_count b = 0 \<and> mon b = set_frame_metrics (total_frames b) m"
  using buddy_new_inv [OF assms, of memory m] by (auto simp: buddy_inv_def)

theorem buddy_new_correct_witness:
  "\<exists>b. buddy_new demo_map 0 (\<lambda>_. 0) monitor_new = Some b \<and> buddy_inv b"
  using buddy_new_correct [OF demo_map_ok, of "\<lambda>_. 0" monitor_new] by blast


end
