(* ===== verification/Ordered_Map.thy ===== *)
theory Ordered_Map
  imports Prelude "HOL-Library.List_Lexorder" "HOL-Library.Char_ord"
begin

text \<open>
  The ordered map of Rust's \<^verbatim>\<open>alloc\<close> library, \<^verbatim>\<open>BTreeMap\<close>, as its observable content:
  the association list of its entries in key order.  It is used by the file system (children of a
  directory, keyed by name) and by the executor (tasks, keyed by id).  The locale states what the
  clients rely on; it is interpreted on the operations below.
\<close>

subsection \<open>Operations\<close>

fun bt_get :: "('k \<times> 'v) list \<Rightarrow> 'k \<Rightarrow> 'v option" where
  "bt_get [] k = None"
| "bt_get ((k', v) # m) k = (if k = k' then Some v else bt_get m k)"

fun bt_insert :: "('k::linorder) \<Rightarrow> 'v \<Rightarrow> ('k \<times> 'v) list \<Rightarrow> ('k \<times> 'v) list" where
  "bt_insert k v [] = [(k, v)]"
| "bt_insert k v ((k', v') # m) =
     (if k < k' then (k, v) # (k', v') # m
      else if k = k' then (k, v) # m
      else (k', v') # bt_insert k v m)"

fun bt_remove :: "'k \<Rightarrow> ('k \<times> 'v) list \<Rightarrow> ('k \<times> 'v) list" where
  "bt_remove k [] = []"
| "bt_remove k ((k', v) # m) = (if k = k' then m else (k', v) # bt_remove k m)"

definition bt_keys :: "('k \<times> 'v) list \<Rightarrow> 'k list" where
  "bt_keys m = map fst m"

definition bt_ok :: "(('k::linorder) \<times> 'v) list \<Rightarrow> bool" where
  "bt_ok m \<longleftrightarrow> sorted_wrt (<) (map fst m)"

subsection \<open>The interface\<close>

locale ordered_map =
  fixes ok :: "'m \<Rightarrow> bool"
    and get :: "'m \<Rightarrow> 'k::linorder \<Rightarrow> 'v option"
    and put :: "'k \<Rightarrow> 'v \<Rightarrow> 'm \<Rightarrow> 'm"
    and del :: "'k \<Rightarrow> 'm \<Rightarrow> 'm"
    and keys :: "'m \<Rightarrow> 'k list"
    and empt :: 'm
  assumes ok_empty: "ok empt"
    and ok_put: "ok m \<Longrightarrow> ok (put k v m)"
    and ok_del: "ok m \<Longrightarrow> ok (del k m)"
    and get_empty: "get empt = (\<lambda>_. None)"
    and get_put: "get (put k v m) = (get m)(k \<mapsto> v)"
    and get_del: "ok m \<Longrightarrow> get (del k m) = (get m)(k := None)"
    and keys_sorted: "ok m \<Longrightarrow> sorted_wrt (<) (keys m)"
    and keys_set: "set (keys m) = dom (get m)"
begin

lemma keys_distinct: "ok m \<Longrightarrow> distinct (keys m)"
  using keys_sorted [of m] by (simp add: strict_sorted_iff)

lemma keys_eq: "ok m \<Longrightarrow> keys m = sorted_list_of_set (dom (get m))"
  using keys_sorted [of m] keys_set [of m]
  by (metis List.finite_set sorted_list_of_set.idem_if_sorted_distinct strict_sorted_iff)

lemma finite_dom: "finite (dom (get m))"
  unfolding keys_set [symmetric] by simp

lemma size_eq: "ok m \<Longrightarrow> length (keys m) = card (dom (get m))"
  using distinct_card [OF keys_distinct] by (simp add: keys_set)

lemma size_put:
  "ok m \<Longrightarrow> length (keys (put k v m)) = (if get m k = None then Suc (length (keys m)) else length (keys m))"
  using finite_dom [of m] by (auto simp: size_eq ok_put get_put insert_absorb domI card_insert_if)

lemma del_put: "ok m \<Longrightarrow> get m k = None \<Longrightarrow> get (del k (put k v m)) = get m"
  by (auto simp: get_del ok_put get_put fun_eq_iff)

end

subsection \<open>The entry list implements it\<close>

lemma bt_get_map_of: "bt_get m = map_of m"
  by (induction m) (auto simp: fun_eq_iff)

lemma bt_get_insert: "bt_get (bt_insert k v m) = (bt_get m)(k \<mapsto> v)"
  by (induction k v m rule: bt_insert.induct) (auto simp: fun_eq_iff)

lemma bt_insert_keys: "set (map fst (bt_insert k v m)) = insert k (set (map fst m))"
  by (induction k v m rule: bt_insert.induct) auto

lemma bt_remove_subset: "set (bt_remove k m) \<subseteq> set m"
  by (induction m) (auto split: if_splits)

lemma bt_ok_simps [simp]:
  "bt_ok []" "bt_ok ((k, v) # m) \<longleftrightarrow> (\<forall>x \<in> set (map fst m). k < x) \<and> bt_ok m"
  by (simp_all add: bt_ok_def)

lemma bt_ok_insert: "bt_ok m \<Longrightarrow> bt_ok (bt_insert k v m)"
proof (induction k v m rule: bt_insert.induct)
  case (2 k v k' v' m)
  then show ?case
    using bt_insert_keys [of k v m] by (auto simp: not_less)
qed simp

lemma bt_ok_remove: "bt_ok m \<Longrightarrow> bt_ok (bt_remove k m)"
proof (induction m)
  case (Cons a m)
  then show ?case
    using bt_remove_subset [of k m] by (cases a) auto
qed simp

lemma bt_get_remove: "bt_ok m \<Longrightarrow> bt_get (bt_remove k m) = (bt_get m)(k := None)"
proof (induction m)
  case (Cons a m)
  obtain k' v where a: "a = (k', v)" by (cases a)
  have "bt_get m k' = None"
    using Cons.prems by (auto simp: a bt_get_map_of map_of_eq_None_iff)
  with Cons show ?case
    by (auto simp: a fun_eq_iff)
qed (simp add: fun_eq_iff)

interpretation bt: ordered_map bt_ok bt_get bt_insert bt_remove bt_keys "[]"
proof unfold_locales
  show "bt_get [] = (\<lambda>_. None)" by (simp add: fun_eq_iff)
  show "bt_ok m \<Longrightarrow> sorted_wrt (<) (bt_keys m)" for m :: "('a::linorder \<times> 'b) list"
    by (simp add: bt_ok_def bt_keys_def)
  show "set (bt_keys m) = dom (bt_get m)" for m :: "('a::linorder \<times> 'b) list"
    by (simp add: bt_keys_def bt_get_map_of dom_map_of_conv_image_fst)
qed (simp_all add: bt_ok_insert bt_ok_remove bt_get_insert bt_get_remove)

lemma bt_keys_length [simp]: "length (bt_keys m) = length m"
  by (simp add: bt_keys_def)

end
