(* ===== verification/Path.thy ===== *)
theory Path
  imports Ordered_Map
begin

text \<open>
  The path functions of \<^verbatim>\<open>kernel/src/fs/mod.rs\<close> and the string functions of the Rust library
  they use.  A \<^verbatim>\<open>str\<close> is the list of its bytes; \<^verbatim>\<open>'/'\<close> is one byte in UTF-8, so
  cutting at it never splits a character.
\<close>

subsection \<open>Errors and string functions\<close>

datatype fs_error =
  NotFound | AlreadyExists | NotAFile | NotADirectory | InvalidPath | FileTooLarge
| TooManyChildren | PathTooDeep | TooManyInodes | DirectoryNotEmpty

definition trim_matches :: "char \<Rightarrow> string \<Rightarrow> string" where
  "trim_matches c s = rev (dropWhile ((=) c) (rev (dropWhile ((=) c) s)))"

fun str_split :: "char \<Rightarrow> string \<Rightarrow> string list" where
  "str_split c [] = [[]]"
| "str_split c (x # xs) =
     (if x = c then [] # str_split c xs
      else (case str_split c xs of [] \<Rightarrow> [[x]] | p # ps \<Rightarrow> (x # p) # ps))"

text \<open>The index of the last occurrence.\<close>

fun str_rfind :: "char \<Rightarrow> string \<Rightarrow> nat option" where
  "str_rfind c [] = None"
| "str_rfind c (x # xs) =
     (case str_rfind c xs of
        Some i \<Rightarrow> Some (Suc i)
      | None \<Rightarrow> (if x = c then Some 0 else None))"

abbreviation slash :: char where "slash \<equiv> CHR ''/''"

subsection \<open>\<^verbatim>\<open>split_path\<close> and \<^verbatim>\<open>resolve_path\<close>\<close>

definition split_path :: "string \<Rightarrow> string list" where
  "split_path path = filter (\<lambda>s. s \<noteq> []) (str_split slash (trim_matches slash path))"

definition resolve_path :: "string \<Rightarrow> fs_error + string \<times> string" where
  "resolve_path path0 =
     (if path0 = [] \<or> path0 = ''/'' then Inl InvalidPath
      else
        (let path = trim_matches slash path0
         in case str_rfind slash path of
              Some idx \<Rightarrow>
                (let parent = take idx path; name = drop (idx + 1) path
                 in if name = [] \<or> name = ''.'' \<or> name = ''..'' then Inl InvalidPath
                    else Inr (parent, name))
            | None \<Rightarrow>
                (if path = ''.'' \<or> path = ''..'' then Inl InvalidPath else Inr ([], path))))"

text \<open>Writing a list of components as an absolute path.\<close>

definition join_path :: "string list \<Rightarrow> string" where
  "join_path ps = concat (map (\<lambda>p. slash # p) ps)"

subsection \<open>Lemmas\<close>

lemma str_split_nonempty [simp]: "str_split c s \<noteq> []"
  by (induction s) (auto split: list.splits)

lemma str_split_append: "str_split c (s @ c # t) = str_split c s @ str_split c t"
  by (induction s) (auto split: list.splits)

lemma str_split_no_sep: "c \<notin> set s \<Longrightarrow> str_split c s = [s]"
  by (induction s) auto

lemma str_split_parts: "p \<in> set (str_split c s) \<Longrightarrow> c \<notin> set p"
  by (induction s arbitrary: p) (auto split: list.splits if_splits)

text \<open>The non-empty components do not change when separators are trimmed.\<close>

definition comps :: "string \<Rightarrow> string list" where
  "comps s = filter (\<lambda>p. p \<noteq> []) (str_split slash s)"

lemma comps_simps [simp]: "comps [] = []" "comps (slash # s) = comps s"
  by (simp_all add: comps_def)

lemma comps_append: "comps (s @ slash # t) = comps s @ comps t"
  by (simp add: comps_def str_split_append)

lemma comps_no_sep: "slash \<notin> set s \<Longrightarrow> comps s = (if s = [] then [] else [s])"
  by (simp add: comps_def str_split_no_sep)

lemma comps_dropWhile: "comps (dropWhile ((=) slash) s) = comps s"
  by (induction s) auto

lemma comps_strip_end: "comps (s @ replicate n slash) = comps s"
proof (induction n arbitrary: s)
  case (Suc n)
  have "comps (s @ replicate (Suc n) slash) = comps s @ comps (replicate n slash)"
    using comps_append [of s "replicate n slash"] by simp
  also have "comps (replicate n slash) = []"
    using Suc [of "[]"] by simp
  finally show ?case by simp
qed simp

lemma dropWhile_split: "\<exists>n. xs = replicate n c @ dropWhile ((=) c) xs"
  by (induction xs) (auto intro: exI [of _ 0], metis append_Cons replicate_Suc)

lemma split_path_comps: "split_path path = comps path"
proof -
  let ?s = "dropWhile ((=) slash) path"
  obtain n where n: "rev ?s = replicate n slash @ dropWhile ((=) slash) (rev ?s)"
    using dropWhile_split [of "rev ?s" slash] by blast
  have "?s = trim_matches slash path @ replicate n slash"
    using arg_cong [OF n, of rev] by (simp add: trim_matches_def)
  then have "comps ?s = comps (trim_matches slash path)"
    by (simp only: comps_strip_end)
  then show ?thesis
    unfolding split_path_def comps_def [symmetric] comps_dropWhile by (rule sym)
qed

lemma comps_trim: "comps (trim_matches slash path) = comps path"
  using split_path_comps [of path] unfolding split_path_def comps_def .

lemma split_path_parts: "p \<in> set (split_path path) \<Longrightarrow> p \<noteq> [] \<and> slash \<notin> set p"
  by (auto simp: split_path_def dest: str_split_parts)

lemma str_rfind_Some:
  "str_rfind c s = Some i \<Longrightarrow> i < length s \<and> s = take i s @ c # drop (Suc i) s \<and> c \<notin> set (drop (Suc i) s)"
proof (induction s arbitrary: i)
  case (Cons x xs)
  have none: "str_rfind c ys = None \<Longrightarrow> c \<notin> set ys" for ys
    by (induction ys) (auto split: option.splits if_splits)
  from Cons show ?case
    by (auto split: option.splits if_splits dest: none)
qed simp

lemma str_rfind_None: "str_rfind c s = None \<longleftrightarrow> c \<notin> set s"
  by (induction s) (auto split: option.splits)

text \<open>
  A resolved path is its parent's components followed by the name, and the name contains no
  separator.  Only a path made of two or more separators resolves to an empty name.
\<close>

lemma resolve_path_name:
  assumes "resolve_path path = Inr (parent, name)"
  shows "slash \<notin> set name" "name \<noteq> ''.''" "name \<noteq> ''..''"
    "split_path path = split_path parent @ (if name = [] then [] else [name])"
    "name = [] \<Longrightarrow> parent = []"
proof -
  let ?p = "trim_matches slash path"
  have "slash \<notin> set name \<and> name \<noteq> ''.'' \<and> name \<noteq> ''..'' \<and>
      split_path path = split_path parent @ (if name = [] then [] else [name]) \<and>
      (name = [] \<longrightarrow> parent = [])"
  proof (cases "str_rfind slash ?p")
    case None
    then have "slash \<notin> set ?p"
      by (simp add: str_rfind_None)
    with assms None show ?thesis
      using comps_no_sep [of ?p] comps_trim [of path]
      by (auto simp: resolve_path_def Let_def split_path_comps split: if_splits)
  next
    case (Some i)
    note r = str_rfind_Some [OF Some]
    have eq: "parent = take i ?p" "name = drop (Suc i) ?p" "name \<noteq> []" "name \<noteq> ''.''" "name \<noteq> ''..''"
      using assms Some by (auto simp: resolve_path_def Let_def split: if_splits)
    have p: "?p = parent @ slash # name" "slash \<notin> set name"
      using r unfolding eq(1,2) by blast+
    have "comps path = comps parent @ comps name"
      using comps_trim [of path] unfolding p(1) comps_append by (rule sym)
    with p(2) eq(3-5) show ?thesis
      by (simp add: split_path_comps comps_no_sep)
  qed
  then show "slash \<notin> set name" "name \<noteq> ''.''" "name \<noteq> ''..''"
    "split_path path = split_path parent @ (if name = [] then [] else [name])"
    "name = [] \<Longrightarrow> parent = []"
    by auto
qed

lemma split_join_path:
  assumes "\<forall>p \<in> set ps. p \<noteq> [] \<and> slash \<notin> set p"
  shows "split_path (join_path ps) = ps"
  using assms
proof (induction ps rule: rev_induct)
  case Nil
  then show ?case by (simp add: split_path_comps join_path_def)
next
  case (snoc p ps)
  then show ?case
    using comps_append [of "join_path ps" p] by (simp add: split_path_comps join_path_def comps_no_sep)
qed

end
