(* ===== verification/Filesystem.thy ===== *)
theory Filesystem
  imports Path
begin

text \<open>
  \<^verbatim>\<open>kernel/src/fs/inode.rs\<close> and \<^verbatim>\<open>kernel/src/fs/mod.rs\<close>: the in-memory file system.

  A directory's \<^verbatim>\<open>BTreeMap<String, Inode>\<close> is the entry list of theory \<open>Ordered_Map\<close>.
  A \<^verbatim>\<open>&mut Inode\<close> obtained from the root is represented by what the caller does with it: the
  functions that return one take the update as an argument and write the updated inode back
  along the path.  A result \<^verbatim>\<open>None\<close> of an operation is a panic (\<^verbatim>\<open>unreachable!\<close> or an
  overflow); \<^verbatim>\<open>Inl\<close> is the returned error.
\<close>

subsection \<open>Inodes\<close>

datatype inode = Inode (iname: string) (ikind: inode_kind)
and inode_kind = File "u8 list" | Directory "(string \<times> inode) list"

definition new_file :: "string \<Rightarrow> inode" where
  "new_file n = Inode n (File [])"

definition new_directory :: "string \<Rightarrow> inode" where
  "new_directory n = Inode n (Directory [])"

definition inode_read :: "inode \<Rightarrow> u8 list option" where
  "inode_read n = (case ikind n of File data \<Rightarrow> Some data | Directory _ \<Rightarrow> None)"

definition inode_write :: "u8 list \<Rightarrow> inode \<Rightarrow> fs_error + inode" where
  "inode_write data n =
     (case ikind n of
        File buf \<Rightarrow> Inr (Inode (iname n) (File data))
      | Directory _ \<Rightarrow> Inl NotAFile)"

definition inode_append :: "u8 list \<Rightarrow> inode \<Rightarrow> fs_error + inode" where
  "inode_append data n =
     (case ikind n of
        File buf \<Rightarrow> Inr (Inode (iname n) (File (buf @ data)))
      | Directory _ \<Rightarrow> Inl NotAFile)"

definition inode_size :: "inode \<Rightarrow> nat" where
  "inode_size n = (case ikind n of File data \<Rightarrow> length data | Directory children \<Rightarrow> length children)"

definition find_child :: "inode \<Rightarrow> string \<Rightarrow> inode option" where
  "find_child n name = (case ikind n of Directory children \<Rightarrow> bt_get children name | File _ \<Rightarrow> None)"

text \<open>Writing through the reference returned by \<^verbatim>\<open>find_child_mut\<close>.\<close>

definition set_child :: "string \<Rightarrow> inode \<Rightarrow> inode \<Rightarrow> inode" where
  "set_child name c n =
     (case ikind n of
        Directory children \<Rightarrow> Inode (iname n) (Directory (bt_insert name c children))
      | File _ \<Rightarrow> n)"

definition list_children :: "inode \<Rightarrow> string list" where
  "list_children n = (case ikind n of Directory children \<Rightarrow> bt_keys children | File _ \<Rightarrow> [])"

definition remove_child :: "string \<Rightarrow> inode \<Rightarrow> fs_error + inode \<times> inode" where
  "remove_child name n =
     (case ikind n of
        Directory children \<Rightarrow>
          (case bt_get children name of
             None \<Rightarrow> Inl NotFound
           | Some c \<Rightarrow> Inr (c, Inode (iname n) (Directory (bt_remove name children))))
      | File _ \<Rightarrow> Inl NotADirectory)"

subsection \<open>Walking a path\<close>

definition MAX_FILE_SIZE :: nat where "MAX_FILE_SIZE = 65536"
definition MAX_DIR_CHILDREN :: nat where "MAX_DIR_CHILDREN = 128"
definition MAX_PATH_DEPTH :: nat where "MAX_PATH_DEPTH = 16"
definition MAX_TOTAL_INODES :: nat where "MAX_TOTAL_INODES = 512"

definition dir_child_count :: "inode \<Rightarrow> nat" where
  "dir_child_count dir = (case ikind dir of Directory children \<Rightarrow> length children | File _ \<Rightarrow> 0)"

fun find_from :: "inode \<Rightarrow> string list \<Rightarrow> fs_error + inode" where
  "find_from current [] = Inr current"
| "find_from current (part # parts) =
     (case find_child current part of None \<Rightarrow> Inl NotFound | Some c \<Rightarrow> find_from c parts)"

definition find_inode :: "inode \<Rightarrow> string \<Rightarrow> fs_error + inode" where
  "find_inode root path =
     (let parts = split_path path
      in if length parts > MAX_PATH_DEPTH then Inl PathTooDeep else find_from root parts)"

fun update_from ::
    "inode \<Rightarrow> string list \<Rightarrow> (inode \<Rightarrow> (fs_error + inode) option) \<Rightarrow> (fs_error + inode) option" where
  "update_from current [] f = f current"
| "update_from current (part # parts) f =
     (case find_child current part of
        None \<Rightarrow> Some (Inl NotFound)
      | Some c \<Rightarrow>
          do { r \<leftarrow> update_from c parts f;
               Some (case r of Inl e \<Rightarrow> Inl e | Inr c' \<Rightarrow> Inr (set_child part c' current)) })"

definition find_inode_mut ::
    "inode \<Rightarrow> string \<Rightarrow> (inode \<Rightarrow> (fs_error + inode) option) \<Rightarrow> (fs_error + inode) option" where
  "find_inode_mut root path f =
     (let parts = split_path path
      in if length parts > MAX_PATH_DEPTH then Some (Inl PathTooDeep) else update_from root parts f)"

definition find_dir_mut ::
    "inode \<Rightarrow> string \<Rightarrow> (inode \<Rightarrow> (fs_error + inode) option) \<Rightarrow> (fs_error + inode) option" where
  "find_dir_mut root path f =
     find_inode_mut root path
       (\<lambda>dir. case ikind dir of Directory _ \<Rightarrow> f dir | File _ \<Rightarrow> Some (Inl NotADirectory))"

subsection \<open>The file system\<close>

record file_system =
  root :: inode
  inode_count :: nat

definition fs_new :: file_system where
  "fs_new = \<lparr>root = new_directory ''/'', inode_count = 1\<rparr>"

text \<open>The common body of \<^verbatim>\<open>create_file\<close> and \<^verbatim>\<open>create_dir\<close>, on the new child inode.\<close>

definition add_child :: "string \<Rightarrow> inode \<Rightarrow> inode \<Rightarrow> (fs_error + inode) option" where
  "add_child name c dir =
     (if find_child dir name \<noteq> None then Some (Inl AlreadyExists)
      else if dir_child_count dir \<ge> MAX_DIR_CHILDREN then Some (Inl TooManyChildren)
      else
        (case ikind dir of
           Directory children \<Rightarrow> Some (Inr (Inode (iname dir) (Directory (bt_insert name c children))))
         | File _ \<Rightarrow> None))"

definition create_node ::
    "(string \<Rightarrow> inode) \<Rightarrow> string \<Rightarrow> file_system \<Rightarrow> ((fs_error + unit) \<times> file_system) option" where
  "create_node new_inode path fs =
     (if inode_count fs \<ge> MAX_TOTAL_INODES then Some (Inl TooManyInodes, fs)
      else
        (case resolve_path path of
           Inl e \<Rightarrow> Some (Inl e, fs)
         | Inr (parent, name) \<Rightarrow>
             do { r \<leftarrow> find_dir_mut (root fs) parent (add_child name (new_inode name));
                  case r of
                    Inl e \<Rightarrow> Some (Inl e, fs)
                  | Inr root' \<Rightarrow>
                      do { n \<leftarrow> uadd (inode_count fs) 1;
                           Some (Inr (), fs\<lparr>root := root', inode_count := n\<rparr>) } }))"

definition create_file :: "string \<Rightarrow> file_system \<Rightarrow> ((fs_error + unit) \<times> file_system) option" where
  "create_file path fs = create_node new_file path fs"

definition create_dir :: "string \<Rightarrow> file_system \<Rightarrow> ((fs_error + unit) \<times> file_system) option" where
  "create_dir path fs = create_node new_directory path fs"

definition read_file :: "file_system \<Rightarrow> string \<Rightarrow> fs_error + u8 list" where
  "read_file fs path =
     (case find_inode (root fs) path of
        Inl e \<Rightarrow> Inl e
      | Inr inode \<Rightarrow> (case inode_read inode of Some data \<Rightarrow> Inr data | None \<Rightarrow> Inl NotAFile))"

definition write_back ::
    "(fs_error + inode) option \<Rightarrow> file_system \<Rightarrow> ((fs_error + unit) \<times> file_system) option" where
  "write_back r fs =
     do { x \<leftarrow> r;
          case x of
            Inl e \<Rightarrow> Some (Inl e, fs)
          | Inr root' \<Rightarrow> Some (Inr (), fs\<lparr>root := root'\<rparr>) }"

definition write_file ::
    "string \<Rightarrow> u8 list \<Rightarrow> file_system \<Rightarrow> ((fs_error + unit) \<times> file_system) option" where
  "write_file path data fs =
     (if length data > MAX_FILE_SIZE then Some (Inl FileTooLarge, fs)
      else write_back (find_inode_mut (root fs) path (\<lambda>inode. Some (inode_write data inode))) fs)"

definition append_file ::
    "string \<Rightarrow> u8 list \<Rightarrow> file_system \<Rightarrow> ((fs_error + unit) \<times> file_system) option" where
  "append_file path data fs =
     write_back
       (find_inode_mut (root fs) path
          (\<lambda>inode. case ikind inode of
             Directory _ \<Rightarrow> Some (Inl NotAFile)
           | File buf \<Rightarrow>
               (let current_len = length buf
                in if min (current_len + length data) 18446744073709551615 > MAX_FILE_SIZE
                   then Some (Inl FileTooLarge)
                   else Some (inode_append data inode))))
       fs"

definition list_dir :: "file_system \<Rightarrow> string \<Rightarrow> fs_error + string list" where
  "list_dir fs path =
     (case find_inode (root fs) path of
        Inl e \<Rightarrow> Inl e
      | Inr inode \<Rightarrow>
          (case ikind inode of
             Directory children \<Rightarrow> Inr (bt_keys children)
           | File _ \<Rightarrow> Inl NotADirectory))"

definition fs_exists :: "file_system \<Rightarrow> string \<Rightarrow> bool" where
  "fs_exists fs path = (case find_inode (root fs) path of Inl _ \<Rightarrow> False | Inr _ \<Rightarrow> True)"

definition fs_remove :: "string \<Rightarrow> file_system \<Rightarrow> ((fs_error + unit) \<times> file_system) option" where
  "fs_remove path fs =
     (case resolve_path path of
        Inl e \<Rightarrow> Some (Inl e, fs)
      | Inr (parent, name) \<Rightarrow>
          do { r \<leftarrow> find_dir_mut (root fs) parent
                 (\<lambda>dir. Some (case remove_child name dir of
                                Inl e \<Rightarrow> Inl e
                              | Inr (removed, dir') \<Rightarrow> Inr dir'));
               case r of
                 Inl e \<Rightarrow> Some (Inl e, fs)
               | Inr root' \<Rightarrow> Some (Inr (), fs\<lparr>root := root', inode_count := inode_count fs - 1\<rparr>) })"

end
