(* ===== verification/Filesystem_Props.thy ===== *)
theory Filesystem_Props
  imports Filesystem "HOL-Library.Sublist" "HOL-Library.Code_Target_Nat"
begin

text \<open>
  The file system as a map from component lists to entries.  Every operation of theory
  \<open>Filesystem\<close> is shown to act on this view exactly as an abstract specification says, on
  success and on every error, and to keep the limits the module documents.
\<close>

subsection \<open>The abstract file system\<close>

datatype entry = FileE "u8 list" | DirE

type_synonym view = "string list \<Rightarrow> entry option"

definition entry_of :: "inode \<Rightarrow> entry" where
  "entry_of n = (case ikind n of File data \<Rightarrow> FileE data | Directory _ \<Rightarrow> DirE)"

fun tree_view :: "inode \<Rightarrow> view" where
  "tree_view n [] = Some (entry_of n)"
| "tree_view n (p # ps) = (case find_child n p of None \<Rightarrow> None | Some c \<Rightarrow> tree_view c ps)"

definition fs_view :: "file_system \<Rightarrow> view" where
  "fs_view fs = tree_view (root fs)"

definition children :: "view \<Rightarrow> string list \<Rightarrow> string set" where
  "children v ps = {x. v (ps @ [x]) \<noteq> None}"

text \<open>Looking up a path: too deep, missing, or present.\<close>

definition spec_find :: "string \<Rightarrow> view \<Rightarrow> fs_error + entry" where
  "spec_find path v =
     (if length (split_path path) > MAX_PATH_DEPTH then Inl PathTooDeep
      else case v (split_path path) of None \<Rightarrow> Inl NotFound | Some e \<Rightarrow> Inr e)"

definition spec_find_dir :: "string \<Rightarrow> view \<Rightarrow> fs_error + string list" where
  "spec_find_dir path v =
     (case spec_find path v of
        Inl err \<Rightarrow> Inl err
      | Inr (FileE _) \<Rightarrow> Inl NotADirectory
      | Inr DirE \<Rightarrow> Inr (split_path path))"

type_synonym spec_state = "view \<times> nat"

definition spec_create :: "entry \<Rightarrow> string \<Rightarrow> spec_state \<Rightarrow> (fs_error + unit) \<times> spec_state" where
  "spec_create e path s =
     (let (v, count) = s
      in if count \<ge> MAX_TOTAL_INODES then (Inl TooManyInodes, s)
         else
           (case resolve_path path of
              Inl err \<Rightarrow> (Inl err, s)
            | Inr (parent, name) \<Rightarrow>
                (case spec_find_dir parent v of
                   Inl err \<Rightarrow> (Inl err, s)
                 | Inr ps \<Rightarrow>
                     (if v (ps @ [name]) \<noteq> None then (Inl AlreadyExists, s)
                      else if card (children v ps) \<ge> MAX_DIR_CHILDREN then (Inl TooManyChildren, s)
                      else (Inr (), (v(ps @ [name] \<mapsto> e), count + 1))))))"

definition spec_remove :: "string \<Rightarrow> spec_state \<Rightarrow> (fs_error + unit) \<times> spec_state" where
  "spec_remove path s =
     (let (v, count) = s
      in (case resolve_path path of
            Inl err \<Rightarrow> (Inl err, s)
          | Inr (parent, name) \<Rightarrow>
              (case spec_find_dir parent v of
                 Inl err \<Rightarrow> (Inl err, s)
               | Inr ps \<Rightarrow>
                   (if v (ps @ [name]) = None then (Inl NotFound, s)
                    else (Inr (), ((\<lambda>q. if prefix (ps @ [name]) q then None else v q), count - 1))))))"

text \<open>Replacing the content of a file, for \<^verbatim>\<open>write_file\<close> and \<^verbatim>\<open>append_file\<close>.\<close>

definition spec_put ::
    "(u8 list \<Rightarrow> fs_error + u8 list) \<Rightarrow> string \<Rightarrow> spec_state \<Rightarrow> (fs_error + unit) \<times> spec_state" where
  "spec_put change path s =
     (let (v, count) = s
      in (case spec_find path v of
            Inl err \<Rightarrow> (Inl err, s)
          | Inr DirE \<Rightarrow> (Inl NotAFile, s)
          | Inr (FileE old) \<Rightarrow>
              (case change old of
                 Inl err \<Rightarrow> (Inl err, s)
               | Inr new \<Rightarrow> (Inr (), (v(split_path path \<mapsto> FileE new), count)))))"

definition spec_write :: "string \<Rightarrow> u8 list \<Rightarrow> spec_state \<Rightarrow> (fs_error + unit) \<times> spec_state" where
  "spec_write path data s =
     (if length data > MAX_FILE_SIZE then (Inl FileTooLarge, s)
      else spec_put (\<lambda>_. Inr data) path s)"

definition spec_append :: "string \<Rightarrow> u8 list \<Rightarrow> spec_state \<Rightarrow> (fs_error + unit) \<times> spec_state" where
  "spec_append path data s =
     spec_put (\<lambda>old. if length old + length data > MAX_FILE_SIZE then Inl FileTooLarge
                     else Inr (old @ data)) path s"

definition spec_read :: "string \<Rightarrow> view \<Rightarrow> fs_error + u8 list" where
  "spec_read path v =
     (case spec_find path v of
        Inl err \<Rightarrow> Inl err | Inr DirE \<Rightarrow> Inl NotAFile | Inr (FileE data) \<Rightarrow> Inr data)"

definition spec_list :: "string \<Rightarrow> view \<Rightarrow> fs_error + string list" where
  "spec_list path v =
     (case spec_find path v of
        Inl err \<Rightarrow> Inl err
      | Inr DirE \<Rightarrow> Inr (sorted_list_of_set (children v (split_path path)))
      | Inr (FileE _) \<Rightarrow> Inl NotADirectory)"

definition spec_exists :: "string \<Rightarrow> view \<Rightarrow> bool" where
  "spec_exists path v = (case spec_find path v of Inl _ \<Rightarrow> False | Inr _ \<Rightarrow> True)"

subsection \<open>Sequences of operations\<close>

datatype fs_op =
  CreateFile string | CreateDir string | WriteFile string "u8 list" | AppendFile string "u8 list"
| Remove string | ReadFile string | ListDir string | Exists string

datatype fs_out =
  Done "fs_error + unit" | Data "fs_error + u8 list" | Names "fs_error + string list" | Found bool

fun fs_step :: "fs_op \<Rightarrow> file_system \<Rightarrow> (fs_out \<times> file_system) option" where
  "fs_step (CreateFile p) fs = map_option (map_prod Done id) (create_file p fs)"
| "fs_step (CreateDir p) fs = map_option (map_prod Done id) (create_dir p fs)"
| "fs_step (WriteFile p d) fs = map_option (map_prod Done id) (write_file p d fs)"
| "fs_step (AppendFile p d) fs = map_option (map_prod Done id) (append_file p d fs)"
| "fs_step (Remove p) fs = map_option (map_prod Done id) (fs_remove p fs)"
| "fs_step (ReadFile p) fs = Some (Data (read_file fs p), fs)"
| "fs_step (ListDir p) fs = Some (Names (list_dir fs p), fs)"
| "fs_step (Exists p) fs = Some (Found (fs_exists fs p), fs)"

fun spec_step :: "fs_op \<Rightarrow> spec_state \<Rightarrow> fs_out \<times> spec_state" where
  "spec_step (CreateFile p) s = map_prod Done id (spec_create (FileE []) p s)"
| "spec_step (CreateDir p) s = map_prod Done id (spec_create DirE p s)"
| "spec_step (WriteFile p d) s = map_prod Done id (spec_write p d s)"
| "spec_step (AppendFile p d) s = map_prod Done id (spec_append p d s)"
| "spec_step (Remove p) s = map_prod Done id (spec_remove p s)"
| "spec_step (ReadFile p) s = (Data (spec_read p (fst s)), s)"
| "spec_step (ListDir p) s = (Names (spec_list p (fst s)), s)"
| "spec_step (Exists p) s = (Found (spec_exists p (fst s)), s)"

fun fs_run :: "fs_op list \<Rightarrow> file_system \<Rightarrow> (fs_out list \<times> file_system) option" where
  "fs_run [] fs = Some ([], fs)"
| "fs_run (op # ops) fs =
     do { (out, fs1) \<leftarrow> fs_step op fs; (outs, fs2) \<leftarrow> fs_run ops fs1; Some (out # outs, fs2) }"

fun spec_run :: "fs_op list \<Rightarrow> spec_state \<Rightarrow> fs_out list \<times> spec_state" where
  "spec_run [] s = ([], s)"
| "spec_run (op # ops) s =
     (let (out, s1) = spec_step op s; (outs, s2) = spec_run ops s1 in (out # outs, s2))"

text \<open>The empty file system: the root directory alone.\<close>

definition spec_new :: spec_state where
  "spec_new = ([[] \<mapsto> DirE], 1)"

subsection \<open>The invariant\<close>

fun tree_ok :: "inode \<Rightarrow> bool" where
  "tree_ok (Inode n (File data)) \<longleftrightarrow> length data \<le> MAX_FILE_SIZE"
| "tree_ok (Inode n (Directory cs)) \<longleftrightarrow>
     bt_ok cs \<and> length cs \<le> MAX_DIR_CHILDREN \<and>
     (\<forall>e \<in> set cs. iname (snd e) = fst e \<and> slash \<notin> set (fst e) \<and> tree_ok (snd e))"

fun node_count :: "inode \<Rightarrow> nat" where
  "node_count (Inode n (File data)) = 1"
| "node_count (Inode n (Directory cs)) = Suc (sum_list (map (\<lambda>e. node_count (snd e)) cs))"

definition fs_inv :: "file_system \<Rightarrow> bool" where
  "fs_inv fs \<longleftrightarrow>
     entry_of (root fs) = DirE \<and> tree_ok (root fs) \<and>
     node_count (root fs) \<le> inode_count fs \<and> inode_count fs \<le> MAX_TOTAL_INODES"


text \<open>The tree with the inode at a path replaced.\<close>

fun put_at :: "inode \<Rightarrow> string list \<Rightarrow> inode \<Rightarrow> inode" where
  "put_at n [] m = m"
| "put_at n (p # ps) m =
     (case find_child n p of None \<Rightarrow> n | Some c \<Rightarrow> set_child p (put_at c ps m) n)"

subsection \<open>Walking and updating\<close>

lemma entry_of_simps [simp]:
  "entry_of (Inode n (File d)) = FileE d" "entry_of (Inode n (Directory cs)) = DirE"
  by (simp_all add: entry_of_def)

lemma find_child_simps [simp]:
  "find_child (Inode n (Directory cs)) p = bt_get cs p" "find_child (Inode n (File d)) p = None"
  by (simp_all add: find_child_def)

lemma find_child_dir:
  assumes "find_child n p = Some c"
  obtains k cs where "n = Inode k (Directory cs)" "bt_get cs p = Some c"
  using assms by (cases n; cases "ikind n") (auto simp: find_child_def)

lemma set_child_dir [simp]:
  "set_child p c (Inode k (Directory cs)) = Inode k (Directory (bt_insert p c cs))"
  by (simp add: set_child_def)

lemma find_from_error: "find_from n ps = Inl e \<Longrightarrow> e = NotFound"
  by (induction n ps rule: find_from.induct) (auto split: option.splits)

lemma tree_view_find:
  "tree_view n ps = (case find_from n ps of Inl _ \<Rightarrow> None | Inr m \<Rightarrow> Some (entry_of m))"
  by (induction n ps rule: find_from.induct) (auto split: option.splits)

lemma tree_view_append:
  "find_from n ps = Inr m \<Longrightarrow> tree_view n (ps @ qs) = tree_view m qs"
  by (induction n ps rule: find_from.induct) (auto split: option.splits)

lemma update_from_eq:
  "update_from n ps f =
     (case find_from n ps of
        Inl e \<Rightarrow> Some (Inl e)
      | Inr m \<Rightarrow>
          do { r \<leftarrow> f m; Some (case r of Inl e \<Rightarrow> Inl e | Inr m' \<Rightarrow> Inr (put_at n ps m')) })"
proof (induction n ps rule: find_from.induct)
  case (1 n)
  then show ?case
    by (cases "f n") (auto split: sum.splits)
next
  case (2 n p ps)
  then show ?case
    by (auto split: option.splits sum.splits bind_splits)
qed

lemma view_put_at:
  assumes "find_from n ps = Inr m"
  shows "tree_view (put_at n ps m') q =
     (if prefix ps q then tree_view m' (drop (length ps) q) else tree_view n q)"
  using assms
proof (induction n ps arbitrary: q rule: find_from.induct)
  case (2 n p ps)
  then obtain c where c: "find_child n p = Some c" "find_from c ps = Inr m"
    by (auto split: option.splits)
  then obtain k cs where n: "n = Inode k (Directory cs)" "bt_get cs p = Some c"
    by (elim find_child_dir)
  show ?case
  proof (cases q)
    case (Cons x xs)
    then show ?thesis
      using "2.IH" [OF c] by (auto simp: n bt_get_insert)
  qed (simp add: n)
qed simp

lemma bt_get_set: "bt_get cs p = Some c \<Longrightarrow> (p, c) \<in> set cs"
  by (simp add: bt_get_map_of map_of_SomeD)

lemma bt_insert_set: "set (bt_insert k v m) \<subseteq> insert (k, v) (set m)"
  by (induction k v m rule: bt_insert.induct) auto

lemma bt_insert_length:
  "bt_ok m \<Longrightarrow> length (bt_insert k v m) = (if bt_get m k = None then Suc (length m) else length m)"
  using bt.size_put [of m k v] by simp

lemma tree_ok_insert:
  assumes "tree_ok (Inode n (Directory cs))" "tree_ok c" "iname c = p" "slash \<notin> set p"
    and "bt_get cs p \<noteq> None \<or> length cs < MAX_DIR_CHILDREN"
  shows "tree_ok (Inode n (Directory (bt_insert p c cs)))"
proof -
  have "iname (snd e) = fst e \<and> slash \<notin> set (fst e) \<and> tree_ok (snd e)" if "e \<in> set (bt_insert p c cs)" for e
    using bt_insert_set [of p c cs] that assms(1-4) by auto
  then show ?thesis
    using assms(1,5) by (auto simp: bt_ok_insert bt_insert_length)
qed

lemma child_ok:
  assumes "tree_ok (Inode k (Directory cs))" "bt_get cs p = Some c"
  shows "bt_ok cs" "tree_ok c" "iname c = p" "slash \<notin> set p"
  using assms(1) bt_get_set [OF assms(2)] by auto

lemma find_from_ok: "find_from n ps = Inr m \<Longrightarrow> tree_ok n \<Longrightarrow> tree_ok m"
proof (induction n ps rule: find_from.induct)
  case (2 n p ps)
  then obtain c where c: "find_child n p = Some c" "find_from c ps = Inr m"
    by (auto split: option.splits)
  then obtain k cs where n: "n = Inode k (Directory cs)" "bt_get cs p = Some c"
    by (elim find_child_dir)
  from "2.IH" [OF c] child_ok(2) [OF "2.prems"(2) [unfolded n(1)] n(2)] show ?case
    by simp
qed simp

lemma put_at_ok:
  assumes "find_from n ps = Inr m" "tree_ok n" "tree_ok m'" "iname m' = iname m"
  shows "tree_ok (put_at n ps m')" "iname (put_at n ps m') = iname n"
proof -
  have "tree_ok (put_at n ps m') \<and> iname (put_at n ps m') = iname n"
    using assms
  proof (induction n ps rule: find_from.induct)
    case (2 n p ps)
    then obtain c where c: "find_child n p = Some c" "find_from c ps = Inr m"
      by (auto split: option.splits)
    then obtain k cs where n: "n = Inode k (Directory cs)" "bt_get cs p = Some c"
      by (elim find_child_dir)
    note ok = child_ok [OF "2.prems"(2) [unfolded n(1)] n(2)]
    have "tree_ok (put_at c ps m')" "iname (put_at c ps m') = p"
      using "2.IH" [OF c ok(2) "2.prems"(3,4)] ok(3) by simp_all
    then have "tree_ok (Inode k (Directory (bt_insert p (put_at c ps m') cs)))"
      using "2.prems"(2) n ok(4) by (intro tree_ok_insert) simp_all
    then show ?case
      by (simp add: n)
  qed simp
  then show "tree_ok (put_at n ps m')" "iname (put_at n ps m') = iname n"
    by simp_all
qed

lemma count_insert:
  "sum_list (map (\<lambda>e. f (snd e)) (bt_insert k c cs)) + (case bt_get cs k of None \<Rightarrow> 0 | Some c' \<Rightarrow> f c') =
     sum_list (map (\<lambda>e. f (snd e)) cs) + (f c :: nat)" if "bt_ok cs"
  using that
proof (induction k c cs rule: bt_insert.induct)
  case (2 k v k' v' m)
  have "bt_get m k = None" if "k < k'"
    using that 2(2) by (force simp: bt_get_map_of map_of_eq_None_iff)
  with 2 show ?case
    by (auto split: option.splits)
qed simp

lemma count_remove:
  "bt_get cs k = Some c \<Longrightarrow>
     sum_list (map (\<lambda>e. f (snd e)) (bt_remove k cs)) + f c = sum_list (map (\<lambda>e. f (snd e)) cs)"
  for f :: "inode \<Rightarrow> nat"
  by (induction cs) (auto split: if_splits)

lemma count_put_at:
  assumes "find_from n ps = Inr m" "tree_ok n"
  shows "node_count (put_at n ps m') + node_count m = node_count n + node_count m'"
  using assms
proof (induction n ps rule: find_from.induct)
  case (2 n p ps)
  then obtain c where c: "find_child n p = Some c" "find_from c ps = Inr m"
    by (auto split: option.splits)
  then obtain k cs where n: "n = Inode k (Directory cs)" "bt_get cs p = Some c"
    by (elim find_child_dir)
  note ok = child_ok [OF "2.prems"(2) [unfolded n(1)] n(2)]
  show ?case
    using "2.IH" [OF c ok(2)] count_insert [OF ok(1), of node_count p "put_at c ps m'"] n by simp
qed simp

lemma node_count_pos: "0 < node_count n"
  by (cases n rule: node_count.cases) auto


lemma entry_put_at:
  "find_from n ps = Inr m \<Longrightarrow> entry_of (put_at n ps m') = (if ps = [] then entry_of m' else entry_of n)"
  using view_put_at [of n ps m m' "[]"] by (auto split: if_splits)

lemma entry_DirE_iff: "entry_of n = DirE \<longleftrightarrow> (\<exists>k cs. n = Inode k (Directory cs))"
  by (cases n; cases "ikind n") auto

lemma entry_FileE_iff: "entry_of n = FileE d \<longleftrightarrow> (\<exists>k. n = Inode k (File d))"
  by (cases n; cases "ikind n") auto

text \<open>A path lookup either fails, with the same error for every use, or reaches an inode.\<close>

lemma locate_path:
  obtains (err) e where "spec_find path (tree_view n) = Inl e" "find_inode n path = Inl e"
      "\<And>f. find_inode_mut n path f = Some (Inl e)"
  | (node) m where "find_from n (split_path path) = Inr m" "spec_find path (tree_view n) = Inr (entry_of m)"
      "find_inode n path = Inr m"
      "\<And>f. find_inode_mut n path f =
         do { r \<leftarrow> f m;
              Some (case r of Inl e \<Rightarrow> Inl e | Inr m' \<Rightarrow> Inr (put_at n (split_path path) m')) }"
proof (cases "length (split_path path) > MAX_PATH_DEPTH")
  case True
  then show ?thesis
    by (intro err [of PathTooDeep]) (simp_all add: spec_find_def find_inode_def find_inode_mut_def)
next
  case False
  show ?thesis
  proof (cases "find_from n (split_path path)")
    case (Inl e)
    with False find_from_error [OF Inl] show ?thesis
      by (intro err [of NotFound])
        (simp_all add: spec_find_def find_inode_def find_inode_mut_def tree_view_find update_from_eq)
  next
    case (Inr m)
    with False show ?thesis
      by (intro node [of m])
        (simp_all add: spec_find_def find_inode_def find_inode_mut_def tree_view_find update_from_eq)
  qed
qed

lemma locate_dir:
  obtains (err) e where "spec_find_dir path (tree_view n) = Inl e"
      "\<And>f. find_dir_mut n path f = Some (Inl e)"
  | (dir) k cs where "find_from n (split_path path) = Inr (Inode k (Directory cs))"
      "spec_find_dir path (tree_view n) = Inr (split_path path)"
      "\<And>f. find_dir_mut n path f =
         do { r \<leftarrow> f (Inode k (Directory cs));
              Some (case r of Inl e \<Rightarrow> Inl e | Inr m' \<Rightarrow> Inr (put_at n (split_path path) m')) }"
proof (cases rule: locate_path [of path n])
  case (err e)
  then show ?thesis
    by (intro that(1) [of e]) (simp_all add: spec_find_dir_def find_dir_mut_def)
next
  case (node m)
  show ?thesis
  proof (cases m)
    case (Inode k kd)
    with node show ?thesis
      by (cases kd)
        (simp_all add: that(1) [of NotADirectory] that(2) [of k] spec_find_dir_def find_dir_mut_def)
  qed
qed

lemma children_dir:
  assumes "find_from n ps = Inr (Inode k (Directory cs))"
  shows "children (tree_view n) ps = dom (bt_get cs)"
  by (auto simp: children_def tree_view_append [OF assms] split: option.splits)

lemma children_card:
  assumes "find_from n ps = Inr (Inode k (Directory cs))" "tree_ok n"
  shows "card (children (tree_view n) ps) = length cs"
proof -
  have "bt_ok cs"
    using find_from_ok [OF assms] by simp
  then show ?thesis
    using bt.size_eq [of cs] by (simp add: children_dir [OF assms(1)])
qed

subsection \<open>Every operation refines the specification\<close>

lemma view_insert:
  assumes "find_from n ps = Inr (Inode k (Directory cs))" "bt_get cs name = None"
    and "\<And>x xs. tree_view c (x # xs) = None"
  shows "tree_view (put_at n ps (Inode k (Directory (bt_insert name c cs)))) =
     (tree_view n)(ps @ [name] \<mapsto> entry_of c)"
proof
  fix q
  show "tree_view (put_at n ps (Inode k (Directory (bt_insert name c cs)))) q =
      ((tree_view n)(ps @ [name] \<mapsto> entry_of c)) q"
  proof (cases "prefix ps q")
    case True
    then obtain r where q: "q = ps @ r" by (elim prefixE)
    then show ?thesis
    proof (cases r)
      case (Cons x xs)
      then show ?thesis
        using assms(2,3) by (cases xs) (auto simp: q view_put_at [OF assms(1)]
            tree_view_append [OF assms(1)] bt_get_insert)
    qed (simp add: view_put_at [OF assms(1)] tree_view_append [OF assms(1), of "[]", simplified])
  qed (auto simp: view_put_at [OF assms(1)])
qed

lemma view_remove:
  assumes "find_from n ps = Inr (Inode k (Directory cs))" "bt_ok cs"
  shows "tree_view (put_at n ps (Inode k (Directory (bt_remove name cs)))) =
     (\<lambda>q. if prefix (ps @ [name]) q then None else tree_view n q)"
proof
  fix q
  show "tree_view (put_at n ps (Inode k (Directory (bt_remove name cs)))) q =
      (if prefix (ps @ [name]) q then None else tree_view n q)"
  proof (cases "prefix ps q")
    case True
    then obtain r where q: "q = ps @ r" by (elim prefixE)
    then show ?thesis
      by (cases r) (auto simp: view_put_at [OF assms(1)] bt_get_remove [OF assms(2)]
          tree_view_append [OF assms(1)] tree_view_append [OF assms(1), of "[]", simplified])
  next
    case False
    then have "\<not> prefix (ps @ [name]) q"
      by (meson append_prefixD)
    with False show ?thesis
      by (simp add: view_put_at [OF assms(1)])
  qed
qed

lemma view_put_file:
  assumes "find_from n ps = Inr (Inode k (File d))"
  shows "tree_view (put_at n ps (Inode k (File d'))) = (tree_view n)(ps \<mapsto> FileE d')"
proof
  fix q
  show "tree_view (put_at n ps (Inode k (File d'))) q = ((tree_view n)(ps \<mapsto> FileE d')) q"
  proof (cases "prefix ps q")
    case True
    then obtain r where "q = ps @ r" by (elim prefixE)
    then show ?thesis
      by (cases r) (auto simp: view_put_at [OF assms] tree_view_append [OF assms])
  qed (auto simp: view_put_at [OF assms])
qed


text \<open>One operation agrees with its specification, returns, and keeps the invariant.\<close>

definition refines ::
    "((fs_error + unit) \<times> file_system) option \<Rightarrow> (fs_error + unit) \<times> spec_state \<Rightarrow> bool" where
  "refines out spec \<longleftrightarrow>
     (\<exists>r fs'. out = Some (r, fs') \<and> spec = (r, (fs_view fs', inode_count fs')) \<and> fs_inv fs')"

lemma refines_same: "fs_inv fs \<Longrightarrow> refines (Some (Inl e, fs)) (Inl e, (fs_view fs, inode_count fs))"
  by (auto simp: refines_def)

lemma tree_ok_dir:
  "find_from n ps = Inr (Inode k (Directory cs)) \<Longrightarrow> tree_ok n \<Longrightarrow>
     bt_ok cs \<and> length cs \<le> MAX_DIR_CHILDREN \<and> tree_ok (Inode k (Directory cs))"
  using find_from_ok by fastforce

lemma create_success:
  assumes inv: "fs_inv fs" and count: "inode_count fs < MAX_TOTAL_INODES"
    and m: "find_from (root fs) ps = Inr (Inode k (Directory cs))" "bt_get cs name = None"
      "length cs < MAX_DIR_CHILDREN"
    and new: "tree_ok c" "iname c = name" "node_count c = 1" "slash \<notin> set name"
  shows "fs_inv (fs\<lparr>root := put_at (root fs) ps (Inode k (Directory (bt_insert name c cs))),
                    inode_count := Suc (inode_count fs)\<rparr>)"
proof -
  let ?m' = "Inode k (Directory (bt_insert name c cs))"
  have ok: "tree_ok (root fs)" "bt_ok cs" "tree_ok (Inode k (Directory cs))"
    using inv tree_ok_dir [OF m(1)] by (auto simp: fs_inv_def)
  have "tree_ok ?m'"
    using tree_ok_insert [OF ok(3) new(1,2,4)] m(3) by simp
  then have "tree_ok (put_at (root fs) ps ?m')"
    using put_at_ok(1) [OF m(1) ok(1)] by simp
  moreover have "node_count ?m' = Suc (node_count (Inode k (Directory cs)))"
    using count_insert [OF ok(2), of node_count name c] m(2) new(3) by simp
  then have "node_count (put_at (root fs) ps ?m') = Suc (node_count (root fs))"
    using count_put_at [OF m(1) ok(1), of ?m'] by simp
  moreover have "entry_of (put_at (root fs) ps ?m') = DirE"
    using inv by (simp add: entry_put_at [OF m(1)] fs_inv_def)
  ultimately show ?thesis
    using inv count by (simp add: fs_inv_def)
qed

lemma create_node_refines:
  assumes inv: "fs_inv fs"
    and new: "\<And>n. tree_ok (new_inode n) \<and> iname (new_inode n) = n \<and> node_count (new_inode n) = 1 \<and>
       entry_of (new_inode n) = e \<and> (\<forall>x xs. tree_view (new_inode n) (x # xs) = None)"
  shows "refines (create_node new_inode path fs) (spec_create e path (fs_view fs, inode_count fs))"
proof (cases "inode_count fs \<ge> MAX_TOTAL_INODES \<or> (\<exists>e. resolve_path path = Inl e)")
  case True
  then show ?thesis
    using refines_same [OF inv] by (auto simp: create_node_def spec_create_def)
next
  case False
  then obtain parent name where res: "resolve_path path = Inr (parent, name)"
      and count: "inode_count fs < MAX_TOTAL_INODES"
    by (metis not_le old.sum.exhaust surj_pair)
  note simps = create_node_def spec_create_def res fs_view_def
  show ?thesis
  proof (cases rule: locate_dir [of parent "root fs"])
    case (err e)
    then show ?thesis
      using refines_same [OF inv] count by (simp add: simps)
  next
    case (dir k cs)
    let ?ps = "split_path parent"
    have view: "tree_view (root fs) (?ps @ [name]) =
        (case bt_get cs name of None \<Rightarrow> None | Some c \<Rightarrow> Some (entry_of c))"
      by (simp add: tree_view_append [OF dir(1)] split: option.splits)
    have card: "card (children (tree_view (root fs)) ?ps) = length cs"
      using children_card [OF dir(1)] inv by (simp add: fs_inv_def)
    note simps' = simps dir(2,3) add_child_def dir_child_count_def view card
    show ?thesis
    proof (cases "bt_get cs name = None \<and> length cs < MAX_DIR_CHILDREN")
      case True
      let ?root' = "put_at (root fs) ?ps (Inode k (Directory (bt_insert name (new_inode name) cs)))"
      have "tree_view ?root' = (tree_view (root fs))(?ps @ [name] \<mapsto> e)"
        using view_insert [OF dir(1)] True new [of name] by simp
      moreover have "uadd (inode_count fs) 1 = Some (Suc (inode_count fs))"
        using count by (simp add: uadd_def MAX_TOTAL_INODES_def)
      moreover have "fs_inv (fs\<lparr>root := ?root', inode_count := Suc (inode_count fs)\<rparr>)"
        using create_success [OF inv count dir(1)] True new [of name] resolve_path_name(1) [OF res] by auto
      ultimately show ?thesis
        using count True by (simp add: refines_def simps')
    next
      case False
      then show ?thesis
        using refines_same [OF inv] count by (auto simp: simps' split: option.splits)
    qed
  qed
qed

lemma remove_success:
  assumes inv: "fs_inv fs" and m: "find_from (root fs) ps = Inr (Inode k (Directory cs))"
    and c: "bt_get cs name = Some c"
  shows "fs_inv (fs\<lparr>root := put_at (root fs) ps (Inode k (Directory (bt_remove name cs))),
                    inode_count := inode_count fs - 1\<rparr>)"
proof -
  let ?m' = "Inode k (Directory (bt_remove name cs))"
  let ?root' = "put_at (root fs) ps ?m'"
  have ok: "tree_ok (root fs)" "bt_ok cs" "tree_ok (Inode k (Directory cs))"
    using inv tree_ok_dir [OF m] by (auto simp: fs_inv_def)
  have "set (bt_remove name cs) \<subseteq> set cs" "length (bt_remove name cs) \<le> length cs"
    by (rule bt_remove_subset) (induction cs; auto)
  then have "tree_ok ?m'"
    using ok(3) by (auto simp: bt_ok_remove)
  then have "tree_ok ?root'"
    using put_at_ok(1) [OF m ok(1)] by simp
  moreover have "node_count ?m' + node_count c = node_count (Inode k (Directory cs))"
    using count_remove [OF c, of node_count] by simp
  then have "node_count ?root' < node_count (root fs)"
    using count_put_at [OF m ok(1), of ?m'] node_count_pos [of c] by linarith
  ultimately show ?thesis
    using inv by (auto simp: fs_inv_def entry_put_at [OF m])
qed

lemma remove_refines:
  assumes inv: "fs_inv fs"
  shows "refines (fs_remove path fs) (spec_remove path (fs_view fs, inode_count fs))"
proof (cases "resolve_path path")
  case (Inl e)
  then show ?thesis
    using refines_same [OF inv] by (simp add: fs_remove_def spec_remove_def)
next
  case (Inr pn)
  then obtain parent name where res: "resolve_path path = Inr (parent, name)"
    by (cases pn) simp
  note simps = fs_remove_def spec_remove_def res fs_view_def
  show ?thesis
  proof (cases rule: locate_dir [of parent "root fs"])
    case (err e)
    then show ?thesis
      using refines_same [OF inv] by (simp add: simps)
  next
    case (dir k cs)
    let ?ps = "split_path parent"
    have view: "tree_view (root fs) (?ps @ [name]) =
        (case bt_get cs name of None \<Rightarrow> None | Some c \<Rightarrow> Some (entry_of c))"
      by (simp add: tree_view_append [OF dir(1)] split: option.splits)
    note simps' = simps dir(2,3) remove_child_def view
    show ?thesis
    proof (cases "bt_get cs name")
      case None
      then show ?thesis
        using refines_same [OF inv] by (simp add: simps')
    next
      case (Some c)
      then have "fs_inv (fs\<lparr>root := put_at (root fs) ?ps (Inode k (Directory (bt_remove name cs))),
            inode_count := inode_count fs - 1\<rparr>)"
        using remove_success [OF inv dir(1)] by simp
      moreover have "bt_ok cs"
        using tree_ok_dir [OF dir(1)] inv by (simp add: fs_inv_def)
      ultimately show ?thesis
        using Some view_remove [OF dir(1), of name] by (simp add: refines_def simps')
    qed
  qed
qed


text \<open>Changing a file in place, for writing and appending.\<close>

lemma put_refines:
  assumes inv: "fs_inv fs"
    and reg: "\<And>k old. f (Inode k (File old)) =
       Some (case change old of Inl e \<Rightarrow> Inl e | Inr new \<Rightarrow> Inr (Inode k (File new)))"
    and dir: "\<And>k cs. f (Inode k (Directory cs)) = Some (Inl NotAFile)"
    and limit: "\<And>old new. length old \<le> MAX_FILE_SIZE \<Longrightarrow> change old = Inr new \<Longrightarrow> length new \<le> MAX_FILE_SIZE"
  shows "refines (write_back (find_inode_mut (root fs) path f) fs)
     (spec_put change path (fs_view fs, inode_count fs))"
proof (cases rule: locate_path [of path "root fs"])
  case (err e)
  then show ?thesis
    using refines_same [OF inv] by (simp add: write_back_def spec_put_def fs_view_def)
next
  case (node m)
  note simps = write_back_def spec_put_def fs_view_def node(2,4)
  show ?thesis
  proof (cases m rule: tree_ok.cases)
    case (1 k old)
    show ?thesis
    proof (cases "change old")
      case (Inl e)
      then show ?thesis
        using refines_same [OF inv] by (simp add: simps 1 reg)
    next
      case (Inr new)
      let ?root' = "put_at (root fs) (split_path path) (Inode k (File new))"
      note m = node(1) [unfolded 1]
      have ok: "tree_ok (root fs)" "length old \<le> MAX_FILE_SIZE"
        using inv find_from_ok [OF m] by (auto simp: fs_inv_def)
      have "tree_ok ?root'" "node_count ?root' = node_count (root fs)"
        using put_at_ok(1) [OF m ok(1)] count_put_at [OF m ok(1), of "Inode k (File new)"] limit [OF ok(2) Inr]
        by simp_all
      moreover have "entry_of ?root' = DirE"
      proof -
        have "split_path path \<noteq> []"
          using m inv by (auto simp: fs_inv_def)
        then show ?thesis
          using inv by (simp add: entry_put_at [OF m] fs_inv_def)
      qed
      ultimately have "fs_inv (fs\<lparr>root := ?root'\<rparr>)"
        using inv by (simp add: fs_inv_def)
      then show ?thesis
        using view_put_file [OF m, of new] Inr by (simp add: refines_def simps 1 reg)
    qed
  next
    case (2 k cs)
    then show ?thesis
      using refines_same [OF inv] by (simp add: simps dir)
  qed
qed

lemma write_refines:
  assumes "fs_inv fs"
  shows "refines (write_file path data fs) (spec_write path data (fs_view fs, inode_count fs))"
proof (cases "length data > MAX_FILE_SIZE")
  case True
  then show ?thesis
    using refines_same [OF assms] by (simp add: write_file_def spec_write_def)
next
  case False
  then have "refines (write_back (find_inode_mut (root fs) path (\<lambda>inode. Some (inode_write data inode))) fs)
      (spec_put (\<lambda>_. Inr data) path (fs_view fs, inode_count fs))"
    by (intro put_refines [OF assms]) (simp_all add: inode_write_def)
  with False show ?thesis
    by (simp add: write_file_def spec_write_def)
qed

lemma append_refines:
  assumes "fs_inv fs"
  shows "refines (append_file path data fs) (spec_append path data (fs_view fs, inode_count fs))"
  unfolding append_file_def spec_append_def
  by (rule put_refines [OF assms])
    (auto simp: Let_def inode_append_def MAX_FILE_SIZE_def split: if_splits)

lemma read_refines: "read_file fs path = spec_read path (fs_view fs)"
proof (cases rule: locate_path [of path "root fs"])
  case (node m)
  then show ?thesis
    by (cases m rule: tree_ok.cases) (simp_all add: read_file_def spec_read_def fs_view_def inode_read_def)
qed (simp add: read_file_def spec_read_def fs_view_def)

lemma list_refines:
  assumes "fs_inv fs" shows "list_dir fs path = spec_list path (fs_view fs)"
proof (cases rule: locate_path [of path "root fs"])
  case (node m)
  show ?thesis
  proof (cases m rule: tree_ok.cases)
    case (2 k cs)
    have "bt_ok cs"
      using tree_ok_dir [OF node(1) [unfolded 2]] assms by (simp add: fs_inv_def)
    then show ?thesis
      using node children_dir [OF node(1) [unfolded 2]] bt.keys_eq [of cs]
      by (simp add: list_dir_def spec_list_def fs_view_def 2)
  qed (use node in \<open>simp add: list_dir_def spec_list_def fs_view_def\<close>)
qed (simp add: list_dir_def spec_list_def fs_view_def)

lemma exists_refines: "fs_exists fs path = spec_exists path (fs_view fs)"
  by (cases rule: locate_path [of path "root fs"])
    (simp_all add: fs_exists_def spec_exists_def fs_view_def)

lemma create_file_refines:
  "fs_inv fs \<Longrightarrow> refines (create_file path fs) (spec_create (FileE []) path (fs_view fs, inode_count fs))"
  unfolding create_file_def by (rule create_node_refines) (auto simp: new_file_def)

lemma create_dir_refines:
  "fs_inv fs \<Longrightarrow> refines (create_dir path fs) (spec_create DirE path (fs_view fs, inode_count fs))"
  unfolding create_dir_def by (rule create_node_refines) (auto simp: new_directory_def)

lemma refines_step:
  assumes "refines out spec"
  shows "\<exists>r fs'. map_option (map_prod Done id) out = Some (r, fs') \<and>
     map_prod Done id spec = (r, (fs_view fs', inode_count fs')) \<and> fs_inv fs'"
  using assms by (auto simp: refines_def)

lemma fs_step_refines:
  assumes "fs_inv fs"
  shows "\<exists>out fs'. fs_step op fs = Some (out, fs') \<and>
     spec_step op (fs_view fs, inode_count fs) = (out, (fs_view fs', inode_count fs')) \<and> fs_inv fs'"
proof (cases op)
  case (CreateFile p)
  show ?thesis unfolding CreateFile fs_step.simps spec_step.simps
    by (rule refines_step [OF create_file_refines [OF assms]])
next
  case (CreateDir p)
  show ?thesis unfolding CreateDir fs_step.simps spec_step.simps
    by (rule refines_step [OF create_dir_refines [OF assms]])
next
  case (WriteFile p d)
  show ?thesis unfolding WriteFile fs_step.simps spec_step.simps
    by (rule refines_step [OF write_refines [OF assms]])
next
  case (AppendFile p d)
  show ?thesis unfolding AppendFile fs_step.simps spec_step.simps
    by (rule refines_step [OF append_refines [OF assms]])
next
  case (Remove p)
  show ?thesis unfolding Remove fs_step.simps spec_step.simps
    by (rule refines_step [OF remove_refines [OF assms]])
qed (simp_all add: assms read_refines list_refines exists_refines)

lemma fs_run_refines:
  "fs_inv fs \<Longrightarrow>
   \<exists>outs fs'. fs_run ops fs = Some (outs, fs') \<and>
     spec_run ops (fs_view fs, inode_count fs) = (outs, (fs_view fs', inode_count fs')) \<and> fs_inv fs'"
proof (induction ops arbitrary: fs)
  case (Cons op ops)
  obtain out fs1 where 1: "fs_step op fs = Some (out, fs1)" "fs_inv fs1"
      "spec_step op (fs_view fs, inode_count fs) = (out, (fs_view fs1, inode_count fs1))"
    using fs_step_refines [OF Cons.prems] by blast
  with Cons.IH [OF 1(2)] show ?case
    by auto
qed auto

lemma fs_new_inv: "fs_inv fs_new"
  by (simp add: fs_inv_def fs_new_def new_directory_def MAX_TOTAL_INODES_def MAX_DIR_CHILDREN_def)

lemma fs_new_view: "(fs_view fs_new, inode_count fs_new) = spec_new"
proof -
  have "tree_view (Inode ''/'' (Directory [])) ps = [[] \<mapsto> DirE] ps" for ps
    by (cases ps) auto
  then show ?thesis
    by (auto simp: fs_view_def fs_new_def spec_new_def new_directory_def)
qed


subsection \<open>Properties\<close>

text \<open>
  C3 (refinement). Every sequence of file system calls on a fresh file system returns (no
  \<^verbatim>\<open>unreachable!\<close> is reached and nothing overflows), and each call answers exactly as the
  abstract map from paths to entries does, on success and on every error.
\<close>

theorem fs_refines_spec:
  "\<exists>outs fs. fs_run ops fs_new = Some (outs, fs) \<and>
     spec_run ops spec_new = (outs, (fs_view fs, inode_count fs))"
  using fs_run_refines [OF fs_new_inv, of ops] unfolding fs_new_view by blast

text \<open>
  C20 (invariant). After every sequence of calls the documented limits hold: no file is larger than
  64 KiB, no directory has more than 128 children, the tree has at most 512 inodes, children are
  kept in key order under their own name, and no name contains a separator.
\<close>

theorem fs_limits:
  "\<exists>outs fs. fs_run ops fs_new = Some (outs, fs) \<and> tree_ok (root fs) \<and>
     node_count (root fs) \<le> inode_count fs \<and> inode_count fs \<le> 512"
  using fs_run_refines [OF fs_new_inv, of ops] by (auto simp: fs_inv_def MAX_TOTAL_INODES_def)

text \<open>
  C21 (round trip). After a successful \<^verbatim>\<open>write_file\<close> every path with the same components reads
  back the data written, and reading any other path is unaffected.
\<close>

theorem fs_write_read:
  assumes "fs_inv fs" "write_file path data fs = Some (Inr (), fs')"
  shows "read_file fs' q = (if split_path q = split_path path then Inr data else read_file fs q)"
proof -
  have "spec_write path data (fs_view fs, inode_count fs) = (Inr (), (fs_view fs', inode_count fs'))"
    using write_refines [OF assms(1), of path data] assms(2) by (simp add: refines_def)
  then have "fs_view fs' = (fs_view fs)(split_path path \<mapsto> FileE data)"
      "length (split_path path) \<le> MAX_PATH_DEPTH"
    by (auto simp: spec_write_def spec_put_def spec_find_def split: if_splits sum.splits entry.splits option.splits)
  then show ?thesis
    by (simp add: read_refines spec_read_def spec_find_def)
qed

definition sample_fs :: file_system where
  "sample_fs =
     \<lparr>root = Inode ''/'' (Directory [(''d'', Inode ''d'' (Directory [(''f'', Inode ''f'' (File []))]))]),
      inode_count = 3\<rparr>"

lemma sample_fs_inv: "fs_inv sample_fs"
  by (simp add: fs_inv_def sample_fs_def MAX_TOTAL_INODES_def MAX_DIR_CHILDREN_def MAX_FILE_SIZE_def)

lemma sample_fs_write:
  "map_option fst (write_file ''/d/f'' [7] sample_fs) = Some (Inr ())"
  "split_path ''d//f/'' = split_path ''/d/f''"
  by code_simp+

theorem fs_write_read_witness:
  "\<exists>fs'. write_file ''/d/f'' [7] sample_fs = Some (Inr (), fs') \<and> read_file fs' ''d//f/'' = Inr [7]"
proof -
  obtain fs' where fs': "write_file ''/d/f'' [7] sample_fs = Some (Inr (), fs')"
    using sample_fs_write(1) by auto
  from fs_write_read [OF sample_fs_inv fs', of "''d//f/''"] show ?thesis
    using fs' sample_fs_write(2) by simp
qed


definition deep_path :: string where
  "deep_path = join_path (replicate 17 ''a'')"

definition deep_ops :: "fs_op list" where
  "deep_ops = map (\<lambda>n. CreateDir (join_path (replicate n ''a''))) [1..<17]"

lemma deep_ops_create:
  "map_option (\<lambda>(outs, fs). map_option fst (create_file deep_path fs)) (fs_run deep_ops fs_new) =
     Some (Some (Inr ()))"
  "length (split_path deep_path) = 17"
  by code_simp+


text \<open>
  Functional.  A successful \<^verbatim>\<open>remove\<close> makes the path and everything below it disappear and
  leaves every other path as it was.
\<close>

lemma fs_remove_exists:
  assumes "fs_inv fs" "fs_remove path fs = Some (Inr (), fs')" "split_path path \<noteq> []"
  shows "fs_exists fs' q = (fs_exists fs q \<and> \<not> prefix (split_path path) (split_path q))"
proof -
  have spec: "spec_remove path (fs_view fs, inode_count fs) = (Inr (), (fs_view fs', inode_count fs'))"
    using remove_refines [OF assms(1), of path] assms(2) by (simp add: refines_def)
  then obtain parent name where res: "resolve_path path = Inr (parent, name)"
      and v: "fs_view fs' = (\<lambda>q. if prefix (split_path parent @ [name]) q then None else fs_view fs q)"
    by (auto simp: spec_remove_def spec_find_dir_def split: if_splits sum.splits entry.splits)
  have "split_path path = split_path parent @ [name]"
    using resolve_path_name(4,5) [OF res] assms(3) by (auto simp: split_path_comps split: if_splits)
  with v show ?thesis
    by (auto simp: exists_refines spec_exists_def spec_find_def split: option.splits)
qed

lemma sample_fs_remove:
  "map_option fst (fs_remove ''/d'' sample_fs) = Some (Inr ())"
  "split_path ''/d'' = [''d'']" "split_path ''/d/f'' = [''d'', ''f'']"
  by code_simp+

lemma fs_remove_exists_witness:
  "\<exists>fs'. fs_remove ''/d'' sample_fs = Some (Inr (), fs') \<and> \<not> fs_exists fs' ''/d/f''"
proof -
  obtain fs' where fs': "fs_remove ''/d'' sample_fs = Some (Inr (), fs')"
    using sample_fs_remove(1) by auto
  from fs_remove_exists [OF sample_fs_inv fs', of "''/d/f''"] show ?thesis
    using fs' sample_fs_remove(2,3) by simp
qed

definition leak_round :: "fs_op list" where
  "leak_round = [CreateDir ''/d'', CreateFile ''/d/f'', Remove ''/d'']"

definition empty_fs :: "nat \<Rightarrow> file_system" where
  "empty_fs n = \<lparr>root = new_directory ''/'', inode_count = n\<rparr>"

lemma leak_paths:
  "resolve_path ''/d'' = Inr ([], ''d'')" "resolve_path ''/d/f'' = Inr (''d'', ''f'')"
  "split_path [] = []" "split_path ''d'' = [''d'']"
  by code_simp+

lemma leak_round_run:
  assumes "n < 511"
  shows "map_option snd (fs_run leak_round (empty_fs n)) = Some (empty_fs (Suc n))"
  using assms
  by (simp add: leak_round_def empty_fs_def new_directory_def new_file_def create_dir_def create_file_def
      create_node_def fs_remove_def leak_paths find_dir_mut_def find_inode_mut_def add_child_def
      dir_child_count_def remove_child_def uadd_def MAX_TOTAL_INODES_def MAX_PATH_DEPTH_def
      MAX_DIR_CHILDREN_def)

lemma fs_run_append:
  "fs_run (ops @ ops') fs =
     do { (outs, fs1) \<leftarrow> fs_run ops fs; (outs', fs2) \<leftarrow> fs_run ops' fs1; Some (outs @ outs', fs2) }"
  by (induction ops arbitrary: fs) (auto split: bind_splits)

lemma leak_rounds:
  "n + k \<le> 511 \<Longrightarrow>
     map_option snd (fs_run (concat (replicate k leak_round)) (empty_fs n)) = Some (empty_fs (n + k))"
proof (induction k arbitrary: n)
  case (Suc k)
  obtain outs where "fs_run leak_round (empty_fs n) = Some (outs, empty_fs (Suc n))"
    using leak_round_run [of n] Suc.prems by auto
  moreover obtain outs' where
    "fs_run (concat (replicate k leak_round)) (empty_fs (Suc n)) = Some (outs', empty_fs (Suc n + k))"
    using Suc.IH [of "Suc n"] Suc.prems by auto
  ultimately show ?case
    by (simp add: fs_run_append)
qed simp

text \<open>
  C23 (error). \<^verbatim>\<open>remove\<close> of a directory gives back one inode however many it contained:
  creating a directory with a file in it and removing the directory again leaves the empty tree with
  one inode more on the count, so after 510 rounds the file system is full although it is empty.
\<close>

theorem fs_remove_leaks_inodes:
  assumes "n \<le> 510"
  shows "map_option snd (fs_run (concat (replicate n leak_round)) fs_new) =
     Some \<lparr>root = new_directory ''/'', inode_count = Suc n\<rparr>"
  using leak_rounds [of 1 n] assms by (simp add: fs_new_def empty_fs_def)

theorem fs_remove_leaks_inodes_witness:
  "map_option snd (fs_run (concat (replicate 510 leak_round)) fs_new) =
     Some \<lparr>root = new_directory ''/'', inode_count = Suc 510\<rparr>"
  using fs_remove_leaks_inodes [OF order_refl] .

text \<open>
  Error.  The path \<^verbatim>\<open>"//"\<close> passes the checks of \<^verbatim>\<open>resolve_path\<close> with an empty name:
  \<^verbatim>\<open>create_file\<close> adds a child named with the empty string to the root, and no path leads to it,
  since lookups drop empty components.
\<close>

lemma fs_create_empty_name:
  "map_option (\<lambda>(r, fs). (r, list_dir fs ''/'', read_file fs ''//'')) (create_file ''//'' fs_new) =
     Some (Inr (), Inr [[]], Inl NotAFile)"
  by code_simp

text \<open>
  Round trip.  Writing path components behind separators and splitting the path again gives the
  components back.
\<close>

lemma path_split_join:
  assumes "\<forall>p \<in> set ps. p \<noteq> [] \<and> CHR ''/'' \<notin> set p"
  shows "split_path (join_path ps) = ps"
  using split_join_path [OF assms] .

lemma path_split_join_witness: "split_path (join_path [''usr'', ''bin'']) = [''usr'', ''bin'']"
  by (rule path_split_join) simp

end
