(* ===== verification/Async.thy ===== *)
theory Async
  imports Prelude
begin

text \<open>
  \<^verbatim>\<open>kernel/src/once_cell.rs\<close> and the \<^verbatim>\<open>AtomicWaker\<close> of
  \<^verbatim>\<open>kernel/src/async_utils.rs\<close>.  Both disable interrupts around every access to their cell,
  so on one core each operation is one atomic step.
\<close>

subsection \<open>\<^verbatim>\<open>OnceCell\<close>\<close>

datatype try_get_error = Uninit
datatype try_init_error = AlreadyInit

record 'a once_cell =
  initialized :: bool
  cell_value :: "'a option"

definition once_uninit :: "'a once_cell" where
  "once_uninit = \<lparr>initialized = False, cell_value = None\<rparr>"

text \<open>Reading the value of a cell that was never written is undefined: \<^verbatim>\<open>None\<close>.\<close>

definition try_get :: "'a once_cell \<Rightarrow> (try_get_error + 'a) option" where
  "try_get c =
     (if initialized c then map_option Inr (cell_value c) else Some (Inl Uninit))"

text \<open>The argument is the value the closure computes, \<^verbatim>\<open>None\<close> if it panics.\<close>

definition try_init_once :: "'a option \<Rightarrow> 'a once_cell \<Rightarrow> ((try_init_error + unit) \<times> 'a once_cell) option" where
  "try_init_once f c =
     (if initialized c then Some (Inl AlreadyInit, c)
      else do { v \<leftarrow> f; Some (Inr (), c\<lparr>cell_value := Some v, initialized := True\<rparr>) })"

subsection \<open>\<^verbatim>\<open>AtomicWaker\<close>\<close>

record 'w atomic_waker =
  waker :: "'w option"

definition aw_new :: "'w atomic_waker" where
  "aw_new = \<lparr>waker = None\<rparr>"

definition aw_register :: "'w \<Rightarrow> 'w atomic_waker \<Rightarrow> 'w atomic_waker" where
  "aw_register w a = a\<lparr>waker := Some w\<rparr>"

definition aw_take :: "'w atomic_waker \<Rightarrow> 'w option \<times> 'w atomic_waker" where
  "aw_take a = (waker a, a\<lparr>waker := None\<rparr>)"

text \<open>Waking calls the waker's own \<^verbatim>\<open>wake\<close>, a state transformer of the rest of the kernel.\<close>

definition aw_wake :: "('w \<Rightarrow> 's \<Rightarrow> 's) \<Rightarrow> 'w atomic_waker \<times> 's \<Rightarrow> 'w atomic_waker \<times> 's" where
  "aw_wake wake_w s =
     (let (a, rest) = s; (taken, a') = aw_take a
      in case taken of Some w \<Rightarrow> (a', wake_w w rest) | None \<Rightarrow> (a', rest))"

subsection \<open>Lemmas\<close>

definition once_ok :: "'a once_cell \<Rightarrow> bool" where
  "once_ok c \<longleftrightarrow> (initialized c \<longrightarrow> cell_value c \<noteq> None)"

lemma once_uninit_ok: "once_ok once_uninit"
  by (simp add: once_ok_def once_uninit_def)

lemma try_init_once_ok:
  "once_ok c \<Longrightarrow> try_init_once f c = Some (r, c') \<Longrightarrow>
     once_ok c' \<and> (r = Inr () \<longrightarrow> \<not> initialized c \<and> (\<exists>v. f = Some v \<and> try_get c' = Some (Inr v))) \<and>
     (initialized c \<longrightarrow> r = Inl AlreadyInit \<and> c' = c)"
  by (auto simp: try_init_once_def once_ok_def try_get_def split: if_splits bind_splits)

end
