(* ===== verification/Executor.thy ===== *)
theory Executor
  imports Array_Queue Ordered_Map Monitor Async
begin

text \<open>
  \<^verbatim>\<open>kernel/src/task/mod.rs\<close> and \<^verbatim>\<open>kernel/src/task/executor.rs\<close>: tasks and the cooperative
  executor.

  A waker made by \<^verbatim>\<open>create_waker\<close> holds a task id and the executor's own queue, so it is
  represented by the id.  The future of a task is an opaque value; what polling it does is the
  parameter \<open>poll\<close>: given the future, the waker in the context and the rest of the world it
  returns whether it is ready, the future's new state, the wakers woken while it ran (by the task or
  by interrupt handlers), in order, and the world.
\<close>

subsection \<open>Tasks\<close>

type_synonym task_id = u64

record 'f task =
  task_id :: task_id
  future :: 'f
  task_waker :: "task_id option"

text \<open>\<^verbatim>\<open>TaskId::new\<close>: a fetch-and-add on the global counter.\<close>

definition task_id_new :: "u64 \<Rightarrow> task_id \<times> u64" where
  "task_id_new next_id = (next_id, next_id + 1)"

definition task_new :: "'f \<Rightarrow> u64 \<Rightarrow> 'f task \<times> u64" where
  "task_new f next_id =
     (let (i, next') = task_id_new next_id
      in (\<lparr>task_id = i, future = f, task_waker = None\<rparr>, next'))"

type_synonym ('f, 'w) poller = "'f \<Rightarrow> task_id \<Rightarrow> 'w \<Rightarrow> bool \<times> 'f \<times> task_id list \<times> 'w"

subsection \<open>The executor\<close>

definition MAX_TASKS :: nat where "MAX_TASKS = 100"

record 'f executor =
  tasks :: "(task_id \<times> 'f task) list"
  task_queue :: "task_id array_queue"

definition executor_new :: "'f executor option" where
  "executor_new = do { q \<leftarrow> aq_new MAX_TASKS; Some \<lparr>tasks = [], task_queue = q\<rparr> }"

definition wake_task ::
    "task_id \<Rightarrow> task_id array_queue \<times> monitor_data \<Rightarrow> task_id array_queue \<times> monitor_data" where
  "wake_task i s =
     (let (q, m) = s
      in case aq_push q i of
           (Inl _, q') \<Rightarrow> (q', inc_dropped_wake m)
         | (Inr _, q') \<Rightarrow> (q', m))"

definition spawn ::
    "'f task \<Rightarrow> 'f executor \<times> monitor_data \<Rightarrow> ('f executor \<times> monitor_data) option" where
  "spawn t s =
     (let (e, m) = s; i = task_id t; t' = t\<lparr>task_waker := Some i\<rparr>
      in do { require (bt_get (tasks e) i = None);
              let e1 = e\<lparr>tasks := bt_insert i t' (tasks e)\<rparr>;
              case aq_push (task_queue e1) i of
                (Inl _, _) \<Rightarrow> None
              | (Inr _, q') \<Rightarrow> Some (e1\<lparr>task_queue := q'\<rparr>, inc_task_spawned m) })"

text \<open>One turn of the loop of \<^verbatim>\<open>run_ready_tasks\<close>; the flag says whether the loop goes on.\<close>

definition run_one ::
    "('f, 'w) poller \<Rightarrow> 'f executor \<times> monitor_data \<times> 'w \<Rightarrow>
     (bool \<times> 'f executor \<times> monitor_data \<times> 'w) option" where
  "run_one poll s =
     (let (e, m, w) = s
      in do { (r, q1) \<leftarrow> aq_pop (task_queue e);
              case r of
                Inl _ \<Rightarrow> Some (False, e\<lparr>task_queue := q1\<rparr>, m, w)
              | Inr i \<Rightarrow>
                  (case bt_get (tasks e) i of
                     None \<Rightarrow> Some (True, e\<lparr>task_queue := q1\<rparr>, m, w)
                   | Some t \<Rightarrow>
                       do { wk \<leftarrow> task_waker t;
                            let (ready, f', wakes, w') = poll (future t) wk w;
                            let (q2, m2) = fold wake_task wakes (q1, m);
                            if ready
                            then Some (True, e\<lparr>tasks := bt_remove i (tasks e), task_queue := q2\<rparr>,
                                       inc_task_completed m2, w')
                            else Some (True, e\<lparr>tasks := bt_insert i (t\<lparr>future := f'\<rparr>) (tasks e),
                                               task_queue := q2\<rparr>, m2, w') }) })"

partial_function (option) run_ready_tasks ::
    "('f, 'w) poller \<Rightarrow> 'f executor \<times> monitor_data \<times> 'w \<Rightarrow>
     ('f executor \<times> monitor_data \<times> 'w) option" where
  [code]: "run_ready_tasks poll s =
     do { (again, s') \<leftarrow> run_one poll s;
          if again then run_ready_tasks poll s' else Some s' }"

text \<open>\<^verbatim>\<open>sleep_if_idle\<close> checks the queue with interrupts disabled: \<^verbatim>\<open>True\<close> means \<^verbatim>\<open>hlt\<close>.\<close>

definition sleep_if_idle :: "'f executor \<Rightarrow> bool" where
  "sleep_if_idle e \<longleftrightarrow> aq_is_empty (task_queue e)"

end
