(* ===== verification/Executor_Props.thy ===== *)
theory Executor_Props
  imports Executor "HOL-Library.Code_Target_Nat"
begin

text \<open>
  The executor keeps its task table and metrics consistent, refuses a task exactly when its id is
  taken or the queue is full, and, when the polled tasks wake only boundedly often, the loop over
  ready tasks terminates with an empty queue and does not panic.
\<close>

subsection \<open>The invariant\<close>

definition tasks_ok :: "(task_id \<times> 'f task) list \<Rightarrow> bool" where
  "tasks_ok ts \<longleftrightarrow>
     bt_ok ts \<and> (\<forall>e \<in> set ts. task_id (snd e) = fst e \<and> task_waker (snd e) = Some (fst e))"

definition executor_inv :: "'f executor \<times> monitor_data \<Rightarrow> bool" where
  "executor_inv s \<longleftrightarrow>
     (let (e, m) = s
      in tasks_ok (tasks e) \<and> aq_inv (task_queue e) \<and> aq_capacity (task_queue e) = MAX_TASKS \<and>
         active_tasks m = of_nat (length (tasks e)))"

text \<open>A bound on the wakes of the polled tasks: each wake pays one unit of the potential.\<close>

definition bounded_wakes :: "('f, 'w) poller \<Rightarrow> ('w \<Rightarrow> nat) \<Rightarrow> bool" where
  "bounded_wakes poll pot \<longleftrightarrow>
     (\<forall>f i w. case poll f i w of (ready, f', wakes, w') \<Rightarrow> pot w' + length wakes \<le> pot w)"

subsection \<open>Waking\<close>

lemma wake_task_inv:
  assumes "aq_inv q" "enat (Suc n) \<le> aq_room q" "wake_task i (q, m) = (q', m')"
  shows "aq_inv q'" "aq_capacity q' = aq_capacity q" "enat n \<le> aq_room q'"
    "length (aq_contents q') \<le> Suc (length (aq_contents q))" "active_tasks m' = active_tasks m"
proof -
  have room: "0 < aq_room q"
    using assms(2) by (cases "aq_room q") (auto simp: zero_enat_def)
  have "aq_inv q' \<and> aq_capacity q' = aq_capacity q \<and> enat n \<le> aq_room q' \<and>
      length (aq_contents q') \<le> Suc (length (aq_contents q)) \<and> active_tasks m' = active_tasks m"
  proof (cases "length (aq_contents q) < aq_capacity q")
    case True
    obtain q1 where q1: "aq_push q i = (Inr (), q1)" "aq_inv q1" "aq_contents q1 = aq_contents q @ [i]"
        "aq_capacity q1 = aq_capacity q" "aq_room q \<le> eSuc (aq_room q1)"
      using aq.push_room [OF assms(1) room True] by blast
    have "enat (Suc n) \<le> eSuc (aq_room q1)"
      using assms(2) q1(5) by (rule order_trans)
    then have "enat n \<le> aq_room q1"
      by (simp add: eSuc_enat [symmetric])
    with q1 assms(3) show ?thesis
      by (auto simp: wake_task_def)
  next
    case False
    have "enat n \<le> aq_room q"
      using assms(2) by (rule order_trans [rotated]) simp
    with False aq.push_full [OF assms(1), of i] assms(1,3) show ?thesis
      by (auto simp: wake_task_def inc_dropped_wake_def)
  qed
  then show "aq_inv q'" "aq_capacity q' = aq_capacity q" "enat n \<le> aq_room q'"
    "length (aq_contents q') \<le> Suc (length (aq_contents q))" "active_tasks m' = active_tasks m"
    by blast+
qed

lemma wake_tasks_inv:
  assumes "aq_inv q" "enat (length wakes + n) \<le> aq_room q" "fold wake_task wakes (q, m) = (q', m')"
  shows "aq_inv q' \<and> aq_capacity q' = aq_capacity q \<and> enat n \<le> aq_room q' \<and>
    length (aq_contents q') \<le> length (aq_contents q) + length wakes \<and> active_tasks m' = active_tasks m"
  using assms
proof (induction wakes arbitrary: q m)
  case (Cons i wakes)
  obtain q1 m1 where w: "wake_task i (q, m) = (q1, m1)"
    by (cases "wake_task i (q, m)")
  note step = wake_task_inv [OF Cons.prems(1) _ w, of "length wakes + n"]
  have "enat (Suc (length wakes + n)) \<le> aq_room q"
    using Cons.prems(2) by simp
  with Cons.IH [of q1 m1] step Cons.prems(3) w show ?case
    by auto
qed simp

subsection \<open>One turn of the loop\<close>

lemma tasks_ok_get: "tasks_ok ts \<Longrightarrow> bt_get ts i = Some t \<Longrightarrow> task_id t = i \<and> task_waker t = Some i"
  by (fastforce simp: tasks_ok_def bt_get_map_of dest: map_of_SomeD)

lemma tasks_ok_insert:
  assumes "tasks_ok ts" "task_id t = i" "task_waker t = Some i"
  shows "tasks_ok (bt_insert i t ts)"
proof -
  have "set (bt_insert i t ts) \<subseteq> insert (i, t) (set ts)"
    by (induction i t ts rule: bt_insert.induct) auto
  with assms show ?thesis
    by (auto simp: tasks_ok_def bt_ok_insert)
qed

lemma tasks_ok_remove: "tasks_ok ts \<Longrightarrow> tasks_ok (bt_remove i ts)"
  using bt_remove_subset [of i ts] by (auto simp: tasks_ok_def bt_ok_remove)

lemma bt_remove_length:
  "bt_get ts i = Some t \<Longrightarrow> length ts = Suc (length (bt_remove i ts))"
  by (induction ts) (auto split: if_splits)

lemma executor_inv_parts:
  assumes "executor_inv (e, m)"
  shows "tasks_ok (tasks e)" "aq_inv (task_queue e)" "aq_capacity (task_queue e) = MAX_TASKS"
    "active_tasks m = of_nat (length (tasks e))"
  using assms by (simp_all add: executor_inv_def)

text \<open>Either the queue is empty and the loop ends, or an entry is used up.\<close>

lemma run_one_empty:
  assumes "executor_inv (e, m)" "aq_contents (task_queue e) = []"
  shows "run_one poll (e, m, w) = Some (False, e, m, w)"
  using aq.pop_empty [OF executor_inv_parts(2) [OF assms(1)] assms(2)] by (simp add: run_one_def)

lemma run_one_step:
  assumes inv: "executor_inv (e, m)" and q: "aq_contents (task_queue e) = i # is"
    and pot: "bounded_wakes poll pot" and room: "enat (pot w) \<le> aq_room (task_queue e)"
  shows "\<exists>e' m' w'. run_one poll (e, m, w) = Some (True, e', m', w') \<and> executor_inv (e', m') \<and>
     enat (pot w') \<le> aq_room (task_queue e') \<and>
     length (aq_contents (task_queue e')) + pot w' \<le> length is + pot w"
proof -
  note parts = executor_inv_parts [OF inv]
  obtain q1 where q1: "aq_pop (task_queue e) = Some (Inr i, q1)" "aq_inv q1" "aq_contents q1 = is"
      "aq_capacity q1 = aq_capacity (task_queue e)" "aq_room q1 = aq_room (task_queue e)"
    using aq.pop_first [OF parts(2) q] by blast
  show ?thesis
  proof (cases "bt_get (tasks e) i")
    case None
    with q1 parts room show ?thesis
      by (auto simp: run_one_def executor_inv_def)
  next
    case (Some t)
    note t = tasks_ok_get [OF parts(1) Some]
    obtain ready f' wakes w' where p: "poll (future t) i w = (ready, f', wakes, w')"
      by (cases "poll (future t) i w") auto
    obtain q2 m2 where f: "fold wake_task wakes (q1, m) = (q2, m2)"
      by (cases "fold wake_task wakes (q1, m)")
    have pay: "pot w' + length wakes \<le> pot w"
      using pot p by (auto simp: bounded_wakes_def dest!: spec [of _ "future t"] spec [of _ i] spec [of _ w])
    have "enat (length wakes + pot w') \<le> aq_room q1"
      using pay room q1(5) by (metis add.commute enat_ord_simps(1) order_trans)
    from wake_tasks_inv [OF q1(2) this f]
    have w2: "aq_inv q2" "aq_capacity q2 = MAX_TASKS" "enat (pot w') \<le> aq_room q2"
        "length (aq_contents q2) + pot w' \<le> length is + pot w" "active_tasks m2 = active_tasks m"
      using q1(3,4) parts(3) pay by auto
    have len: "length (bt_insert i t' (tasks e)) = length (tasks e)" for t'
      using bt.size_put [of "tasks e" i t'] Some parts(1) by (simp add: tasks_ok_def)
    show ?thesis
    proof (cases ready)
      case True
      have "of_nat (length (tasks e)) - 1 = (of_nat (length (bt_remove i (tasks e))) :: u64)"
        using bt_remove_length [OF Some] by simp
      then have "executor_inv (e\<lparr>tasks := bt_remove i (tasks e), task_queue := q2\<rparr>, inc_task_completed m2)"
        using w2 parts by (simp add: executor_inv_def tasks_ok_remove inc_task_completed_def)
      with True q1(1) Some t p f w2 show ?thesis
        by (simp add: run_one_def)
    next
      case False
      have "executor_inv (e\<lparr>tasks := bt_insert i (t\<lparr>future := f'\<rparr>) (tasks e), task_queue := q2\<rparr>, m2)"
        using w2 parts t by (simp add: executor_inv_def tasks_ok_insert len)
      with False q1(1) Some t p f w2 show ?thesis
        by (simp add: run_one_def)
    qed
  qed
qed

lemma run_ready_drains:
  assumes "bounded_wakes poll pot"
  shows "executor_inv (e, m) \<Longrightarrow> enat (pot w) \<le> aq_room (task_queue e) \<Longrightarrow>
     \<exists>e' m' w'. run_ready_tasks poll (e, m, w) = Some (e', m', w') \<and> executor_inv (e', m') \<and>
       aq_contents (task_queue e') = []"
proof (induction "length (aq_contents (task_queue e)) + pot w" arbitrary: e m w rule: less_induct)
  case less
  show ?case
  proof (cases "aq_contents (task_queue e)")
    case Nil
    then show ?thesis
      using run_one_empty [OF less.prems(1) Nil, of poll w] less.prems(1)
      by (simp add: run_ready_tasks.simps [of poll "(e, m, w)"])
  next
    case (Cons i "is")
    obtain e1 m1 w1 where 1: "run_one poll (e, m, w) = Some (True, e1, m1, w1)" "executor_inv (e1, m1)"
        "enat (pot w1) \<le> aq_room (task_queue e1)"
        "length (aq_contents (task_queue e1)) + pot w1 \<le> length is + pot w"
      using run_one_step [OF less.prems(1) Cons assms less.prems(2)] by blast
    have "length (aq_contents (task_queue e1)) + pot w1 < length (aq_contents (task_queue e)) + pot w"
      using 1(4) Cons by simp
    from less.hyps [OF this 1(2,3)] show ?thesis
      using 1(1) by (simp add: run_ready_tasks.simps [of poll "(e, m, w)"])
  qed
qed

lemma executor_new_inv:
  "\<exists>e. executor_new = Some e \<and> executor_inv (e, monitor_new) \<and> enat (usize_bound - 1) \<le> aq_room (task_queue e)"
proof -
  obtain q :: "task_id array_queue" where q: "aq_new MAX_TASKS = Some q"
    by (simp add: aq_new_def require_def MAX_TASKS_def)
  have "MAX_TASKS < usize_bound - 1"
    by (simp add: MAX_TASKS_def)
  from aq_new_inv [OF q this] q show ?thesis
    by (auto simp: executor_new_def executor_inv_def tasks_ok_def monitor_new_def)
qed


lemma spawn_inv:
  assumes inv: "executor_inv (e, m)" and room: "0 < aq_room (task_queue e)"
    and new: "bt_get (tasks e) (task_id t) = None" and free: "length (aq_contents (task_queue e)) < MAX_TASKS"
  shows "\<exists>e'. spawn t (e, m) = Some (e', inc_task_spawned m) \<and> executor_inv (e', inc_task_spawned m) \<and>
     aq_contents (task_queue e') = aq_contents (task_queue e) @ [task_id t] \<and>
     bt_get (tasks e') = (bt_get (tasks e))(task_id t \<mapsto> t\<lparr>task_waker := Some (task_id t)\<rparr>) \<and>
     aq_room (task_queue e) \<le> eSuc (aq_room (task_queue e'))"
proof -
  note parts = executor_inv_parts [OF inv]
  obtain q' where q': "aq_push (task_queue e) (task_id t) = (Inr (), q')" "aq_inv q'"
      "aq_contents q' = aq_contents (task_queue e) @ [task_id t]"
      "aq_capacity q' = aq_capacity (task_queue e)" "aq_room (task_queue e) \<le> eSuc (aq_room q')"
    using aq.push_room [OF parts(2) room] free parts(3) by metis
  let ?t = "t\<lparr>task_waker := Some (task_id t)\<rparr>"
  let ?e' = "e\<lparr>tasks := bt_insert (task_id t) ?t (tasks e), task_queue := q'\<rparr>"
  have "length (bt_insert (task_id t) ?t (tasks e)) = Suc (length (tasks e))"
    using bt.size_put [of "tasks e" "task_id t" ?t] new parts(1) by (simp add: tasks_ok_def)
  then have "executor_inv (?e', inc_task_spawned m)"
    using parts q' by (simp add: executor_inv_def tasks_ok_insert inc_task_spawned_def)
  moreover have "spawn t (e, m) = Some (?e', inc_task_spawned m)"
    using new q'(1) by (simp add: spawn_def require_def Let_def)
  ultimately show ?thesis
    using q'(3,5) by (auto simp: bt_get_insert)
qed

subsection \<open>Properties\<close>

text \<open>
  C28 (termination). If every poll pays for the wakes it causes out of a finite potential, the loop
  over ready tasks returns: no \<^verbatim>\<open>unwrap\<close> fails, the queue is empty afterwards, and the task
  table and the count of active tasks are consistent.
\<close>

theorem executor_run_terminates:
  assumes "executor_inv (e, m)" "bounded_wakes poll pot" "enat (pot w) \<le> aq_room (task_queue e)"
  shows "\<exists>e' m' w'. run_ready_tasks poll (e, m, w) = Some (e', m', w') \<and> executor_inv (e', m') \<and>
     aq_contents (task_queue e') = []"
  using run_ready_drains [OF assms(2,1,3)] .

text \<open>A task that yields, waking itself, as long as the world's budget lasts.\<close>

definition yielding :: "(unit, nat) poller" where
  "yielding f i w = (if w = 0 then (True, f, [], 0) else (False, f, [i], w - 1))"

lemma yielding_bounded: "bounded_wakes yielding id"
  by (simp add: bounded_wakes_def yielding_def)

lemma yielding_spawned:
  "\<exists>e e1. executor_new = Some e \<and>
     spawn \<lparr>task_id = 0, future = (), task_waker = None\<rparr> (e, monitor_new) = Some (e1, inc_task_spawned monitor_new) \<and>
     executor_inv (e1, inc_task_spawned monitor_new) \<and> enat 3 \<le> aq_room (task_queue e1)"
proof -
  obtain e where e: "executor_new = Some (e :: unit executor)" "executor_inv (e, monitor_new)"
      "enat (usize_bound - 1) \<le> aq_room (task_queue e)"
    using executor_new_inv by blast
  have "0 < aq_room (task_queue e)"
    using e(3) by (cases "aq_room (task_queue e)") (auto simp: zero_enat_def)
  moreover have "tasks e = []" "aq_contents (task_queue e) = []"
    using e(1) by (auto simp: executor_new_def aq_new_def require_def aq_contents_def aq_len_def
        split: bind_splits if_splits)
  ultimately obtain e1 where e1: "spawn \<lparr>task_id = 0, future = (), task_waker = None\<rparr> (e, monitor_new) =
        Some (e1, inc_task_spawned monitor_new)" "executor_inv (e1, inc_task_spawned monitor_new)"
      "aq_room (task_queue e) \<le> eSuc (aq_room (task_queue e1))"
    using spawn_inv [OF e(2), of "\<lparr>task_id = 0, future = (), task_waker = None\<rparr>"] by (auto simp: MAX_TASKS_def)
  have "enat 3 \<le> aq_room (task_queue e1)"
    using order_trans [OF e(3) e1(3)] by (cases "aq_room (task_queue e1)") (auto simp: eSuc_enat)
  with e e1 show ?thesis by blast
qed

theorem executor_run_terminates_witness:
  "\<exists>e e1 e' m' w'. executor_new = Some e \<and>
     spawn \<lparr>task_id = 0, future = (), task_waker = None\<rparr> (e, monitor_new) = Some (e1, inc_task_spawned monitor_new) \<and>
     run_ready_tasks yielding (e1, inc_task_spawned monitor_new, 3) = Some (e', m', w') \<and>
     aq_contents (task_queue e') = []"
proof -
  obtain e e1 where s: "executor_new = Some e"
      "spawn \<lparr>task_id = 0, future = (), task_waker = None\<rparr> (e, monitor_new) = Some (e1, inc_task_spawned monitor_new)"
      "executor_inv (e1, inc_task_spawned monitor_new)" "enat (id 3) \<le> aq_room (task_queue e1)"
    using yielding_spawned by auto
  from executor_run_terminates [OF s(3) yielding_bounded s(4)] s(1,2) show ?thesis
    by auto
qed

text \<open>
  Error.  \<^verbatim>\<open>spawn\<close> panics exactly when a task with that id is still registered or 100 ids
  are already queued; otherwise the task is registered with its own waker and queued last.
\<close>

lemma executor_spawn:
  assumes "executor_inv (e, m)" "0 < aq_room (task_queue e)"
  shows "(spawn t (e, m) = None \<longleftrightarrow>
       bt_get (tasks e) (task_id t) \<noteq> None \<or> length (aq_contents (task_queue e)) = 100) \<and>
     (case spawn t (e, m) of
        None \<Rightarrow> True
      | Some (e', m') \<Rightarrow>
          executor_inv (e', m') \<and> aq_contents (task_queue e') = aq_contents (task_queue e) @ [task_id t] \<and>
          bt_get (tasks e') = (bt_get (tasks e))(task_id t \<mapsto> t\<lparr>task_waker := Some (task_id t)\<rparr>))"
proof (cases "bt_get (tasks e) (task_id t) = None \<and> length (aq_contents (task_queue e)) < MAX_TASKS")
  case True
  then show ?thesis
    using spawn_inv [OF assms, of t] by (auto simp: MAX_TASKS_def)
next
  case False
  note parts = executor_inv_parts [OF assms(1)]
  have "length (aq_contents (task_queue e)) \<le> MAX_TASKS"
    using aq.contents_bounded [OF parts(2)] parts(3) by simp
  with False aq.push_full [OF parts(2)] parts(3) show ?thesis
    by (auto simp: spawn_def require_def Let_def MAX_TASKS_def)
qed

lemma executor_spawn_witness:
  "\<exists>e e1. executor_new = Some e \<and>
     spawn \<lparr>task_id = 0, future = (), task_waker = None\<rparr> (e, monitor_new) = Some (e1, inc_task_spawned monitor_new) \<and>
     spawn \<lparr>task_id = 0, future = (), task_waker = None\<rparr> (e1, inc_task_spawned monitor_new) = None"
proof -
  obtain e e1 where s: "executor_new = Some e"
      "spawn \<lparr>task_id = 0, future = (), task_waker = None\<rparr> (e, monitor_new) = Some (e1, inc_task_spawned monitor_new)"
      "executor_inv (e1, inc_task_spawned monitor_new)" "enat 3 \<le> aq_room (task_queue e1)"
    using yielding_spawned by auto
  have "0 < aq_room (task_queue e1)"
    using s(4) by (cases "aq_room (task_queue e1)") (auto simp: zero_enat_def)
  note sp = executor_spawn [OF s(3) this, of "\<lparr>task_id = 0, future = (), task_waker = None\<rparr>"]
  have "bt_get (tasks e1) 0 \<noteq> None"
    using s(2) by (auto simp: spawn_def require_def Let_def bt_get_insert split: bind_splits sum.splits prod.splits)
  with sp s(1,2) show ?thesis
    by auto
qed

end
