(* ===== verification/Keyboard.thy ===== *)
theory Keyboard
  imports Executor
begin

text \<open>
  \<^verbatim>\<open>kernel/src/task/keyboard.rs\<close>: the scancode queue between the keyboard interrupt handler
  and the task that reads the \<^verbatim>\<open>ScancodeStream\<close>, on top of the executor's ready queue.

  The handler runs to completion between two steps of the interrupted code, so the functions below
  are one step each for the handler, and \<open>kb_step\<close> cuts the polling of the stream into its
  atomic accesses: a handler may run before and after every one of them.  Decoding of scancodes
  (crate \<^verbatim>\<open>pc_keyboard\<close>) and printing happen on bytes already taken from the queue.
\<close>

subsection \<open>The shared state\<close>

definition MAX_SCANCODES :: nat where "MAX_SCANCODES = 100"

record kernel_io =
  scancode_queue :: "u8 array_queue once_cell"
  kb_waker :: "task_id atomic_waker"
  ready_queue :: "task_id array_queue"
  metrics :: monitor_data
  console :: "string list"

text \<open>The queue is changed in place, through the reference \<^verbatim>\<open>try_get\<close> returns.\<close>

definition set_queue :: "u8 array_queue \<Rightarrow> kernel_io \<Rightarrow> kernel_io" where
  "set_queue q k = k\<lparr>scancode_queue := (scancode_queue k)\<lparr>cell_value := Some q\<rparr>\<rparr>"

definition wake_keyboard :: "kernel_io \<Rightarrow> kernel_io" where
  "wake_keyboard k =
     (let (a, q, m) = aw_wake wake_task (kb_waker k, ready_queue k, metrics k)
      in k\<lparr>kb_waker := a, ready_queue := q, metrics := m\<rparr>)"

definition add_scancode :: "u8 \<Rightarrow> kernel_io \<Rightarrow> kernel_io option" where
  "add_scancode scancode k =
     do { r \<leftarrow> try_get (scancode_queue k);
          case r of
            Inl _ \<Rightarrow> Some (k\<lparr>console := console k @ [''WARNING: scancode queue uninitialized'']\<rparr>)
          | Inr q \<Rightarrow>
              (case aq_push q scancode of
                 (Inl _, q') \<Rightarrow>
                   Some (set_queue q' (k\<lparr>console := console k @
                     [''WARNING: scancode queue full; dropping keyboard input'']\<rparr>))
               | (Inr _, q') \<Rightarrow> Some (wake_keyboard (set_queue q' k))) }"

definition stream_new :: "kernel_io \<Rightarrow> kernel_io option" where
  "stream_new k =
     do { (r, c) \<leftarrow> try_init_once (aq_new MAX_SCANCODES) (scancode_queue k);
          case r of Inl _ \<Rightarrow> None | Inr _ \<Rightarrow> Some (k\<lparr>scancode_queue := c\<rparr>) }"

definition pop_scancode :: "kernel_io \<Rightarrow> ((pop_error + u8) \<times> kernel_io) option" where
  "pop_scancode k =
     do { r \<leftarrow> try_get (scancode_queue k);
          case r of
            Inl _ \<Rightarrow> None
          | Inr q \<Rightarrow> do { (x, q') \<leftarrow> aq_pop q; Some (x, set_queue q' k) } }"

definition register_waker :: "task_id \<Rightarrow> kernel_io \<Rightarrow> kernel_io" where
  "register_waker w k = k\<lparr>kb_waker := aw_register w (kb_waker k)\<rparr>"

definition take_waker :: "kernel_io \<Rightarrow> kernel_io" where
  "take_waker k = k\<lparr>kb_waker := snd (aw_take (kb_waker k))\<rparr>"

text \<open>\<^verbatim>\<open>Some\<close> is \<^verbatim>\<open>Ready(Some(_))\<close>, \<^verbatim>\<open>None\<close> is \<^verbatim>\<open>Pending\<close>.\<close>

definition poll_next :: "task_id \<Rightarrow> kernel_io \<Rightarrow> (u8 option \<times> kernel_io) option" where
  "poll_next w k =
     do { (r1, k1) \<leftarrow> pop_scancode k;
          case r1 of
            Inr scancode \<Rightarrow> Some (Some scancode, k1)
          | Inl _ \<Rightarrow>
              do { let k2 = register_waker w k1;
                   (r2, k3) \<leftarrow> pop_scancode k2;
                   case r2 of
                     Inr scancode \<Rightarrow> Some (Some scancode, take_waker k3)
                   | Inl PopError \<Rightarrow> Some (None, k3) } }"

subsection \<open>Interleaving with interrupts\<close>

text \<open>
  Where the reading task is: not polled yet, about to create the stream, waiting for a wake, or
  inside \<^verbatim>\<open>poll_next\<close> before one of its accesses.  A byte it gets is processed, and the
  task's loop polls the stream again.
\<close>

datatype kb_pc = Unstarted | Starting | FastPath | Register | Recheck | TakeWaker u8 | Waiting

record kb_machine =
  io :: kernel_io
  pc :: kb_pc
  halted :: bool
  delivered :: "u8 list"
  accepted :: "u8 list"

definition accepts :: "kernel_io \<Rightarrow> u8 \<Rightarrow> bool" where
  "accepts k scancode =
     (case try_get (scancode_queue k) of
        Some (Inr q) \<Rightarrow> fst (aq_push q scancode) = Inr ()
      | _ \<Rightarrow> False)"

definition set_ready :: "task_id array_queue \<times> monitor_data \<Rightarrow> kernel_io \<Rightarrow> kernel_io" where
  "set_ready s k = k\<lparr>ready_queue := fst s, metrics := snd s\<rparr>"

text \<open>
  The reading task has id \<open>kb\<close>.  Interrupts, and wakes of other tasks, may happen at any
  moment and end a halt; the executor dispatches, or halts when its queue is empty, while the
  reading task is not being polled.
\<close>

inductive kb_step :: "task_id \<Rightarrow> kb_machine \<Rightarrow> kb_machine \<Rightarrow> bool" for kb where
  key_irq:
    "add_scancode sc (io s) = Some k \<Longrightarrow>
       kb_step kb s (s\<lparr>io := k, halted := False,
         accepted := accepted s @ (if accepts (io s) sc then [sc] else [])\<rparr>)"
| other_irq: "kb_step kb s (s\<lparr>halted := False\<rparr>)"
| other_wake:
    "i \<noteq> kb \<Longrightarrow>
       kb_step kb s (s\<lparr>io := set_ready (wake_task i (ready_queue (io s), metrics (io s))) (io s),
         halted := False\<rparr>)"
| dispatch:
    "pc s \<in> {Unstarted, Waiting} \<Longrightarrow> \<not> halted s \<Longrightarrow> aq_pop (ready_queue (io s)) = Some (Inr i, q) \<Longrightarrow>
       kb_step kb s (s\<lparr>io := (io s)\<lparr>ready_queue := q\<rparr>,
         pc := (if i = kb then if pc s = Unstarted then Starting else FastPath else pc s)\<rparr>)"
| idle:
    "pc s \<in> {Unstarted, Waiting} \<Longrightarrow> \<not> halted s \<Longrightarrow> aq_is_empty (ready_queue (io s)) \<Longrightarrow>
       kb_step kb s (s\<lparr>halted := True\<rparr>)"
| start:
    "pc s = Starting \<Longrightarrow> stream_new (io s) = Some k \<Longrightarrow> kb_step kb s (s\<lparr>io := k, pc := FastPath\<rparr>)"
| fast_ready:
    "pc s = FastPath \<Longrightarrow> pop_scancode (io s) = Some (Inr sc, k) \<Longrightarrow>
       kb_step kb s (s\<lparr>io := k, delivered := delivered s @ [sc]\<rparr>)"
| fast_empty:
    "pc s = FastPath \<Longrightarrow> pop_scancode (io s) = Some (Inl e, k) \<Longrightarrow> kb_step kb s (s\<lparr>io := k, pc := Register\<rparr>)"
| register:
    "pc s = Register \<Longrightarrow> kb_step kb s (s\<lparr>io := register_waker kb (io s), pc := Recheck\<rparr>)"
| recheck_ready:
    "pc s = Recheck \<Longrightarrow> pop_scancode (io s) = Some (Inr sc, k) \<Longrightarrow> kb_step kb s (s\<lparr>io := k, pc := TakeWaker sc\<rparr>)"
| recheck_empty:
    "pc s = Recheck \<Longrightarrow> pop_scancode (io s) = Some (Inl e, k) \<Longrightarrow> kb_step kb s (s\<lparr>io := k, pc := Waiting\<rparr>)"
| take:
    "pc s = TakeWaker sc \<Longrightarrow>
       kb_step kb s (s\<lparr>io := take_waker (io s), pc := FastPath, delivered := delivered s @ [sc]\<rparr>)"

text \<open>The kernel before the task runs: it has been spawned, so its id is queued.\<close>

definition kb_initial :: "task_id \<Rightarrow> kb_machine \<Rightarrow> bool" where
  "kb_initial kb s \<longleftrightarrow>
     scancode_queue (io s) = once_uninit \<and> kb_waker (io s) = aw_new \<and>
     aq_inv (ready_queue (io s)) \<and> kb \<in> set (aq_contents (ready_queue (io s))) \<and>
     tail (ready_queue (io s)) \<le> 100 \<and>
     dropped_wakes (metrics (io s)) = 0 \<and>
     pc s = Unstarted \<and> \<not> halted s \<and> delivered s = [] \<and> accepted s = []"

end
