(* ===== verification/Keyboard_Props.thy ===== *)
theory Keyboard_Props
  imports Keyboard Executor_Props
begin

text \<open>
  No wake-up of the keyboard task is lost, whatever the interleaving of interrupts with the polling
  of the stream: the registration of the waker between the two checks of the queue closes the race.
  Keys arrive in the order they were accepted.
\<close>

subsection \<open>The invariant\<close>

text \<open>
  The byte taken from the queue but not yet returned.
\<close>

fun in_flight :: "kb_pc \<Rightarrow> u8 list" where
  "in_flight (TakeWaker sc) = [sc]"
| "in_flight _ = []"

text \<open>
  What must hold for the task to be polled again when a key is waiting: a waiting task is queued, or
  is registered with an empty queue; between registration and recheck, a handler that took the waker
  left a byte behind.
\<close>

fun linked :: "task_id \<Rightarrow> kb_pc \<Rightarrow> task_id option \<Rightarrow> u8 list \<Rightarrow> task_id list \<Rightarrow> bool" where
  "linked kb Waiting w keys ready \<longleftrightarrow> kb \<in> set ready \<or> (w = Some kb \<and> keys = [])"
| "linked kb Recheck w keys ready \<longleftrightarrow> w = Some kb \<or> keys \<noteq> []"
| "linked kb Unstarted w keys ready \<longleftrightarrow> kb \<in> set ready"
| "linked kb _ w keys ready \<longleftrightarrow> True"

text \<open>The ready queue, with at least \<open>n\<close> more operations before its counters wrap.\<close>

definition ready_ok :: "nat \<Rightarrow> kernel_io \<Rightarrow> bool" where
  "ready_ok n k \<longleftrightarrow>
     aq_inv (ready_queue k) \<and> enat n \<le> aq_room (ready_queue k) \<and>
     unat (dropped_wakes (metrics k)) + n \<le> usize_bound - 1"

definition stream_ok :: "nat \<Rightarrow> kernel_io \<Rightarrow> u8 array_queue \<Rightarrow> bool" where
  "stream_ok n k q \<longleftrightarrow>
     scancode_queue k = \<lparr>initialized = True, cell_value = Some q\<rparr> \<and>
     aq_inv q \<and> aq_capacity q = MAX_SCANCODES \<and> enat n \<le> aq_room q"

text \<open>The bytes in the queue of an initialised stream.\<close>

definition queued :: "kernel_io \<Rightarrow> u8 list" where
  "queued k = (case cell_value (scancode_queue k) of None \<Rightarrow> [] | Some q \<Rightarrow> aq_contents q)"

definition kb_inv :: "task_id \<Rightarrow> nat \<Rightarrow> kb_machine \<Rightarrow> bool" where
  "kb_inv kb n s \<longleftrightarrow>
     ready_ok n (io s) \<and>
     waker (kb_waker (io s)) \<in> {None, Some kb} \<and>
     (halted s \<longrightarrow> pc s \<in> {Unstarted, Waiting} \<and> aq_contents (ready_queue (io s)) = []) \<and>
     (if pc s \<in> {Unstarted, Starting} then scancode_queue (io s) = once_uninit
      else \<exists>q. stream_ok n (io s) q) \<and>
     delivered s @ in_flight (pc s) @ queued (io s) = accepted s \<and>
     (dropped_wakes (metrics (io s)) = 0 \<longrightarrow>
        linked kb (pc s) (waker (kb_waker (io s))) (queued (io s)) (aq_contents (ready_queue (io s))))"

subsection \<open>Single operations\<close>

lemma enat_le_mono: "enat (Suc n) \<le> r \<Longrightarrow> enat n \<le> r"
  by (cases r) auto

lemma ready_ok_less: "ready_ok (Suc n) k \<Longrightarrow> ready_ok n k"
  by (auto simp: ready_ok_def intro: enat_le_mono)

lemma stream_ok_less: "stream_ok (Suc n) k q \<Longrightarrow> stream_ok n k q"
  by (auto simp: stream_ok_def intro: enat_le_mono)

lemma push_step:
  assumes "aq_inv q" "enat (Suc n) \<le> aq_room q"
  obtains (ok) q' where "aq_push q x = (Inr (), q')" "aq_inv q'" "aq_contents q' = aq_contents q @ [x]"
      "aq_capacity q' = aq_capacity q" "enat n \<le> aq_room q'" "length (aq_contents q) < aq_capacity q"
  | (full) "aq_push q x = (Inl x, q)" "aq_capacity q \<le> length (aq_contents q)"
proof (cases "length (aq_contents q) < aq_capacity q")
  case True
  have "0 < aq_room q"
    using assms(2) by (cases "aq_room q") (auto simp: zero_enat_def)
  then obtain q' where q': "aq_push q x = (Inr (), q')" "aq_inv q'" "aq_contents q' = aq_contents q @ [x]"
      "aq_capacity q' = aq_capacity q" "aq_room q \<le> eSuc (aq_room q')"
    using aq.push_room [OF assms(1) _ True] by blast
  have "enat (Suc n) \<le> eSuc (aq_room q')"
    using assms(2) q'(5) by (rule order_trans)
  then have "enat n \<le> aq_room q'"
    by (simp add: eSuc_enat [symmetric])
  with q' True show ?thesis
    by (intro ok)
next
  case False
  then show ?thesis
    using aq.push_full [OF assms(1)] by (intro full) simp_all
qed

lemma dropped_suc:
  assumes "unat (d :: u64) + Suc n \<le> usize_bound - 1"
  shows "unat (d + 1) + n \<le> usize_bound - 1" "d + 1 \<noteq> 0"
proof -
  have "unat (d + 1) = Suc (unat d)"
    using assms by (simp add: unat_word_ariths)
  then show "unat (d + 1) + n \<le> usize_bound - 1" "d + 1 \<noteq> 0"
    using assms by auto
qed


text \<open>A wake queues the task, or is counted as dropped.\<close>

lemma wake_ready:
  assumes "ready_ok (Suc n) k" "wake_task i (ready_queue k, metrics k) = (q', m')"
  shows "ready_ok n (set_ready (q', m') k)" "set (aq_contents (ready_queue k)) \<subseteq> set (aq_contents q')"
    "dropped_wakes m' = 0 \<Longrightarrow> dropped_wakes (metrics k) = 0 \<and> i \<in> set (aq_contents q')"
proof -
  have r: "aq_inv (ready_queue k)" "enat (Suc n) \<le> aq_room (ready_queue k)"
      "unat (dropped_wakes (metrics k)) + Suc n \<le> usize_bound - 1"
    using assms(1) by (simp_all add: ready_ok_def)
  have "ready_ok n (set_ready (q', m') k) \<and> set (aq_contents (ready_queue k)) \<subseteq> set (aq_contents q') \<and>
      (dropped_wakes m' = 0 \<longrightarrow> dropped_wakes (metrics k) = 0 \<and> i \<in> set (aq_contents q'))"
  proof (cases rule: push_step [OF r(1,2), of i])
    case (1 q1)
    with assms(2) r(3) show ?thesis
      by (auto simp: wake_task_def ready_ok_def set_ready_def)
  next
    case 2
    with assms(2) have "q' = ready_queue k" "m' = inc_dropped_wake (metrics k)"
      by (auto simp: wake_task_def)
    then show ?thesis
      using r dropped_suc [OF r(3)] by (auto simp: ready_ok_def set_ready_def inc_dropped_wake_def enat_le_mono)
  qed
  then show "ready_ok n (set_ready (q', m') k)" "set (aq_contents (ready_queue k)) \<subseteq> set (aq_contents q')"
    "dropped_wakes m' = 0 \<Longrightarrow> dropped_wakes (metrics k) = 0 \<and> i \<in> set (aq_contents q')"
    by blast+
qed

lemma try_get_stream: "stream_ok n k q \<Longrightarrow> try_get (scancode_queue k) = Some (Inr q)"
  by (simp add: stream_ok_def try_get_def)

lemma queued_stream: "stream_ok n k q \<Longrightarrow> queued k = aq_contents q"
  by (simp add: stream_ok_def queued_def)

lemma set_queue_select [simp]:
  "ready_queue (set_queue q k) = ready_queue k" "metrics (set_queue q k) = metrics k"
  "kb_waker (set_queue q k) = kb_waker k"
  by (simp_all add: set_queue_def)

lemma set_queue_stream:
  "stream_ok n k q \<Longrightarrow> aq_inv q' \<Longrightarrow> aq_capacity q' = aq_capacity q \<Longrightarrow> enat n' \<le> aq_room q' \<Longrightarrow>
     stream_ok n' (set_queue q' k) q' \<and> queued (set_queue q' k) = aq_contents q'"
  by (simp add: stream_ok_def set_queue_def queued_def)

lemma pop_scancode_stream:
  assumes "stream_ok n k q"
  shows "\<exists>q'. pop_scancode k =
       Some (case queued k of [] \<Rightarrow> (Inl PopError, k) | sc # _ \<Rightarrow> (Inr sc, set_queue q' k)) \<and>
     (queued k \<noteq> [] \<longrightarrow> stream_ok n (set_queue q' k) q' \<and> queued (set_queue q' k) = tl (queued k))"
proof (cases "aq_contents q")
  case Nil
  have "set_queue q k = k"
    using assms by (simp add: set_queue_def stream_ok_def)
  moreover have "aq_pop q = Some (Inl PopError, q)"
    using assms Nil by (intro aq.pop_empty) (simp_all add: stream_ok_def)
  ultimately show ?thesis
    using try_get_stream [OF assms] queued_stream [OF assms] Nil by (simp add: pop_scancode_def)
next
  case (Cons sc rest)
  obtain q' where q': "aq_pop q = Some (Inr sc, q')" "aq_inv q'" "aq_contents q' = rest"
      "aq_capacity q' = aq_capacity q" "aq_room q' = aq_room q"
    using aq.pop_first [OF _ Cons] assms by (auto simp: stream_ok_def)
  then have "stream_ok n (set_queue q' k) q' \<and> queued (set_queue q' k) = rest"
    using set_queue_stream [OF assms, of q' n] assms by (simp add: stream_ok_def)
  then show ?thesis
    using try_get_stream [OF assms] queued_stream [OF assms] Cons q'(1) by (auto simp: pop_scancode_def)
qed

lemma wake_keyboard_eq:
  "wake_keyboard k =
     (case waker (kb_waker k) of
        None \<Rightarrow> k
      | Some w \<Rightarrow> set_ready (wake_task w (ready_queue k, metrics k)) (take_waker k))"
  by (cases "wake_task (the (waker (kb_waker k))) (ready_queue k, metrics k)")
    (auto simp: wake_keyboard_def aw_wake_def aw_take_def take_waker_def set_ready_def split: option.splits)


subsection \<open>Every step keeps the invariant\<close>

lemma kb_invI:
  assumes "ready_ok n (io s)" "waker (kb_waker (io s)) \<in> {None, Some kb}"
    and "halted s \<Longrightarrow> pc s \<in> {Unstarted, Waiting} \<and> aq_contents (ready_queue (io s)) = []"
    and "if pc s \<in> {Unstarted, Starting} then scancode_queue (io s) = once_uninit
         else \<exists>q. stream_ok n (io s) q"
    and "delivered s @ in_flight (pc s) @ queued (io s) = accepted s"
    and "dropped_wakes (metrics (io s)) = 0 \<Longrightarrow>
         linked kb (pc s) (waker (kb_waker (io s))) (queued (io s)) (aq_contents (ready_queue (io s)))"
  shows "kb_inv kb n s"
  using assms by (auto simp: kb_inv_def)

lemma kb_invD:
  assumes "kb_inv kb n s"
  shows "ready_ok n (io s)" "waker (kb_waker (io s)) \<in> {None, Some kb}"
    "halted s \<Longrightarrow> pc s \<in> {Unstarted, Waiting} \<and> aq_contents (ready_queue (io s)) = []"
    "pc s \<in> {Unstarted, Starting} \<Longrightarrow> scancode_queue (io s) = once_uninit"
    "pc s \<notin> {Unstarted, Starting} \<Longrightarrow> \<exists>q. stream_ok n (io s) q"
    "delivered s @ in_flight (pc s) @ queued (io s) = accepted s"
    "dropped_wakes (metrics (io s)) = 0 \<Longrightarrow>
       linked kb (pc s) (waker (kb_waker (io s))) (queued (io s)) (aq_contents (ready_queue (io s)))"
  using assms by (auto simp: kb_inv_def split: if_splits)

lemma linked_mono:
  "linked kb p w keys ready \<Longrightarrow> set ready \<subseteq> set ready' \<Longrightarrow> linked kb p w keys ready'"
  by (cases p) auto

lemma key_irq_unstarted:
  assumes "kb_inv kb (Suc n) s" "pc s \<in> {Unstarted, Starting}" "add_scancode sc (io s) = Some k"
  shows "kb_inv kb n (s\<lparr>io := k, halted := False,
     accepted := accepted s @ (if accepts (io s) sc then [sc] else [])\<rparr>)"
proof -
  note inv = kb_invD [OF assms(1)]
  have tg: "try_get (scancode_queue (io s)) = Some (Inl Uninit)"
    using inv(4) [OF assms(2)] by (simp add: try_get_def once_uninit_def)
  then have k: "k = (io s)\<lparr>console := console (io s) @ [''WARNING: scancode queue uninitialized'']\<rparr>"
    using assms(3) by (simp add: add_scancode_def)
  show ?thesis
    using inv ready_ok_less [OF inv(1)] assms(2) tg
    by (intro kb_invI) (auto simp: k ready_ok_def accepts_def queued_def)
qed

lemma key_irq_started:
  assumes "kb_inv kb (Suc n) s" "pc s \<notin> {Unstarted, Starting}" "add_scancode sc (io s) = Some k"
  shows "kb_inv kb n (s\<lparr>io := k, halted := False,
     accepted := accepted s @ (if accepts (io s) sc then [sc] else [])\<rparr>)"
proof -
  note inv = kb_invD [OF assms(1)]
  obtain q where q: "stream_ok (Suc n) (io s) q"
    using inv(5) [OF assms(2)] by blast
  note tg = try_get_stream [OF q] and qd = queued_stream [OF q]
  have qi: "aq_inv q" "enat (Suc n) \<le> aq_room q"
    using q by (simp_all add: stream_ok_def)
  show ?thesis
  proof (cases rule: push_step [OF qi, of sc])
    case (1 q')
    let ?k1 = "set_queue q' (io s)"
    have acc: "accepts (io s) sc" and k: "k = wake_keyboard ?k1"
      using tg 1 assms(3) by (simp_all add: accepts_def add_scancode_def)
    have st: "stream_ok n ?k1 q'" "queued ?k1 = queued (io s) @ [sc]"
      using set_queue_stream [OF q 1(2,4,5)] 1(3) qd by simp_all
    show ?thesis
    proof (cases "waker (kb_waker (io s))")
      case None
      then have "k = ?k1"
        by (simp add: k wake_keyboard_eq)
      with None inv ready_ok_less [OF inv(1)] assms(2) acc st show ?thesis
        by (intro kb_invI) (cases "pc s"; auto simp: ready_ok_def)+
    next
      case (Some w)
      then have w: "w = kb"
        using inv(2) by simp
      obtain rq m where rm: "wake_task kb (ready_queue (io s), metrics (io s)) = (rq, m)"
        by (cases "wake_task kb (ready_queue (io s), metrics (io s))")
      note wk = wake_ready [OF inv(1) rm]
      have k': "k = set_ready (rq, m) (take_waker ?k1)"
        using Some w rm by (simp add: k wake_keyboard_eq)
      have "ready_ok n k" "waker (kb_waker k) = None" "ready_queue k = rq" "metrics k = m"
          "stream_ok n k q'" "queued k = queued (io s) @ [sc]"
        using wk(1) st by (simp_all add: k' set_ready_def take_waker_def aw_take_def ready_ok_def
            stream_ok_def queued_def)
      with inv wk(3) assms(2) acc show ?thesis
        by (intro kb_invI) (cases "pc s"; auto)+
    qed
  next
    case 2
    have "\<not> accepts (io s) sc" "k = set_queue q ((io s)\<lparr>console := console (io s) @
        [''WARNING: scancode queue full; dropping keyboard input'']\<rparr>)"
      using tg 2 assms(3) by (simp_all add: accepts_def add_scancode_def)
    moreover from this(2) have "stream_ok n k q" "queued k = queued (io s)"
      using stream_ok_less [OF q] qd by (simp_all add: stream_ok_def set_queue_def queued_def)
    ultimately show ?thesis
      using inv ready_ok_less [OF inv(1)] assms(2) by (intro kb_invI) (auto simp: ready_ok_def)
  qed
qed


lemma pop_scancode_ready:
  assumes "stream_ok n k q" "pop_scancode k = Some (Inr sc, k')"
  shows "\<exists>q'. k' = set_queue q' k \<and> stream_ok n k' q' \<and> queued k = sc # queued k'"
  using pop_scancode_stream [OF assms(1)] assms(2) by (cases "queued k") auto

lemma pop_scancode_empty:
  assumes "stream_ok n k q" "pop_scancode k = Some (Inl e, k')"
  shows "k' = k \<and> queued k = []"
  using pop_scancode_stream [OF assms(1)] assms(2) by (cases "queued k") auto

lemma stream_new_ok:
  assumes "scancode_queue k = once_uninit" "n \<le> usize_bound - 1"
  shows "\<exists>q. stream_new k = Some (k\<lparr>scancode_queue := \<lparr>initialized = True, cell_value = Some q\<rparr>\<rparr>) \<and>
     aq_inv q \<and> aq_capacity q = MAX_SCANCODES \<and> aq_contents q = [] \<and> enat n \<le> aq_room q"
proof -
  obtain q :: "u8 array_queue" where q: "aq_new MAX_SCANCODES = Some q"
    by (simp add: aq_new_def require_def MAX_SCANCODES_def)
  have "MAX_SCANCODES < usize_bound - 1"
    by (simp add: MAX_SCANCODES_def)
  note new = aq_new_inv [OF q this]
  have "enat n \<le> aq_room q"
    using new(4) assms(2) by (meson enat_ord_simps(1) order_trans)
  with new q show ?thesis
    by (intro exI [of _ q]) (simp add: stream_new_def try_init_once_def assms(1) once_uninit_def)
qed

lemma dispatch_inv:
  assumes inv: "kb_inv kb (Suc n) s" and p: "pc s \<in> {Unstarted, Waiting}" and run: "\<not> halted s"
    and pop: "aq_pop (ready_queue (io s)) = Some (Inr i, q)"
  shows "kb_inv kb n (s\<lparr>io := (io s)\<lparr>ready_queue := q\<rparr>,
     pc := (if i = kb then if pc s = Unstarted then Starting else FastPath else pc s)\<rparr>)"
proof -
  note inv = kb_invD [OF inv]
  have rq: "aq_inv (ready_queue (io s))"
    using inv(1) by (simp add: ready_ok_def)
  have "aq_contents (ready_queue (io s)) \<noteq> []"
    using pop aq.pop_empty [OF rq] by auto
  then obtain r where r: "aq_contents (ready_queue (io s)) = i # r"
    using pop aq.pop_first [OF rq] by (cases "aq_contents (ready_queue (io s))") auto
  then have q: "aq_inv q" "aq_contents q = r" "aq_room q = aq_room (ready_queue (io s))"
    using pop aq.pop_first [OF rq r] by auto
  have ok: "ready_ok n ((io s)\<lparr>ready_queue := q\<rparr>)"
    using inv(1) q by (simp add: ready_ok_def enat_le_mono)
  show ?thesis
  proof (cases "pc s = Unstarted")
    case True
    then show ?thesis
      using inv run r ok q(2) by (intro kb_invI) (auto simp: queued_def)
  next
    case False
    with p have "pc s = Waiting" by simp
    moreover from this obtain q1 where "stream_ok n (io s) q1"
      using inv(5) stream_ok_less by auto
    then have "stream_ok n ((io s)\<lparr>ready_queue := q\<rparr>) q1"
      by (simp add: stream_ok_def)
    ultimately show ?thesis
      using inv run r ok q(2) by (intro kb_invI) (auto simp: queued_def)
  qed
qed

lemma poll_inv:
  assumes inv: "kb_inv kb (Suc n) s" and st: "stream_ok n k' q'"
    and p: "pc s \<in> {FastPath, Register, Recheck} \<union> range TakeWaker"
    and same: "ready_queue k' = ready_queue (io s)" "metrics k' = metrics (io s)"
    and w: "waker (kb_waker k') \<in> {None, Some kb}" and p': "p' \<notin> {Unstarted, Starting}"
    and deliver: "d @ in_flight p' @ queued k' = accepted s"
    and link: "dropped_wakes (metrics (io s)) = 0 \<Longrightarrow>
       linked kb p' (waker (kb_waker k')) (queued k') (aq_contents (ready_queue k'))"
  shows "kb_inv kb n (s\<lparr>io := k', pc := p', delivered := d\<rparr>)"
proof (rule kb_invI)
  note inv = kb_invD [OF inv]
  show "ready_ok n (io (s\<lparr>io := k', pc := p', delivered := d\<rparr>))"
    using ready_ok_less [OF inv(1)] same by (simp add: ready_ok_def)
  show "pc (s\<lparr>io := k', pc := p', delivered := d\<rparr>) \<in> {Unstarted, Waiting} \<and>
      aq_contents (ready_queue (io (s\<lparr>io := k', pc := p', delivered := d\<rparr>))) = []"
    if "halted (s\<lparr>io := k', pc := p', delivered := d\<rparr>)"
    using inv(3) that p by auto
qed (use st w p' deliver link same in auto)


lemma stream_started:
  "kb_inv kb (Suc n) s \<Longrightarrow> pc s \<notin> {Unstarted, Starting} \<Longrightarrow> \<exists>q. stream_ok n (io s) q"
  using kb_invD(5) stream_ok_less by blast

lemma pop_ready_inv:
  assumes inv: "kb_inv kb (Suc n) s" and p: "pc s \<in> {FastPath, Recheck}"
    and pop: "pop_scancode (io s) = Some (Inr sc, k)"
    and new: "(p', d) \<in> {(FastPath, delivered s @ [sc]), (TakeWaker sc, delivered s)}"
  shows "kb_inv kb n (s\<lparr>io := k, pc := p', delivered := d\<rparr>)"
proof -
  obtain q0 where q0: "stream_ok n (io s) q0"
    using stream_started [OF inv] p by auto
  obtain q' where q': "k = set_queue q' (io s)" "stream_ok n k q'" "queued (io s) = sc # queued k"
    using pop_scancode_ready [OF q0 pop] by blast
  show ?thesis
    using kb_invD [OF inv] p q' new by (intro poll_inv [OF inv q'(2)]) auto
qed

lemma pop_empty_inv:
  assumes inv: "kb_inv kb (Suc n) s" and p: "(pc s, p') \<in> {(FastPath, Register), (Recheck, Waiting)}"
    and pop: "pop_scancode (io s) = Some (Inl e, k)"
  shows "kb_inv kb n (s\<lparr>io := k, pc := p', delivered := delivered s\<rparr>)"
proof -
  obtain q0 where q0: "stream_ok n (io s) q0"
    using stream_started [OF inv] p by auto
  have "k = io s" "queued (io s) = []"
    using pop_scancode_empty [OF q0 pop] by blast+
  then show ?thesis
    using kb_invD [OF inv] p q0 by (intro poll_inv [OF inv, of _ q0]) auto
qed

text \<open>The two steps that only touch the registered waker.\<close>

lemma waker_inv:
  assumes inv: "kb_inv kb (Suc n) s"
    and p: "(pc s, k, p', d) \<in> {(Register, register_waker kb (io s), Recheck, delivered s)} \<union>
       range (\<lambda>sc. (TakeWaker sc, take_waker (io s), FastPath, delivered s @ [sc]))"
  shows "kb_inv kb n (s\<lparr>io := k, pc := p', delivered := d\<rparr>)"
proof -
  obtain q0 where "stream_ok n (io s) q0"
    using stream_started [OF inv] p by auto
  then have q0: "stream_ok n k q0"
    using p by (auto simp: stream_ok_def register_waker_def take_waker_def)
  show ?thesis
    using kb_invD [OF inv] p by (intro poll_inv [OF inv q0])
      (auto simp: register_waker_def aw_register_def take_waker_def aw_take_def queued_def)
qed

lemma other_wake_inv:
  assumes inv: "kb_inv kb (Suc n) s"
  shows "kb_inv kb n (s\<lparr>io := set_ready (wake_task i (ready_queue (io s), metrics (io s))) (io s),
     halted := False\<rparr>)"
proof -
  note d = kb_invD [OF inv]
  obtain rq m where rm: "wake_task i (ready_queue (io s), metrics (io s)) = (rq, m)"
    by (cases "wake_task i (ready_queue (io s), metrics (io s))")
  note wk = wake_ready [OF d(1) rm]
  have same: "queued (set_ready (rq, m) (io s)) = queued (io s)"
      "scancode_queue (set_ready (rq, m) (io s)) = scancode_queue (io s)"
      "kb_waker (set_ready (rq, m) (io s)) = kb_waker (io s)"
      "ready_queue (set_ready (rq, m) (io s)) = rq" "metrics (set_ready (rq, m) (io s)) = m"
    by (simp_all add: queued_def set_ready_def)
  have "\<exists>q. stream_ok n (set_ready (rq, m) (io s)) q" if "pc s \<notin> {Unstarted, Starting}"
    using stream_started [OF inv that] by (simp add: stream_ok_def same)
  then show ?thesis
    using d wk linked_mono [OF _ wk(2)] unfolding rm by (intro kb_invI) (auto simp: same)
qed

lemma start_inv:
  assumes inv: "kb_inv kb (Suc n) s" and p: "pc s = Starting" and new: "stream_new (io s) = Some k"
  shows "kb_inv kb n (s\<lparr>io := k, pc := FastPath\<rparr>)"
proof -
  note d = kb_invD [OF inv]
  have sq: "scancode_queue (io s) = once_uninit" "n \<le> usize_bound - 1"
    using p d(1,4) by (auto simp: ready_ok_def)
  obtain q1 where q1: "stream_new (io s) = Some ((io s)\<lparr>scancode_queue := \<lparr>initialized = True, cell_value = Some q1\<rparr>\<rparr>)"
      "aq_inv q1" "aq_capacity q1 = MAX_SCANCODES" "aq_contents q1 = []" "enat n \<le> aq_room q1"
    using stream_new_ok [OF sq] by blast
  have "queued (io s) = []"
    by (simp add: queued_def sq(1) once_uninit_def)
  moreover have "stream_ok n k q1" "queued k = []"
    using q1 new by (auto simp: stream_ok_def queued_def)
  ultimately show ?thesis
    using p new d ready_ok_less [OF d(1)] q1 by (auto intro!: kb_invI simp: ready_ok_def)
qed

lemma kb_step_inv:
  assumes "kb_step kb s s'" "kb_inv kb (Suc n) s"
  shows "kb_inv kb n s'"
  using assms(1)
proof (cases rule: kb_step.cases)
  case (key_irq sc k)
  then show ?thesis
    using key_irq_unstarted [OF assms(2)] key_irq_started [OF assms(2)] by blast
next
  case other_irq
  then show ?thesis
    using kb_invD [OF assms(2)] ready_ok_less stream_started [OF assms(2)] by (auto intro!: kb_invI)
next
  case idle
  have "aq_contents (ready_queue (io s)) = []"
    using idle aq.is_empty_iff kb_invD(1) [OF assms(2)] by (auto simp: ready_ok_def)
  then show ?thesis
    using idle kb_invD [OF assms(2)] ready_ok_less stream_started [OF assms(2)] by (auto intro!: kb_invI)
next
  case (fast_ready sc k)
  moreover from this have "s' = s\<lparr>io := k, pc := FastPath, delivered := delivered s @ [sc]\<rparr>"
    by simp
  ultimately show ?thesis
    using pop_ready_inv [OF assms(2)] by simp
next
  case (fast_empty e k)
  then show ?thesis
    using pop_empty_inv [OF assms(2), of Register] by simp
next
  case register
  then show ?thesis
    using waker_inv [OF assms(2), of "register_waker kb (io s)" Recheck "delivered s"] by simp
next
  case (recheck_ready sc k)
  then show ?thesis
    using pop_ready_inv [OF assms(2), of sc k "TakeWaker sc" "delivered s"] by simp
next
  case (recheck_empty e k)
  then show ?thesis
    using pop_empty_inv [OF assms(2), of Waiting] by simp
next
  case (take sc)
  then show ?thesis
    using waker_inv [OF assms(2), of "take_waker (io s)" FastPath "delivered s @ [sc]"] by simp
qed (use dispatch_inv [OF assms(2)] other_wake_inv [OF assms(2)] start_inv [OF assms(2)] in blast)+

text \<open>The number of steps for which the counters of neither queue can wrap.\<close>

definition step_bound :: nat where
  "step_bound = 18446744073709551415"

lemma kb_initial_inv:
  assumes "kb_initial kb s" shows "kb_inv kb step_bound s"
proof (rule kb_invI)
  have "unat (tail (ready_queue (io s))) \<le> 100"
    using assms by (simp add: kb_initial_def word_le_nat_alt)
  then have "step_bound \<le> usize_bound - 1 - unat (tail (ready_queue (io s)))"
    unfolding step_bound_def by linarith
  then have "enat step_bound \<le> aq_room (ready_queue (io s))"
    by (simp add: aq_room_def)
  then show "ready_ok step_bound (io s)"
    using assms by (simp add: ready_ok_def kb_initial_def step_bound_def)
qed (use assms in \<open>auto simp: kb_initial_def aw_new_def queued_def once_uninit_def\<close>)

lemma kb_steps_inv:
  "(kb_step kb ^^ n) s0 s \<Longrightarrow> n \<le> m \<Longrightarrow> kb_inv kb m s0 \<Longrightarrow> kb_inv kb (m - n) s"
proof (induction n arbitrary: s)
  case (Suc n)
  then obtain s1 where s1: "(kb_step kb ^^ n) s0 s1" "kb_step kb s1 s"
    by auto
  have "kb_inv kb (Suc (m - Suc n)) s1"
    using Suc.IH [OF s1(1)] Suc.prems(2,3) by (simp add: Suc_diff_Suc)
  from kb_step_inv [OF s1(2) this] show ?case .
qed simp

lemma kb_reachable_inv:
  assumes "kb_initial kb s0" "(kb_step kb ^^ n) s0 s" "n \<le> step_bound"
  shows "kb_inv kb (step_bound - n) s"
  using kb_steps_inv [OF assms(2,3) kb_initial_inv [OF assms(1)]] .

lemma halted_state:
  assumes "kb_inv kb n s" "halted s" "dropped_wakes (metrics (io s)) = 0"
  shows "pc s = Waiting \<and> queued (io s) = [] \<and> waker (kb_waker (io s)) = Some kb \<and>
     delivered s = accepted s \<and> aq_contents (ready_queue (io s)) = []"
  using kb_invD [OF assms(1)] assms(2,3) by (cases "pc s") auto

subsection \<open>A concrete run\<close>

definition demo_io :: kernel_io where
  "demo_io =
     \<lparr>scancode_queue = once_uninit, kb_waker = aw_new,
      ready_queue = \<lparr>head = 0, tail = 1, buffer = Some 5 # replicate 99 None\<rparr>,
      metrics = monitor_new, console = []\<rparr>"

definition demo_machine :: kb_machine where
  "demo_machine = \<lparr>io = demo_io, pc = Unstarted, halted = False, delivered = [], accepted = []\<rparr>"

lemma demo_initial: "kb_initial 5 demo_machine" "aq_contents (ready_queue (io demo_machine)) = [5]"
  by (simp_all add: kb_initial_def demo_machine_def demo_io_def aq_inv_def aq_len_def aq_slot_def
      aq_contents_def monitor_new_def)

lemma quiet_run:
  assumes init: "kb_initial kb s" and one: "aq_contents (ready_queue (io s)) = [kb]"
  shows "\<exists>s'. (kb_step kb ^^ 6) s s' \<and> halted s' \<and> dropped_wakes (metrics (io s')) = 0"
proof -
  have s: "aq_inv (ready_queue (io s))" "scancode_queue (io s) = once_uninit" "pc s = Unstarted"
      "\<not> halted s" "dropped_wakes (metrics (io s)) = 0"
    using init by (simp_all add: kb_initial_def)
  obtain q where q: "aq_pop (ready_queue (io s)) = Some (Inr kb, q)" "aq_inv q" "aq_contents q = []"
    using aq.pop_first [OF s(1) one] by blast
  let ?k1 = "(io s)\<lparr>ready_queue := q\<rparr>"
  obtain sq where sq: "stream_new ?k1 = Some (?k1\<lparr>scancode_queue := \<lparr>initialized = True, cell_value = Some sq\<rparr>\<rparr>)"
      "aq_inv sq" "aq_capacity sq = MAX_SCANCODES" "aq_contents sq = []" "enat 0 \<le> aq_room sq"
    using stream_new_ok [of ?k1 0] s(2) by auto
  let ?k2 = "?k1\<lparr>scancode_queue := \<lparr>initialized = True, cell_value = Some sq\<rparr>\<rparr>"
  let ?k4 = "register_waker kb ?k2"
  have st: "stream_ok 0 ?k2 sq" "stream_ok 0 ?k4 sq"
    using sq by (simp_all add: stream_ok_def register_waker_def)
  have pop: "pop_scancode ?k2 = Some (Inl PopError, ?k2)" "pop_scancode ?k4 = Some (Inl PopError, ?k4)"
    using pop_scancode_stream [OF st(1)] pop_scancode_stream [OF st(2)]
      queued_stream [OF st(1)] queued_stream [OF st(2)] sq(4) by auto
  let ?s1 = "s\<lparr>io := ?k1, pc := Starting\<rparr>" and ?s2 = "s\<lparr>io := ?k2, pc := FastPath\<rparr>"
  let ?s3 = "s\<lparr>io := ?k2, pc := Register\<rparr>" and ?s4 = "s\<lparr>io := ?k4, pc := Recheck\<rparr>"
  let ?s5 = "s\<lparr>io := ?k4, pc := Waiting\<rparr>" and ?s6 = "s\<lparr>io := ?k4, pc := Waiting, halted := True\<rparr>"
  have 1: "kb_step kb s ?s1"
    using kb_step.dispatch [of s kb q kb] s q(1) by simp
  have 2: "kb_step kb ?s1 ?s2"
    using kb_step.start [of ?s1 ?k2 kb] sq(1) by simp
  have 3: "kb_step kb ?s2 ?s3"
    using kb_step.fast_empty [of ?s2 _ ?k2 kb] pop(1) by simp
  have 4: "kb_step kb ?s3 ?s4"
    using kb_step.register [of ?s3 kb] by simp
  have 5: "kb_step kb ?s4 ?s5"
    using kb_step.recheck_empty [of ?s4 _ ?k4 kb] pop(2) by simp
  have "aq_is_empty (ready_queue (io ?s5))"
    using aq.is_empty_iff [OF q(2)] q(3) by (simp add: register_waker_def)
  then have 6: "kb_step kb ?s5 ?s6"
    using kb_step.idle [of ?s5 kb] s(4) by simp
  have "(kb_step kb ^^ 6) s ?s6"
    using 1 2 3 4 5 6 by (auto simp: numeral_eq_Suc intro!: relcomppI)
  then show ?thesis
    using s(5) by (intro exI [of _ ?s6]) (simp add: register_waker_def)
qed

subsection \<open>Properties\<close>

text \<open>
  C4 (safety). No wake-up is lost: if no wake was dropped because the executor's queue was full, then
  whenever the processor halts, every accepted scancode has been delivered to the reading task, in
  order, and the task is registered to be woken by the next one.
\<close>

theorem keyboard_no_lost_wakeup:
  assumes "kb_initial kb s0" "(kb_step kb ^^ n) s0 s" "n \<le> step_bound"
    and "halted s" "dropped_wakes (metrics (io s)) = 0"
  shows "delivered s = accepted s \<and> queued (io s) = [] \<and> waker (kb_waker (io s)) = Some kb"
  using halted_state [OF kb_reachable_inv [OF assms(1-3)] assms(4,5)] by blast

theorem keyboard_no_lost_wakeup_witness:
  "\<exists>s. (kb_step 5 ^^ 6) demo_machine s \<and> halted s \<and> waker (kb_waker (io s)) = Some 5"
proof -
  obtain s where s: "(kb_step 5 ^^ 6) demo_machine s" "halted s" "dropped_wakes (metrics (io s)) = 0"
    using quiet_run [OF demo_initial] by blast
  have "6 \<le> step_bound"
    by (simp add: step_bound_def)
  from keyboard_no_lost_wakeup [OF demo_initial(1) s(1) this s(2,3)] s show ?thesis
    by blast
qed

lemma key_in_halt:
  assumes inv: "kb_inv kb (Suc m) s" and h: "halted s" "dropped_wakes (metrics (io s)) = 0"
  shows "\<exists>k rq. add_scancode sc (io s) = Some k \<and> ready_queue k = rq \<and> aq_inv rq \<and> aq_contents rq = [kb] \<and>
     queued k = [sc] \<and> (\<exists>q. stream_ok m k q)"
proof -
  note st = halted_state [OF inv h]
  obtain q where q: "stream_ok (Suc m) (io s) q"
    using kb_invD(5) [OF inv] st by auto
  have qi: "aq_inv q" "enat (Suc m) \<le> aq_room q" "aq_contents q = []" "aq_capacity q = 100"
    using q queued_stream [OF q] st by (simp_all add: stream_ok_def MAX_SCANCODES_def)
  obtain q' where q': "aq_push q sc = (Inr (), q')" "aq_inv q'" "aq_contents q' = [sc]"
      "aq_capacity q' = aq_capacity q" "enat m \<le> aq_room q'"
    by (cases rule: push_step [OF qi(1,2), of sc]) (use qi in auto)
  have ri: "aq_inv (ready_queue (io s))" "enat (Suc m) \<le> aq_room (ready_queue (io s))"
    using kb_invD(1) [OF inv] by (simp_all add: ready_ok_def)
  obtain rq where rq: "aq_push (ready_queue (io s)) kb = (Inr (), rq)" "aq_inv rq" "aq_contents rq = [kb]"
    by (cases rule: push_step [OF ri, of kb]) (use st ri in \<open>auto simp: aq_inv_def aq_capacity_def\<close>)
  let ?k1 = "set_queue q' (io s)"
  have "add_scancode sc (io s) = Some (wake_keyboard ?k1)"
    using try_get_stream [OF q] q'(1) by (simp add: add_scancode_def)
  moreover have "wake_keyboard ?k1 = set_ready (rq, metrics (io s)) (take_waker ?k1)"
    using st rq(1) by (simp add: wake_keyboard_eq wake_task_def)
  moreover have "stream_ok m (set_ready (rq, metrics (io s)) (take_waker ?k1)) q'"
      "queued (set_ready (rq, metrics (io s)) (take_waker ?k1)) = [sc]"
    using set_queue_stream [OF q q'(2,4,5)] q'(3)
    by (simp_all add: stream_ok_def queued_def set_ready_def take_waker_def)
  ultimately show ?thesis
    using rq(2,3) by (auto simp: set_ready_def)
qed



text \<open>
  C25 (safety). Bytes are delivered in the order they were accepted, none twice and none invented, and
  no operation of the handler or of the stream panics.
\<close>

theorem keyboard_in_order:
  assumes "kb_initial kb s0" "(kb_step kb ^^ n) s0 s" "n \<le> step_bound"
  shows "delivered s @ in_flight (pc s) @ queued (io s) = accepted s \<and>
     add_scancode sc (io s) \<noteq> None \<and>
     (pc s = Starting \<longrightarrow> stream_new (io s) \<noteq> None) \<and>
     (pc s \<in> {FastPath, Recheck} \<longrightarrow> pop_scancode (io s) \<noteq> None)"
proof -
  have inv: "kb_inv kb (step_bound - n) s"
    using kb_reachable_inv [OF assms] .
  have "add_scancode sc (io s) \<noteq> None"
  proof (cases "pc s \<in> {Unstarted, Starting}")
    case True
    then show ?thesis
      using kb_invD(4) [OF inv] by (simp add: add_scancode_def try_get_def once_uninit_def)
  next
    case False
    then show ?thesis
      using kb_invD(5) [OF inv] try_get_stream by (fastforce simp: add_scancode_def split: prod.splits sum.splits)
  qed
  moreover have "pop_scancode (io s) \<noteq> None" if "pc s \<in> {FastPath, Recheck}"
  proof -
    have "pc s \<notin> {Unstarted, Starting}"
      using that by auto
    then obtain q where "stream_ok (step_bound - n) (io s) q"
      using kb_invD(5) [OF inv] by blast
    from pop_scancode_stream [OF this] show ?thesis by auto
  qed
  moreover have "stream_new (io s) \<noteq> None" if "pc s = Starting"
    using stream_new_ok [of "io s" 0] kb_invD(4) [OF inv] that by auto
  ultimately show ?thesis
    using kb_invD(6) [OF inv] by blast
qed

theorem keyboard_in_order_witness:
  "\<exists>s. (kb_step 5 ^^ 6) demo_machine s \<and> delivered s @ in_flight (pc s) @ queued (io s) = accepted s"
proof -
  obtain s where s: "(kb_step 5 ^^ 6) demo_machine s"
    using quiet_run [OF demo_initial] by blast
  have "6 \<le> step_bound"
    by (simp add: step_bound_def)
  from keyboard_in_order [OF demo_initial(1) s this] s show ?thesis
    by blast
qed



definition demo_polled :: kb_machine where
  "demo_polled =
     demo_machine\<lparr>pc := FastPath,
       io := demo_io\<lparr>scancode_queue :=
         \<lparr>initialized = True, cell_value = Some \<lparr>head = 0, tail = 1, buffer = [Some 30]\<rparr>\<rparr>\<rparr>\<rparr>"

lemma demo_polled_next: "\<exists>k. poll_next 5 (io demo_polled) = Some (Some 30, k)" "pc demo_polled = FastPath"
  by (simp_all add: demo_polled_def poll_next_def pop_scancode_def try_get_def aq_pop_def Let_def)


text \<open>A waiting task that is neither queued nor registered.\<close>

definition kb_dead :: "task_id \<Rightarrow> nat \<Rightarrow> kb_machine \<Rightarrow> bool" where
  "kb_dead kb m s \<longleftrightarrow>
     pc s = Waiting \<and> waker (kb_waker (io s)) = None \<and> ready_ok m (io s) \<and>
     kb \<notin> set (aq_contents (ready_queue (io s)))"

lemma add_scancode_no_waker:
  assumes "add_scancode sc k = Some k'" "waker (kb_waker k) = None"
  shows "kb_waker k' = kb_waker k" "ready_queue k' = ready_queue k" "metrics k' = metrics k"
  using assms by (auto simp: add_scancode_def wake_keyboard_eq split: bind_splits sum.splits prod.splits)

lemma wake_contents:
  "aq_inv q \<Longrightarrow> enat (Suc n) \<le> aq_room q \<Longrightarrow> wake_task i (q, m) = (q', m') \<Longrightarrow>
     set (aq_contents q') \<subseteq> insert i (set (aq_contents q))"
  by (cases rule: push_step [of q n i]) (auto simp: wake_task_def)

lemma kb_dead_step:
  assumes "kb_step kb s s'" "kb_dead kb (Suc m) s"
  shows "kb_dead kb m s' \<and> delivered s' = delivered s"
proof -
  have d: "pc s = Waiting" "waker (kb_waker (io s)) = None" "ready_ok (Suc m) (io s)"
      "kb \<notin> set (aq_contents (ready_queue (io s)))"
    using assms(2) by (simp_all add: kb_dead_def)
  note less = ready_ok_less [OF d(3)]
  from assms(1) show ?thesis
  proof (cases rule: kb_step.cases)
    case (key_irq sc k)
    then show ?thesis
      using add_scancode_no_waker [OF key_irq(2) d(2)] d less by (simp add: kb_dead_def ready_ok_def)
  next
    case (other_wake i)
    obtain rq m' where rm: "wake_task i (ready_queue (io s), metrics (io s)) = (rq, m')"
      by (cases "wake_task i (ready_queue (io s), metrics (io s))")
    have "kb \<notin> set (aq_contents rq)"
      using wake_contents [OF _ _ rm] d(3,4) other_wake(2) by (auto simp: ready_ok_def)
    then show ?thesis
      using other_wake d wake_ready(1) [OF d(3) rm] by (simp add: kb_dead_def rm set_ready_def)
  next
    case (dispatch i q)
    have rq: "aq_inv (ready_queue (io s))"
      using d(3) by (simp add: ready_ok_def)
    have "aq_contents (ready_queue (io s)) \<noteq> []"
      using dispatch(4) aq.pop_empty [OF rq] by auto
    then obtain r where r: "aq_contents (ready_queue (io s)) = i # r"
      using dispatch(4) aq.pop_first [OF rq] by (cases "aq_contents (ready_queue (io s))") auto
    then have "aq_inv q" "aq_contents q = r" "aq_room q = aq_room (ready_queue (io s))"
      using dispatch(4) aq.pop_first [OF rq r] by auto
    then show ?thesis
      using dispatch(1) d r by (auto simp: kb_dead_def ready_ok_def enat_le_mono)
  qed (use d less in \<open>simp_all add: kb_dead_def\<close>)
qed

lemma kb_dead_steps:
  "(kb_step kb ^^ n) s s' \<Longrightarrow> n \<le> m \<Longrightarrow> kb_dead kb m s \<Longrightarrow>
     kb_dead kb (m - n) s' \<and> delivered s' = delivered s"
proof (induction n arbitrary: s')
  case (Suc n)
  then obtain s1 where s1: "(kb_step kb ^^ n) s s1" "kb_step kb s1 s'"
    by auto
  have d: "kb_dead kb (Suc (m - Suc n)) s1" "delivered s1 = delivered s"
    using Suc.IH [OF s1(1)] Suc.prems(2,3) by (simp_all add: Suc_diff_Suc)
  from kb_dead_step [OF s1(2) d(1)] d(2) show ?case by simp
qed simp

lemma dropped_wake_dead:
  assumes inv: "kb_inv kb (Suc m) s" "pc s = Waiting" "waker (kb_waker (io s)) = Some kb" "queued (io s) = []"
    and full: "length (aq_contents (ready_queue (io s))) = aq_capacity (ready_queue (io s))"
      "kb \<notin> set (aq_contents (ready_queue (io s)))"
    and key: "add_scancode sc (io s) = Some k"
  shows "kb_dead kb m (s\<lparr>io := k, halted := h, accepted := acc\<rparr>)"
proof -
  obtain q where q: "stream_ok (Suc m) (io s) q"
    using kb_invD(5) [OF inv(1)] inv(2) by auto
  have qi: "aq_inv q" "enat (Suc m) \<le> aq_room q" "aq_contents q = []" "aq_capacity q = 100"
    using q queued_stream [OF q] inv(4) by (simp_all add: stream_ok_def MAX_SCANCODES_def)
  obtain q' where q': "aq_push q sc = (Inr (), q')"
    by (cases rule: push_step [OF qi(1,2), of sc]) (use qi in auto)
  let ?k1 = "set_queue q' (io s)"
  obtain rq m' where rm: "wake_task kb (ready_queue (io s), metrics (io s)) = (rq, m')"
    by (cases "wake_task kb (ready_queue (io s), metrics (io s))")
  have "k = set_ready (rq, m') (take_waker ?k1)"
    using try_get_stream [OF q] q' inv(3) key rm by (simp add: add_scancode_def wake_keyboard_eq)
  moreover have "rq = ready_queue (io s)"
    using rm aq.push_full [of "ready_queue (io s)" kb] full kb_invD(1) [OF inv(1)]
    by (simp add: wake_task_def ready_ok_def)
  ultimately show ?thesis
    using wake_ready(1) [OF kb_invD(1) [OF inv(1)] rm] full(2) inv(2)
    by (simp add: kb_dead_def set_ready_def take_waker_def aw_take_def ready_ok_def)
qed


definition full_io :: kernel_io where
  "full_io =
     \<lparr>scancode_queue = \<lparr>initialized = True,
        cell_value = Some \<lparr>head = 0, tail = 0, buffer = replicate MAX_SCANCODES None\<rparr>\<rparr>,
      kb_waker = \<lparr>waker = Some 5\<rparr>,
      ready_queue = \<lparr>head = 0, tail = 1, buffer = [Some 7]\<rparr>,
      metrics = monitor_new, console = []\<rparr>"

definition full_machine :: kb_machine where
  "full_machine = \<lparr>io = full_io, pc = Waiting, halted = False, delivered = [], accepted = []\<rparr>"

lemma full_machine_inv:
  "kb_inv 5 (Suc 1) full_machine" "pc full_machine = Waiting"
  "waker (kb_waker (io full_machine)) = Some 5" "queued (io full_machine) = []"
  "length (aq_contents (ready_queue (io full_machine))) = aq_capacity (ready_queue (io full_machine))"
  "5 \<notin> set (aq_contents (ready_queue (io full_machine)))"
  "\<exists>k. add_scancode 30 (io full_machine) = Some k"
proof -
  have r: "aq_inv \<lparr>head = 0, tail = 1, buffer = [Some (7::u64)]\<rparr>"
      "aq_contents \<lparr>head = 0, tail = 1, buffer = [Some (7::u64)]\<rparr> = [7]"
    by (simp_all add: aq_inv_def aq_len_def aq_slot_def aq_contents_def)
  have q: "aq_inv \<lparr>head = 0, tail = 0, buffer = replicate MAX_SCANCODES (None :: u8 option)\<rparr>"
      "aq_contents \<lparr>head = 0, tail = 0, buffer = replicate MAX_SCANCODES (None :: u8 option)\<rparr> = []"
    by (simp_all add: aq_inv_def aq_len_def aq_contents_def MAX_SCANCODES_def del: replicate_Suc)
  show "kb_inv 5 (Suc 1) full_machine"
  proof (rule kb_invI)
    show "ready_ok (Suc 1) (io full_machine)"
      using r by (simp add: ready_ok_def full_machine_def full_io_def monitor_new_def aq_room_def)
    show "if pc full_machine \<in> {Unstarted, Starting} then scancode_queue (io full_machine) = once_uninit
        else \<exists>q. stream_ok (Suc 1) (io full_machine) q"
    proof -
      have "stream_ok (Suc 1) (io full_machine) \<lparr>head = 0, tail = 0, buffer = replicate MAX_SCANCODES None\<rparr>"
        using q by (simp add: full_machine_def full_io_def stream_ok_def aq_capacity_def aq_room_def)
      then show ?thesis
        by (auto simp: full_machine_def)
    qed
  qed (use q in \<open>simp_all add: full_machine_def full_io_def queued_def\<close>)
  show "pc full_machine = Waiting" "waker (kb_waker (io full_machine)) = Some 5"
      "queued (io full_machine) = []" "5 \<notin> set (aq_contents (ready_queue (io full_machine)))"
      "length (aq_contents (ready_queue (io full_machine))) = aq_capacity (ready_queue (io full_machine))"
    using q r by (simp_all add: full_machine_def full_io_def queued_def aq_capacity_def)
  show "\<exists>k. add_scancode 30 (io full_machine) = Some k"
    by (auto simp: add_scancode_def full_machine_def full_io_def try_get_def split: prod.splits sum.splits)
qed


end
