(* ===== verification/Alloc_Interface.thy ===== *)
theory Alloc_Interface
  imports Prelude
begin

text \<open>
  What the three heap allocators of \<^verbatim>\<open>kernel/src/allocator\<close> share: the layout of a request,
  \<^verbatim>\<open>align_up\<close>, and the contract of \<^verbatim>\<open>GlobalAlloc\<close> as an interface.  A pointer is its
  address, the null pointer is 0.
\<close>

unbundle bit_operations_syntax

subsection \<open>Layouts\<close>

record layout =
  lsize :: nat
  lalign :: nat

definition is_power_of_two :: "nat \<Rightarrow> bool" where
  "is_power_of_two n \<longleftrightarrow> n > 0 \<and> n AND (n - 1) = 0"

text \<open>The invariant of \<^verbatim>\<open>core::alloc::Layout\<close>.\<close>

definition layout_ok :: "layout \<Rightarrow> bool" where
  "layout_ok l \<longleftrightarrow> is_power_of_two (lalign l) \<and> lsize l + lalign l \<le> 9223372036854775808"

definition align_up :: "nat \<Rightarrow> nat \<Rightarrow> nat option" where
  "align_up addr align =
     do { require (is_power_of_two align);
          a \<leftarrow> uadd addr align;
          b \<leftarrow> usub a 1;
          c \<leftarrow> usub align 1;
          Some (unat ((of_nat b :: u64) AND NOT (of_nat c))) }"

definition sized_layout :: "layout \<Rightarrow> bool" where
  "sized_layout l \<longleftrightarrow> layout_ok l \<and> 0 < lsize l"

subsection \<open>The contract\<close>

text \<open>
  One step of a program that uses an allocator: an allocation, the return of a live pointer with the
  layout it was allocated with, or a write of one memory cell inside a live region.  \<open>live\<close>
  holds the pointers handed out with their layouts.
\<close>

inductive heap_step ::
    "(layout \<Rightarrow> bool) \<Rightarrow> (layout \<Rightarrow> 's \<Rightarrow> (nat \<times> 's) option) \<Rightarrow> (nat \<Rightarrow> layout \<Rightarrow> 's \<Rightarrow> 's option) \<Rightarrow>
     nat \<Rightarrow> (nat \<Rightarrow> 'v \<Rightarrow> 's \<Rightarrow> 's) \<Rightarrow> 's \<times> (nat \<times> layout) set \<Rightarrow> 's \<times> (nat \<times> layout) set \<Rightarrow> bool"
  for admissible :: "layout \<Rightarrow> bool" and alloc :: "layout \<Rightarrow> 's \<Rightarrow> (nat \<times> 's) option"
    and dealloc :: "nat \<Rightarrow> layout \<Rightarrow> 's \<Rightarrow> 's option" and width :: nat
    and store :: "nat \<Rightarrow> 'v \<Rightarrow> 's \<Rightarrow> 's"
where
  heap_alloc:
    "admissible l \<Longrightarrow> alloc l s = Some (p, s') \<Longrightarrow>
       heap_step admissible alloc dealloc width store (s, live)
         (s', if p = 0 then live else insert (p, l) live)"
| heap_dealloc:
    "(p, l) \<in> live \<Longrightarrow> dealloc p l s = Some s' \<Longrightarrow>
       heap_step admissible alloc dealloc width store (s, live) (s', live - {(p, l)})"
| heap_write:
    "(p, l) \<in> live \<Longrightarrow> p \<le> a \<Longrightarrow> a + width \<le> p + lsize l \<Longrightarrow>
       heap_step admissible alloc dealloc width store (s, live) (store a v s, live)"

text \<open>The live regions are where the caller may expect them.\<close>

definition live_ok :: "(nat \<times> layout) set \<Rightarrow> nat \<Rightarrow> nat \<Rightarrow> bool" where
  "live_ok live lo hi \<longleftrightarrow>
     (\<forall>p \<in> live. lalign (snd p) dvd fst p \<and> lo \<le> fst p \<and> fst p + lsize (snd p) \<le> hi) \<and>
     (\<forall>p \<in> live. \<forall>q \<in> live. p \<noteq> q \<longrightarrow>
        fst p + lsize (snd p) \<le> fst q \<or> fst q + lsize (snd q) \<le> fst p)"

lemma live_okI:
  assumes "\<And>p l. (p, l) \<in> live \<Longrightarrow> lalign l dvd p \<and> lo \<le> p \<and> p + lsize l \<le> hi"
    and "\<And>p l q m. (p, l) \<in> live \<Longrightarrow> (q, m) \<in> live \<Longrightarrow> (p, l) \<noteq> (q, m) \<Longrightarrow>
           p + lsize l \<le> q \<or> q + lsize m \<le> p"
  shows "live_ok live lo hi"
  unfolding live_ok_def using assms by (auto simp: split_paired_all)

lemma live_okD:
  assumes "live_ok live lo hi"
  shows "(p, l) \<in> live \<Longrightarrow> lalign l dvd p \<and> lo \<le> p \<and> p + lsize l \<le> hi"
    and "(p, l) \<in> live \<Longrightarrow> (q, m) \<in> live \<Longrightarrow> (p, l) \<noteq> (q, m) \<Longrightarrow>
           p + lsize l \<le> q \<or> q + lsize m \<le> p"
  using assms unfolding live_ok_def by (force, metis fst_conv snd_conv)

lemma live_ok_mono: "live_ok live lo hi \<Longrightarrow> live' \<subseteq> live \<Longrightarrow> hi \<le> hi' \<Longrightarrow> live_ok live' lo hi'"
  unfolding live_ok_def by (meson le_trans subsetD)

lemma live_ok_insert:
  assumes "live_ok live lo hi" "lalign l dvd p" "lo \<le> p" "p + lsize l \<le> hi"
    and "\<And>q m. (q, m) \<in> live \<Longrightarrow> p + lsize l \<le> q \<or> q + lsize m \<le> p"
  shows "live_ok (insert (p, l) live) lo hi"
  using assms live_okD [OF assms(1)] by (intro live_okI) (auto; metis)+

lemma layout_okD: "layout_ok l \<Longrightarrow> is_power_of_two (lalign l) \<and> 0 < lalign l \<and> lalign l \<le> 9223372036854775808"
  by (auto simp: layout_ok_def is_power_of_two_def)


locale global_alloc =
  fixes inv :: "'s \<Rightarrow> (nat \<times> layout) set \<Rightarrow> bool"
    and lo hi :: nat
    and admissible :: "layout \<Rightarrow> bool"
    and alloc :: "layout \<Rightarrow> 's \<Rightarrow> (nat \<times> 's) option"
    and dealloc :: "nat \<Rightarrow> layout \<Rightarrow> 's \<Rightarrow> 's option"
    and width :: nat
    and store :: "nat \<Rightarrow> 'v \<Rightarrow> 's \<Rightarrow> 's"
  assumes alloc_returns: "inv s live \<Longrightarrow> admissible l \<Longrightarrow> \<exists>p s'. alloc l s = Some (p, s')"
    and alloc_null: "inv s live \<Longrightarrow> admissible l \<Longrightarrow> alloc l s = Some (0, s') \<Longrightarrow> inv s' live"
    and alloc_some:
      "inv s live \<Longrightarrow> admissible l \<Longrightarrow> alloc l s = Some (p, s') \<Longrightarrow> p \<noteq> 0 \<Longrightarrow> inv s' (insert (p, l) live)"
    and dealloc_returns:
      "inv s live \<Longrightarrow> (p, l) \<in> live \<Longrightarrow> \<exists>s'. dealloc p l s = Some s' \<and> inv s' (live - {(p, l)})"
    and write_inv:
      "inv s live \<Longrightarrow> (p, l) \<in> live \<Longrightarrow> p \<le> a \<Longrightarrow> a + width \<le> p + lsize l \<Longrightarrow> inv (store a v s) live"
    and inv_live: "inv s live \<Longrightarrow> live_ok live lo hi"
begin

lemma step_inv:
  assumes "heap_step admissible alloc dealloc width store (s, live) (s', live')" "inv s live"
  shows "inv s' live'"
  using assms(1)
proof (cases rule: heap_step.cases)
  case (heap_alloc l p)
  then show ?thesis
    using alloc_null [OF assms(2)] alloc_some [OF assms(2)] by (cases "p = 0") auto
next
  case (heap_dealloc p l)
  then show ?thesis
    using dealloc_returns [OF assms(2)] by fastforce
next
  case (heap_write p l a v)
  then show ?thesis
    using write_inv [OF assms(2)] by blast
qed

text \<open>Over every sequence of steps no two live regions overlap and no operation panics.\<close>

lemma steps_inv:
  assumes "(heap_step admissible alloc dealloc width store)\<^sup>*\<^sup>* (s, live) (s', live')" "inv s live"
  shows "inv s' live'"
  using assms by (induction rule: rtranclp_induct2) (auto dest: step_inv)

lemma steps_safe:
  assumes "(heap_step admissible alloc dealloc width store)\<^sup>*\<^sup>* (s, live) (s', live')" "inv s live"
  shows "live_ok live' lo hi"
    "admissible l \<Longrightarrow> alloc l s' \<noteq> None" "(p, l) \<in> live' \<Longrightarrow> dealloc p l s' \<noteq> None"
proof -
  note inv = steps_inv [OF assms]
  show "live_ok live' lo hi"
    using inv_live [OF inv] .
  show "alloc l s' \<noteq> None" if "admissible l"
    using alloc_returns [OF inv that] by auto
  show "dealloc p l s' \<noteq> None" if "(p, l) \<in> live'"
    using dealloc_returns [OF inv that] by auto
qed

end

subsection \<open>Powers of two and alignment\<close>

lemma is_power_of_two_iff: "is_power_of_two n \<longleftrightarrow> (\<exists>k. n = 2 ^ k)"
proof
  assume pow: "is_power_of_two n"
  define k where "k = bit_len n - 1"
  have n: "2 ^ k \<le> n" "n < 2 * 2 ^ k"
    using pow bit_len_bounds [of n] by (cases "bit_len n"; auto simp: is_power_of_two_def k_def)+
  have "n = 2 ^ k"
  proof (rule ccontr)
    assume "n \<noteq> 2 ^ k"
    then have "n div 2 ^ k = 1" "(n - 1) div 2 ^ k = 1"
      using n by (auto intro!: Euclidean_Rings.div_nat_eqI)
    then have "bit n k" "bit (n - 1) k"
      by (simp_all add: bit_iff_odd)
    then have "bit (n AND (n - 1)) k"
      unfolding bit_and_iff by blast
    with pow show False
      by (simp add: is_power_of_two_def)
  qed
  then show "\<exists>k. n = 2 ^ k" ..
next
  assume "\<exists>k. n = 2 ^ k"
  then obtain k where k: "n = 2 ^ k" ..
  have "(2 ^ k :: nat) AND mask k = 0"
    by (simp flip: take_bit_eq_mask)
  then show "is_power_of_two n"
    by (simp add: is_power_of_two_def k mask_eq_exp_minus_1)
qed

lemma unat_and_not_mask: "unat ((x :: u64) AND NOT (mask k)) = unat x div 2 ^ k * 2 ^ k"
proof -
  have "unat (x AND NOT (mask k)) = push_bit k (drop_bit k (unat x))"
    by (rule bit_eqI)
      (auto simp: bit_unsigned_iff bit_and_iff bit_not_iff bit_mask_iff bit_push_bit_iff bit_drop_bit_eq
        dest: bit_imp_le_length)
  then show ?thesis
    by (simp add: push_bit_eq_mult drop_bit_eq_div)
qed

definition round_up :: "nat \<Rightarrow> nat \<Rightarrow> nat" where
  "round_up addr align = (addr + align - 1) div align * align"

lemma align_up_eq:
  assumes "is_power_of_two align" "addr + align < usize_bound"
  shows "align_up addr align = Some (round_up addr align)"
proof -
  obtain k where k: "align = 2 ^ k"
    using assms(1) is_power_of_two_iff by blast
  have "0 < align"
    by (simp add: k)
  have m: "(of_nat (align - 1) :: u64) = mask k"
    by (simp add: k mask_eq_exp_minus_1 of_nat_diff)
  have b: "unat (of_nat (addr + align - 1) :: u64) = addr + align - 1"
    using assms(2) by (simp add: unsigned_of_nat take_bit_nat_eq_self)
  have "align_up addr align = Some (unat ((of_nat (addr + align - 1) :: u64) AND NOT (of_nat (align - 1))))"
    using assms \<open>0 < align\<close> by (simp add: align_up_def checked_eqs)
  also have "\<dots> = Some (round_up addr align)"
    by (simp only: m unat_and_not_mask b round_up_def) (simp add: k)
  finally show ?thesis .
qed

lemma round_up_props:
  assumes "0 < align"
  shows "align dvd round_up addr align" "addr \<le> round_up addr align" "round_up addr align < addr + align"
proof -
  show "align dvd round_up addr align"
    by (simp add: round_up_def)
  have "(addr + align - 1) div align * align + (addr + align - 1) mod align = addr + align - 1"
      "(addr + align - 1) mod align < align"
    using assms by simp_all
  then show "addr \<le> round_up addr align" "round_up addr align < addr + align"
    unfolding round_up_def using assms by linarith+
qed

lemma round_up_dvd: "align dvd addr \<Longrightarrow> 0 < align \<Longrightarrow> round_up addr align = addr"
  by (auto simp: round_up_def elim!: dvdE intro!: Euclidean_Rings.div_nat_eqI)

lemma round_up_mono_dvd: "d dvd align \<Longrightarrow> d dvd round_up addr align"
  by (simp add: round_up_def)

end
