(* ===== verification/Bump.thy ===== *)
theory Bump
  imports Alloc_Interface "HOL-Library.Code_Target_Nat"
begin

text \<open>
  \<^verbatim>\<open>kernel/src/allocator/bump.rs\<close>: the bump allocator, and the proof that it keeps the
  contract of \<^verbatim>\<open>GlobalAlloc\<close>.
\<close>

record bump =
  heap_start :: nat
  heap_end :: nat
  bump_next :: nat
  allocations :: nat

definition bump_new :: bump where
  "bump_new = \<lparr>heap_start = 0, heap_end = 0, bump_next = 0, allocations = 0\<rparr>"

definition bump_init :: "nat \<Rightarrow> nat \<Rightarrow> bump \<Rightarrow> bump option" where
  "bump_init start heap_size b =
     do { e \<leftarrow> uadd start heap_size;
          Some (b\<lparr>heap_start := start, heap_end := e, bump_next := start\<rparr>) }"

definition bump_alloc :: "layout \<Rightarrow> bump \<Rightarrow> (nat \<times> bump) option" where
  "bump_alloc l b =
     do { alloc_start \<leftarrow> align_up (bump_next b) (lalign l);
          case uadd alloc_start (lsize l) of
            None \<Rightarrow> Some (0, b)
          | Some alloc_end \<Rightarrow>
              if alloc_end > heap_end b then Some (0, b)
              else do { n \<leftarrow> uadd (allocations b) 1;
                        Some (alloc_start, b\<lparr>bump_next := alloc_end, allocations := n\<rparr>) } }"

definition bump_dealloc :: "nat \<Rightarrow> layout \<Rightarrow> bump \<Rightarrow> bump option" where
  "bump_dealloc p l b =
     do { n \<leftarrow> usub (allocations b) 1;
          let b = b\<lparr>allocations := n\<rparr>;
          Some (if n = 0 then b\<lparr>bump_next := heap_start b\<rparr> else b) }"

subsection \<open>Invariant\<close>

text \<open>
  Every live region lies between the start of the heap and \<^verbatim>\<open>next\<close>, and
  \<^verbatim>\<open>allocations\<close> counts the live regions.
\<close>

definition bump_inv :: "nat \<Rightarrow> nat \<Rightarrow> bump \<Rightarrow> (nat \<times> layout) set \<Rightarrow> bool" where
  "bump_inv lo hi b live \<longleftrightarrow>
     0 < lo \<and> hi < 9223372036854775808 \<and>
     heap_start b = lo \<and> heap_end b = hi \<and> lo \<le> bump_next b \<and> bump_next b \<le> hi \<and>
     finite live \<and> allocations b = card live \<and> card live \<le> bump_next b - lo \<and>
     live_ok live lo (bump_next b)"

lemma bump_alloc_cases:
  assumes inv: "bump_inv lo hi b live" and l: "sized_layout l"
  defines "start \<equiv> round_up (bump_next b) (lalign l)"
  shows "bump_alloc l b =
     (if start + lsize l \<le> hi
      then Some (start, b\<lparr>bump_next := start + lsize l, allocations := Suc (card live)\<rparr>)
      else Some (0, b))"
proof -
  have pow: "is_power_of_two (lalign l)" "0 < lalign l" "lalign l \<le> 9223372036854775808"
    using l layout_okD by (auto simp: sized_layout_def)
  have nxt: "bump_next b \<le> hi" "hi < 9223372036854775808" "heap_end b = hi" "allocations b = card live"
      "card live \<le> bump_next b"
    using inv by (auto simp: bump_inv_def)
  then have "align_up (bump_next b) (lalign l) = Some start"
    unfolding start_def using pow by (intro align_up_eq) simp_all
  then show ?thesis
    using nxt by (auto simp: bump_alloc_def uadd_def)
qed

lemma bump_alloc_some:
  assumes inv: "bump_inv lo hi b live" and l: "sized_layout l"
    and alloc: "bump_alloc l b = Some (p, b')" "p \<noteq> 0"
  shows "bump_inv lo hi b' (insert (p, l) live)" "(p, l) \<notin> live" "bump_next b \<le> p"
proof -
  define start where "start = round_up (bump_next b) (lalign l)"
  have p: "p = start" "start + lsize l \<le> hi"
      and b': "b' = b\<lparr>bump_next := start + lsize l, allocations := Suc (card live)\<rparr>"
    using bump_alloc_cases [OF inv l] alloc by (auto simp: start_def split: if_splits)
  have start: "lalign l dvd start" "bump_next b \<le> start"
    using l layout_okD round_up_props by (auto simp: start_def sized_layout_def)
  have sz: "0 < lsize l"
    using l by (simp add: sized_layout_def)
  have ok: "live_ok live lo (bump_next b)"
    using inv by (simp add: bump_inv_def)
  show fresh: "(p, l) \<notin> live"
    using live_okD(1) [OF ok, of p l] start(2) sz unfolding p by linarith
  show "bump_next b \<le> p"
    using start p by simp
  have "live_ok (insert (p, l) live) lo (start + lsize l)"
  proof (rule live_ok_insert)
    show "live_ok live lo (start + lsize l)"
      using ok start(2) by (auto intro: live_ok_mono)
    show "p + lsize l \<le> q \<or> q + lsize m \<le> p" if "(q, m) \<in> live" for q m
      using live_okD(1) [OF ok that] start(2) unfolding p by linarith
  qed (use start inv p in \<open>auto simp: bump_inv_def\<close>)
  then show "bump_inv lo hi b' (insert (p, l) live)"
    using inv fresh start(2) p sz unfolding b' bump_inv_def by auto
qed

lemma bump_dealloc_inv:
  assumes inv: "bump_inv lo hi b live" and live: "(p, l) \<in> live"
  shows "\<exists>b'. bump_dealloc p l b = Some b' \<and> bump_inv lo hi b' (live - {(p, l)}) \<and>
    bump_next b' = (if live = {(p, l)} then lo else bump_next b)"
proof -
  have card: "allocations b = card live" "finite live" "card (live - {(p, l)}) = card live - 1" "0 < card live"
    using inv live by (auto simp: bump_inv_def card_gt_0_iff)
  have ok: "live_ok live lo (bump_next b)"
    using inv by (simp add: bump_inv_def)
  have one: "live = {(p, l)} \<longleftrightarrow> card live - 1 = 0"
    using card live by (metis card_0_eq finite_Diff insert_Diff insert_Diff_single
        empty_iff singletonD Diff_cancel)
  show ?thesis
  proof (cases "live = {(p, l)}")
    case True
    then show ?thesis
      using inv card by (auto simp: bump_dealloc_def bump_inv_def usub_def live_ok_def)
  next
    case False
    have "live_ok (live - {(p, l)}) lo (bump_next b)"
      using ok by (rule live_ok_mono) auto
    then show ?thesis
      using False inv card one by (auto simp: bump_dealloc_def bump_inv_def usub_def)
  qed
qed

text \<open>The allocator keeps the contract; it never touches the memory it hands out.\<close>

interpretation bump: global_alloc "bump_inv lo hi" lo hi sized_layout bump_alloc bump_dealloc 1 "\<lambda>a v b. b"
proof (unfold_locales, goal_cases)
  case (1 s live l)
  then show ?case
    using bump_alloc_cases by (auto split: if_splits)
next
  case (2 s live l s')
  have "0 < lo" "lo \<le> bump_next s"
    using 2(1) by (auto simp: bump_inv_def)
  moreover have "bump_next s \<le> round_up (bump_next s) (lalign l)"
    using 2(2) layout_okD round_up_props(2) by (simp add: sized_layout_def)
  ultimately show ?case
    using 2 bump_alloc_cases [OF 2(1,2)] by (auto split: if_splits)
next
  case (3 s live l p s')
  then show ?case
    using bump_alloc_some by blast
next
  case (4 s live p l)
  then show ?case
    using bump_dealloc_inv by blast
next
  case (6 s live)
  then show ?case
    by (auto simp: bump_inv_def intro: live_ok_mono)
qed auto

lemma bump_init_inv:
  assumes "bump_init start heap_size bump_new = Some b" "0 < start" "start + heap_size < 9223372036854775808"
  shows "bump_inv start (start + heap_size) b {}"
  using assms by (auto simp: bump_init_def bump_new_def bump_inv_def live_ok_def unfold_arith
      split: bind_splits)

text \<open>
  Bump allocator.  From an initialised heap, over every sequence of allocations, returns and
  writes, the live regions are aligned, inside the heap and pairwise disjoint, no operation panics,
  and once every pointer has been returned the whole heap is available again.
\<close>

lemma bump_allocator_safe:
  assumes "bump_init start heap_size bump_new = Some b" "0 < start" "start + heap_size < 9223372036854775808"
    and "(heap_step sized_layout bump_alloc bump_dealloc 1 (\<lambda>a (v :: u8) b. b))\<^sup>*\<^sup>* (b, {}) (b', live)"
  shows "live_ok live start (start + heap_size) \<and>
    (\<forall>l. sized_layout l \<longrightarrow> bump_alloc l b' \<noteq> None) \<and>
    (\<forall>p l. (p, l) \<in> live \<longrightarrow> bump_dealloc p l b' \<noteq> None) \<and>
    (\<forall>p l. live = {(p, l)} \<longrightarrow> (\<exists>b''. bump_dealloc p l b' = Some b'' \<and> bump_next b'' = start))"
proof -
  note inv = bump_init_inv [OF assms(1-3)]
  have "\<exists>b''. bump_dealloc p l b' = Some b'' \<and> bump_next b'' = start" if "live = {(p, l)}" for p l
    using bump_dealloc_inv [OF bump.steps_inv [OF assms(4) inv], of p l] that by auto
  then show ?thesis
    using bump.steps_safe [OF assms(4) inv] by blast
qed

lemma bump_allocator_safe_witness:
  "\<exists>b. (heap_step sized_layout bump_alloc bump_dealloc 1 (\<lambda>a (v :: u8) b. b))\<^sup>*\<^sup>*
      (the (bump_init 4097 4000 bump_new), {}) (b, {(4160, \<lparr>lsize = 100, lalign = 64\<rparr>)}) \<and>
    live_ok {(4160, \<lparr>lsize = 100, lalign = 64\<rparr>)} 4097 8097"
proof -
  let ?l = "\<lparr>lsize = 100, lalign = 64\<rparr>"
  let ?step = "heap_step sized_layout bump_alloc bump_dealloc 1 (\<lambda>a (v :: u8) b. b)"
  define b0 where "b0 = the (bump_init 4097 4000 bump_new)"
  define b1 where "b1 = snd (the (bump_alloc ?l b0))"
  have b0: "bump_init 4097 4000 bump_new = Some b0"
    unfolding b0_def by code_simp
  have b1: "bump_alloc ?l b0 = Some (4160, b1)" "sized_layout ?l"
    unfolding b1_def b0_def by code_simp+
  have "?step\<^sup>*\<^sup>* (b0, {}) (b1, {(4160, ?l)})"
    using heap_alloc [where admissible = sized_layout and alloc = bump_alloc, OF b1(2,1), of bump_dealloc 1
        "\<lambda>a v b. b" "{}"] by auto
  with bump_allocator_safe [OF b0 _ _ this] show ?thesis
    unfolding b0_def by auto
qed

end
