(* ===== verification/Linked_List.thy ===== *)
theory Linked_List
  imports Alloc_Interface "HOL-Library.Code_Target_Nat"
begin

text \<open>
  \<^verbatim>\<open>kernel/src/allocator/linked_list.rs\<close>: the free-list allocator.

  A \<^verbatim>\<open>ListNode\<close> occupies two 8-byte cells at the start of the free region it describes;
  memory maps the address of a cell to its value.  The link \<^verbatim>\<open>Option<&'static mut ListNode>\<close>
  is the address of the node, 0 for \<^verbatim>\<open>None\<close>.  The list is walked by a reference to the node
  whose \<^verbatim>\<open>next\<close> is inspected: 0 stands for the \<^verbatim>\<open>head\<close> in the allocator itself.
\<close>

record list_node =
  node_size :: nat
  node_next :: nat

record linked_list =
  head :: list_node
  ll_mem :: "nat \<Rightarrow> nat"

definition list_node_new :: "nat \<Rightarrow> list_node" where
  "list_node_new n = \<lparr>node_size = n, node_next = 0\<rparr>"

definition end_addr :: "nat \<Rightarrow> list_node \<Rightarrow> nat option" where
  "end_addr start_addr node = uadd start_addr (node_size node)"

definition SIZE_OF_NODE :: nat where "SIZE_OF_NODE = 16"
definition ALIGN_OF_NODE :: nat where "ALIGN_OF_NODE = 8"

definition node_at :: "linked_list \<Rightarrow> nat \<Rightarrow> list_node" where
  "node_at s a = \<lparr>node_size = ll_mem s a, node_next = ll_mem s (a + 8)\<rparr>"

definition write_node :: "nat \<Rightarrow> list_node \<Rightarrow> linked_list \<Rightarrow> linked_list" where
  "write_node a n s = s\<lparr>ll_mem := (ll_mem s)(a := node_size n, a + 8 := node_next n)\<rparr>"

definition next_of :: "nat \<Rightarrow> linked_list \<Rightarrow> nat" where
  "next_of c s = (if c = 0 then node_next (head s) else node_next (node_at s c))"

definition set_next :: "nat \<Rightarrow> nat \<Rightarrow> linked_list \<Rightarrow> linked_list" where
  "set_next c x s =
     (if c = 0 then s\<lparr>head := (head s)\<lparr>node_next := x\<rparr>\<rparr>
      else s\<lparr>ll_mem := (ll_mem s)(c + 8 := x)\<rparr>)"

definition linked_list_new :: "(nat \<Rightarrow> nat) \<Rightarrow> linked_list" where
  "linked_list_new mem = \<lparr>head = list_node_new 0, ll_mem = mem\<rparr>"

definition add_free_region :: "nat \<Rightarrow> nat \<Rightarrow> linked_list \<Rightarrow> linked_list option" where
  "add_free_region addr n s =
     do { a \<leftarrow> align_up addr ALIGN_OF_NODE;
          require (a = addr);
          require (n \<ge> SIZE_OF_NODE);
          let node = (list_node_new n)\<lparr>node_next := next_of 0 s\<rparr>;
          let s = set_next 0 0 s;
          let s = write_node addr node s;
          Some (set_next 0 addr s) }"

definition linked_list_init :: "nat \<Rightarrow> nat \<Rightarrow> linked_list \<Rightarrow> linked_list option" where
  "linked_list_init heap_start heap_size s = add_free_region heap_start heap_size s"

definition alloc_from_region :: "nat \<Rightarrow> list_node \<Rightarrow> nat \<Rightarrow> nat \<Rightarrow> (unit + nat) option" where
  "alloc_from_region region node n align =
     do { alloc_start \<leftarrow> align_up region align;
          case uadd alloc_start n of
            None \<Rightarrow> Some (Inl ())
          | Some alloc_end \<Rightarrow>
              do { e \<leftarrow> end_addr region node;
                   if alloc_end > e then Some (Inl ())
                   else do { excess_size \<leftarrow> usub e alloc_end;
                             if excess_size > 0 \<and> excess_size < SIZE_OF_NODE then Some (Inl ())
                             else Some (Inr alloc_start) } } }"

text \<open>The loop of \<^verbatim>\<open>find_region\<close> from \<open>current\<close> on.\<close>

partial_function (option) find_from ::
    "nat \<Rightarrow> nat \<Rightarrow> nat \<Rightarrow> linked_list \<Rightarrow> ((nat \<times> nat) option \<times> linked_list) option" where
  "find_from n align current s =
     (let region = next_of current s in
      if region = 0 then Some (None, s)
      else do { r \<leftarrow> alloc_from_region region (node_at s region) n align;
                case r of
                  Inr alloc_start \<Rightarrow>
                    (let nxt = next_of region s;
                         s = set_next region 0 s;
                         s = set_next current 0 s
                     in Some (Some (region, alloc_start), set_next current nxt s))
                | Inl _ \<Rightarrow> find_from n align region s })"

declare find_from.simps [code]

definition find_region :: "nat \<Rightarrow> nat \<Rightarrow> linked_list \<Rightarrow> ((nat \<times> nat) option \<times> linked_list) option" where
  "find_region n align s = find_from n align 0 s"

text \<open>
  \<^verbatim>\<open>Layout::align_to\<close> fails when the size rounded up to the alignment exceeds
  \<^verbatim>\<open>isize::MAX\<close>; \<^verbatim>\<open>pad_to_align\<close> rounds the size up.
\<close>

definition size_align :: "layout \<Rightarrow> (nat \<times> nat) option" where
  "size_align l =
     (let align = max (lalign l) ALIGN_OF_NODE in
      do { require (layout_ok \<lparr>lsize = lsize l, lalign = align\<rparr>);
           Some (max (round_up (lsize l) align) SIZE_OF_NODE, align) })"

definition linked_list_alloc :: "layout \<Rightarrow> linked_list \<Rightarrow> (nat \<times> linked_list) option" where
  "linked_list_alloc l s =
     do { (n, align) \<leftarrow> size_align l;
          (found, s) \<leftarrow> find_region n align s;
          case found of
            None \<Rightarrow> Some (0, s)
          | Some (region, alloc_start) \<Rightarrow>
              do { alloc_end \<leftarrow> uadd alloc_start n;
                   e \<leftarrow> end_addr region (node_at s region);
                   excess_size \<leftarrow> usub e alloc_end;
                   s \<leftarrow> (if excess_size > 0 then add_free_region alloc_end excess_size s else Some s);
                   Some (alloc_start, s) } }"

definition linked_list_dealloc :: "nat \<Rightarrow> layout \<Rightarrow> linked_list \<Rightarrow> linked_list option" where
  "linked_list_dealloc p l s =
     do { (n, _) \<leftarrow> size_align l;
          add_free_region p n s }"

text \<open>
  The owner of a region writes eight bytes at \<open>a\<close>: every cell that overlaps them may change.
\<close>

definition ll_store :: "nat \<Rightarrow> (nat \<Rightarrow> nat) \<Rightarrow> linked_list \<Rightarrow> linked_list" where
  "ll_store a v s = s\<lparr>ll_mem := (\<lambda>x. if a < x + 8 \<and> x < a + 8 then v x else ll_mem s x)\<rparr>"

subsection \<open>The free list\<close>

fun chain :: "linked_list \<Rightarrow> nat \<Rightarrow> nat list \<Rightarrow> bool" where
  "chain s a [] \<longleftrightarrow> a = 0"
| "chain s a (n # ns) \<longleftrightarrow> a = n \<and> n \<noteq> 0 \<and> chain s (next_of n s) ns"

abbreviation size_at :: "linked_list \<Rightarrow> nat \<Rightarrow> nat" where
  "size_at s n \<equiv> node_size (node_at s n)"

definition apart :: "nat \<Rightarrow> nat \<Rightarrow> nat \<Rightarrow> nat \<Rightarrow> bool" where
  "apart a m b k \<longleftrightarrow> a + m \<le> b \<or> b + k \<le> a"

definition block_size :: "layout \<Rightarrow> nat" where
  "block_size l = max (round_up (lsize l) (max (lalign l) ALIGN_OF_NODE)) SIZE_OF_NODE"

definition node_layout :: "layout \<Rightarrow> bool" where
  "node_layout l \<longleftrightarrow> sized_layout l \<and> lsize l + 8 \<le> 9223372036854775808"

definition free_ok :: "nat \<Rightarrow> nat \<Rightarrow> linked_list \<Rightarrow> nat list \<Rightarrow> bool" where
  "free_ok lo hi s ns \<longleftrightarrow>
     distinct ns \<and>
     (\<forall>n \<in> set ns. 8 dvd n \<and> lo \<le> n \<and> 16 \<le> size_at s n \<and> n + size_at s n \<le> hi) \<and>
     (\<forall>n \<in> set ns. \<forall>m \<in> set ns. n \<noteq> m \<longrightarrow> apart n (size_at s n) m (size_at s m))"

definition taken_ok :: "nat \<Rightarrow> nat \<Rightarrow> (nat \<times> layout) set \<Rightarrow> bool" where
  "taken_ok lo hi live \<longleftrightarrow>
     (\<forall>(p, l) \<in> live. node_layout l \<and> 8 dvd p \<and> lalign l dvd p \<and> lo \<le> p \<and> p + block_size l \<le> hi) \<and>
     (\<forall>(p, l) \<in> live. \<forall>(q, m) \<in> live. (p, l) \<noteq> (q, m) \<longrightarrow> apart p (block_size l) q (block_size m))"

definition heap_ok :: "nat \<Rightarrow> nat \<Rightarrow> linked_list \<Rightarrow> nat list \<Rightarrow> (nat \<times> layout) set \<Rightarrow> bool" where
  "heap_ok lo hi s ns live \<longleftrightarrow>
     0 < lo \<and> hi < 9223372036854775808 \<and> chain s (next_of 0 s) ns \<and> free_ok lo hi s ns \<and> taken_ok lo hi live \<and>
     (\<forall>n \<in> set ns. \<forall>(p, l) \<in> live. apart n (size_at s n) p (block_size l))"

definition linked_list_inv :: "nat \<Rightarrow> nat \<Rightarrow> linked_list \<Rightarrow> (nat \<times> layout) set \<Rightarrow> bool" where
  "linked_list_inv lo hi s live \<longleftrightarrow> (\<exists>ns. heap_ok lo hi s ns live)"

subsection \<open>Reading back what was written\<close>

lemma apart_sub: "apart r k b m \<Longrightarrow> r \<le> a \<Longrightarrow> a + j \<le> r + k \<Longrightarrow> apart a j b m"
  by (auto simp: apart_def)

lemma apart_sym: "apart a m b k \<longleftrightarrow> apart b k a m"
  by (auto simp: apart_def)

lemma apart_less: "apart a m b k \<Longrightarrow> j \<le> m \<Longrightarrow> i \<le> k \<Longrightarrow> apart a j b i"
  by (auto simp: apart_def)

lemma node_at_set_next: "c = 0 \<or> apart c 16 n 16 \<Longrightarrow> node_at (set_next c x s) n = node_at s n"
  by (auto simp: node_at_def set_next_def apart_def)

lemma size_at_set_next: "c = 0 \<or> c = n \<or> apart c 16 n 16 \<Longrightarrow> size_at (set_next c x s) n = size_at s n"
  by (auto simp: node_at_def set_next_def apart_def)

lemma next_of_set_next [simp]: "next_of c (set_next c x s) = x"
  by (simp add: next_of_def set_next_def node_at_def)

lemma next_of_set_next_other:
  "n \<noteq> c \<Longrightarrow> n = 0 \<or> c = 0 \<or> apart c 16 n 16 \<Longrightarrow> next_of n (set_next c x s) = next_of n s"
  by (auto simp: next_of_def set_next_def node_at_def apart_def)

lemma ll_chain_cong: "(\<And>n. n \<in> set ns \<Longrightarrow> next_of n s' = next_of n s) \<Longrightarrow> chain s' a ns = chain s a ns"
  by (induction ns arbitrary: a) auto

lemma chain_nonzero: "chain s a ns \<Longrightarrow> 0 \<notin> set ns"
  by (induction ns arbitrary: a) auto

lemma free_okD:
  assumes "free_ok lo hi s ns"
  shows "distinct ns" "n \<in> set ns \<Longrightarrow> 8 dvd n \<and> lo \<le> n \<and> 16 \<le> size_at s n \<and> n + size_at s n \<le> hi"
    and "n \<in> set ns \<Longrightarrow> m \<in> set ns \<Longrightarrow> n \<noteq> m \<Longrightarrow> apart n (size_at s n) m (size_at s m)"
  using assms by (auto simp: free_ok_def)

lemma free_ok_apart:
  assumes "free_ok lo hi s ns" "n \<in> set ns" "m \<in> set ns" "n \<noteq> m"
  shows "apart n 16 m 16"
  using free_okD(3) [OF assms] free_okD(2) [OF assms(1,2)] free_okD(2) [OF assms(1,3)]
  by (auto intro: apart_less)

text \<open>The invariant only reads the nodes of the list.\<close>

lemma heap_ok_cong:
  assumes "heap_ok lo hi s ns live" "next_of 0 s' = next_of 0 s"
    and same: "\<And>n. n \<in> set ns \<Longrightarrow> node_at s' n = node_at s n"
  shows "heap_ok lo hi s' ns live"
proof -
  have "0 \<notin> set ns"
    using assms(1) chain_nonzero by (auto simp: heap_ok_def)
  then have "chain s' a ns = chain s a ns" for a
    using same by (intro ll_chain_cong) (auto simp: next_of_def)
  then show ?thesis
    using assms by (simp add: heap_ok_def free_ok_def)
qed

lemma add_free_region_ok:
  assumes ok: "heap_ok lo hi s ns live"
    and region: "8 dvd a" "16 \<le> n" "lo \<le> a" "a + n \<le> hi"
    and free: "\<And>m. m \<in> set ns \<Longrightarrow> apart a n m (size_at s m)"
    and taken: "\<And>p l. (p, l) \<in> live \<Longrightarrow> apart a n p (block_size l)"
  shows "\<exists>s'. add_free_region a n s = Some s' \<and> heap_ok lo hi s' (a # ns) live"
proof -
  define s' where "s' = set_next 0 a (write_node a \<lparr>node_size = n, node_next = next_of 0 s\<rparr> (set_next 0 0 s))"
  have bounds: "0 < lo" "hi < 9223372036854775808" "free_ok lo hi s ns" "chain s (next_of 0 s) ns"
    using ok by (auto simp: heap_ok_def)
  have "align_up a 8 = Some (round_up a 8)"
    using region bounds(2) by (intro align_up_eq) (auto simp: is_power_of_two_def)
  then have add: "add_free_region a n s = Some s'"
    using region by (simp add: add_free_region_def ALIGN_OF_NODE_def SIZE_OF_NODE_def round_up_dvd
        list_node_new_def require_eq s'_def)
  have old: "node_at s' m = node_at s m" if "m \<in> set ns" for m
  proof -
    have "apart a 16 m 16"
      using free [OF that] free_okD(2) [OF bounds(3) that] region(2) by (auto intro: apart_less)
    then show ?thesis
      by (auto simp: s'_def node_at_def write_node_def set_next_def apart_def)
  qed
  have new: "node_at s' a = \<lparr>node_size = n, node_next = next_of 0 s\<rparr>" "next_of 0 s' = a"
    by (auto simp: s'_def node_at_def write_node_def set_next_def next_of_def)
  have "a \<notin> set ns"
    using free free_okD(2) [OF bounds(3)] region(2) by (fastforce simp: apart_def)
  moreover have "chain s' (next_of 0 s) ns = chain s (next_of 0 s) ns"
    using chain_nonzero [OF bounds(4)] old by (intro ll_chain_cong) (auto simp: next_of_def)
  moreover have "a \<noteq> 0"
    using region bounds by simp
  ultimately have "heap_ok lo hi s' (a # ns) live"
    using ok bounds(4) region free taken old new apart_sym
    by (auto simp: heap_ok_def free_ok_def next_of_def)
  with add show ?thesis by blast
qed

subsection \<open>Searching the list\<close>

definition fits :: "linked_list \<Rightarrow> nat \<Rightarrow> nat \<Rightarrow> nat \<Rightarrow> bool" where
  "fits s n align r \<longleftrightarrow>
     (let used = round_up r align + n; e = r + size_at s r in used \<le> e \<and> (used = e \<or> used + 16 \<le> e))"

lemma alloc_from_region_eq:
  assumes "is_power_of_two align" "align \<le> 9223372036854775808"
    and "r + size_at s r < 9223372036854775808"
  shows "alloc_from_region r (node_at s r) n align =
     Some (if fits s n align r then Inr (round_up r align) else Inl ())"
proof -
  have "align_up r align = Some (round_up r align)"
    using assms by (intro align_up_eq) simp_all
  then show ?thesis
    using assms(3) by (auto simp: alloc_from_region_def fits_def Let_def end_addr_def uadd_def usub_def
        SIZE_OF_NODE_def)
qed

lemma set_next_twice [simp]: "set_next c y (set_next c x s) = set_next c y s"
  by (simp add: set_next_def)

lemma find_from_eq:
  assumes "chain s (next_of c s) ns" "is_power_of_two align" "align \<le> 9223372036854775808"
    and "\<forall>r \<in> set ns. r + size_at s r < 9223372036854775808"
  shows "(\<forall>r \<in> set ns. \<not> fits s n align r) \<and> find_from n align c s = Some (None, s) \<or>
    (\<exists>xs r ys. ns = xs @ r # ys \<and> (\<forall>x \<in> set xs. \<not> fits s n align x) \<and> fits s n align r \<and>
       find_from n align c s =
         Some (Some (r, round_up r align), set_next (last (c # xs)) (next_of r s) (set_next r 0 s)))"
  using assms
proof (induction ns arbitrary: c)
  case Nil
  then show ?case
    by (simp add: find_from.simps [of n align c])
next
  case (Cons r ns)
  have r: "next_of c s = r" "r \<noteq> 0" "chain s (next_of r s) ns"
    using Cons.prems(1) by auto
  have step: "alloc_from_region r (node_at s r) n align =
      Some (if fits s n align r then Inr (round_up r align) else Inl ())"
    using Cons.prems by (intro alloc_from_region_eq) auto
  show ?case
  proof (cases "fits s n align r")
    case True
    then have "find_from n align c s =
        Some (Some (r, round_up r align), set_next c (next_of r s) (set_next r 0 s))"
      using r step by (simp add: find_from.simps [of n align c] Let_def)
    then show ?thesis
      using True by (intro disjI2 exI [of _ "[]"] exI [of _ r] exI [of _ ns]) simp
  next
    case False
    then have same: "find_from n align c s = find_from n align r s"
      using r step by (simp add: find_from.simps [of n align c] Let_def)
    have IH: "(\<forall>r \<in> set ns. \<not> fits s n align r) \<and> find_from n align r s = Some (None, s) \<or>
      (\<exists>xs r' ys. ns = xs @ r' # ys \<and> (\<forall>x \<in> set xs. \<not> fits s n align x) \<and> fits s n align r' \<and>
       find_from n align r s =
         Some (Some (r', round_up r' align), set_next (last (r # xs)) (next_of r' s) (set_next r' 0 s)))"
      using Cons.prems r(3) by (intro Cons.IH) auto
    then show ?thesis
    proof (elim disjE exE conjE)
      fix xs r' ys
      assume "ns = xs @ r' # ys" "\<forall>x \<in> set xs. \<not> fits s n align x" "fits s n align r'"
        "find_from n align r s =
           Some (Some (r', round_up r' align), set_next (last (r # xs)) (next_of r' s) (set_next r' 0 s))"
      then show ?thesis
        using False same by (intro disjI2 exI [of _ "r # xs"] exI [of _ r'] exI [of _ ys]) simp
    qed (use False same in simp)
  qed
qed

text \<open>Unlinking a node leaves the list without it.\<close>

lemma ll_chain_unlink:
  assumes "chain s (next_of c s) (xs @ r # ys)" "distinct (c # xs @ r # ys)"
    and "\<And>n. n \<in> set (c # xs @ ys) \<Longrightarrow>
      next_of n s' = (if n = last (c # xs) then next_of r s else next_of n s)"
  shows "chain s' (next_of c s') (xs @ ys)"
  using assms
proof (induction xs arbitrary: c)
  case Nil
  have "chain s' (next_of r s) ys = chain s (next_of r s) ys"
    using Nil.prems by (intro ll_chain_cong) auto
  then show ?case
    using Nil.prems by simp
next
  case (Cons x xs)
  have "last (x # xs) \<in> set (x # xs)"
    by (rule last_in_set) simp
  then have "c \<noteq> last (x # xs)"
    using Cons.prems(2) by auto
  then have "next_of c s' = next_of c s"
    using Cons.prems(3) [of c] by simp
  moreover have "chain s' (next_of x s') (xs @ ys)"
    using Cons.prems by (intro Cons.IH) auto
  ultimately show ?case
    using Cons.prems(1) by simp
qed

lemma unlink_ok:
  assumes ok: "heap_ok lo hi s (xs @ r # ys) live"
  defines "s' \<equiv> set_next (last (0 # xs)) (next_of r s) (set_next r 0 s)"
  shows "heap_ok lo hi s' (xs @ ys) live"
    and "\<And>n. n \<in> set (xs @ r # ys) \<Longrightarrow> size_at s' n = size_at s n"
proof -
  let ?ns = "xs @ r # ys" and ?c = "last (0 # xs)"
  have free: "free_ok lo hi s ?ns" and chain: "chain s (next_of 0 s) ?ns"
    using ok by (auto simp: heap_ok_def)
  have zero: "0 \<notin> set ?ns" and dist: "distinct ?ns"
    using chain_nonzero [OF chain] free_okD(1) [OF free] by auto
  have c: "?c = 0 \<or> ?c \<in> set xs"
    by (cases xs) auto
  then have c_apart: "n = ?c \<or> n = 0 \<or> ?c = 0 \<or> apart ?c 16 n 16" if "n \<in> set (0 # ?ns)" for n
    using that free_ok_apart [OF free, of ?c n] by auto
  have r_apart: "n = r \<or> n = 0 \<or> apart r 16 n 16" if "n \<in> set (0 # ?ns)" for n
    using that free_ok_apart [OF free, of r n] by auto
  have sizes: "size_at s' n = size_at s n" if "n \<in> set ?ns" for n
  proof -
    have "n \<noteq> 0" using that zero by metis
    then have "?c = 0 \<or> ?c = n \<or> apart ?c 16 n 16" "r = 0 \<or> r = n \<or> apart r 16 n 16"
      using that c_apart [of n] r_apart [of n] by auto
    then show ?thesis
      unfolding s'_def by (simp only: size_at_set_next)
  qed
  have nexts: "next_of n s' = (if n = ?c then next_of r s else next_of n s)" if "n \<in> set (0 # xs @ ys)" for n
  proof -
    have "n \<noteq> r"
      using that dist zero by auto
    then have "next_of n (set_next r 0 s) = next_of n s"
      using that r_apart [of n] by (intro next_of_set_next_other) auto
    moreover have "next_of n s' = next_of n (set_next r 0 s)" if "n \<noteq> ?c"
      unfolding s'_def using that \<open>n \<in> set (0 # xs @ ys)\<close> c_apart [of n]
      by (intro next_of_set_next_other) auto
    ultimately show ?thesis
      by (simp add: s'_def)
  qed
  have "chain s' (next_of 0 s') (xs @ ys)"
    using chain dist zero nexts by (intro ll_chain_unlink [of s 0 xs r ys]) auto
  then show "heap_ok lo hi s' (xs @ ys) live"
    using ok sizes by (auto simp: heap_ok_def free_ok_def)
  show "\<And>n. n \<in> set ?ns \<Longrightarrow> size_at s' n = size_at s n"
    by (rule sizes)
qed

subsection \<open>Allocation and deallocation\<close>

lemma size_align_eq:
  assumes "node_layout l"
  defines "align \<equiv> max (lalign l) 8"
  shows "size_align l = Some (block_size l, align)" "is_power_of_two align" "align \<le> 9223372036854775808"
    and "8 dvd align" "lalign l dvd align" "lsize l \<le> block_size l" "8 dvd block_size l" "16 \<le> block_size l"
proof -
  have l: "layout_ok l" "lsize l + 8 \<le> 9223372036854775808"
    using assms(1) by (auto simp: node_layout_def sized_layout_def)
  obtain k where k: "lalign l = 2 ^ k"
    using l layout_okD is_power_of_two_iff by blast
  have max: "align = 2 ^ max k 3"
    using power_increasing [of k 3 "2 :: nat"] power_increasing [of 3 k "2 :: nat"]
    by (cases "k \<le> 3") (auto simp: align_def k max_def)
  show pow: "is_power_of_two align"
    unfolding max is_power_of_two_iff by blast
  show "align \<le> 9223372036854775808"
    using layout_okD [OF l(1)] by (simp add: align_def)
  have "(2 :: nat) ^ 3 dvd 2 ^ max k 3" "lalign l dvd 2 ^ max k 3"
    unfolding k by (intro le_imp_power_dvd, simp)+
  then show dvd: "8 dvd align" "lalign l dvd align"
    by (simp_all add: max)
  have "layout_ok \<lparr>lsize = lsize l, lalign = align\<rparr>"
    using l pow by (auto simp: layout_ok_def align_def max_def)
  then show "size_align l = Some (block_size l, align)"
    by (simp add: size_align_def block_size_def align_def ALIGN_OF_NODE_def require_eq Let_def)
  have "lsize l \<le> round_up (lsize l) align"
    by (intro round_up_props) (simp add: align_def)
  then show "lsize l \<le> block_size l"
    by (simp add: block_size_def align_def ALIGN_OF_NODE_def)
  have "8 dvd round_up (lsize l) align"
    using dvd(1) by (rule round_up_mono_dvd)
  then show "8 dvd block_size l"
    by (simp add: block_size_def align_def ALIGN_OF_NODE_def SIZE_OF_NODE_def max_def)
  show "16 \<le> block_size l"
    by (simp add: block_size_def SIZE_OF_NODE_def)
qed

lemma heap_ok_take:
  assumes "heap_ok lo hi s ns live" "node_layout l" "8 dvd p" "lalign l dvd p" "lo \<le> p" "p + block_size l \<le> hi"
    and "\<And>m. m \<in> set ns \<Longrightarrow> apart p (block_size l) m (size_at s m)"
    and "\<And>q m. (q, m) \<in> live \<Longrightarrow> apart p (block_size l) q (block_size m)"
  shows "heap_ok lo hi s ns (insert (p, l) live)"
  using assms apart_sym by (auto simp: heap_ok_def taken_ok_def)

lemma taken_ok_mono: "taken_ok lo hi live \<Longrightarrow> live' \<subseteq> live \<Longrightarrow> taken_ok lo hi live'"
  unfolding taken_ok_def Ball_def subset_iff split_paired_All prod.case by metis

lemma heap_ok_release: "heap_ok lo hi s ns live \<Longrightarrow> live' \<subseteq> live \<Longrightarrow> heap_ok lo hi s ns live'"
  unfolding heap_ok_def using taken_ok_mono by (meson subsetD)

text \<open>A detached region is split into the block handed out and a free rest.\<close>

lemma carve_ok:
  assumes ok: "heap_ok lo hi s ns live" and l: "node_layout l"
    and p: "r \<le> p" "8 dvd p" "lalign l dvd p" "lo \<le> r" "r + k \<le> hi"
    and fit: "p + block_size l \<le> r + k" "r + k = p + block_size l \<or> p + block_size l + 16 \<le> r + k"
    and free: "\<And>m. m \<in> set ns \<Longrightarrow> apart r k m (size_at s m)"
    and taken: "\<And>q m. (q, m) \<in> live \<Longrightarrow> apart r k q (block_size m)"
  defines "alloc_end \<equiv> p + block_size l"
  shows "\<exists>s' ns'. (if r + k - alloc_end > 0 then add_free_region alloc_end (r + k - alloc_end) s else Some s) =
    Some s' \<and> heap_ok lo hi s' ns' (insert (p, l) live)"
proof -
  have used: "apart p (block_size l) b m" if "apart r k b m" for b m
    using that p(1) fit(1) by (rule apart_sub)
  have ok1: "heap_ok lo hi s ns (insert (p, l) live)"
    using p fit free taken by (intro heap_ok_take [OF ok l] used) auto
  show ?thesis
  proof (cases "r + k = alloc_end")
    case True
    then show ?thesis
      using ok1 by auto
  next
    case False
    have rest: "apart alloc_end (r + k - alloc_end) b m" if "apart r k b m" for b m
      using that p(1) fit(1) unfolding alloc_end_def by (intro apart_sub [OF that]) auto
    have "\<exists>s'. add_free_region alloc_end (r + k - alloc_end) s = Some s' \<and>
        heap_ok lo hi s' (alloc_end # ns) (insert (p, l) live)"
    proof (rule add_free_region_ok [OF ok1])
      show "8 dvd alloc_end"
        using p(2) size_align_eq(7) [OF l] by (simp add: alloc_end_def)
      show "apart alloc_end (r + k - alloc_end) q (block_size m)" if "(q, m) \<in> insert (p, l) live" for q m
        using that rest taken by (auto simp: apart_def alloc_end_def)
    qed (use p fit False rest free in \<open>auto simp: alloc_end_def\<close>)
    then show ?thesis
      using False fit(1) by (auto simp: alloc_end_def)
  qed
qed

lemma linked_list_alloc_cases:
  assumes ok: "heap_ok lo hi s ns live" and l: "node_layout l"
  defines "align \<equiv> max (lalign l) 8" and "n \<equiv> block_size l"
  shows "(\<forall>r \<in> set ns. \<not> fits s n align r) \<and> linked_list_alloc l s = Some (0, s) \<or>
    (\<exists>r \<in> set ns. fits s n align r \<and> lo \<le> round_up r align \<and>
      (\<exists>s' ns'. linked_list_alloc l s = Some (round_up r align, s') \<and>
         heap_ok lo hi s' ns' (insert (round_up r align, l) live)))"
proof -
  note sa = size_align_eq [OF l, folded align_def n_def]
  have bounds: "hi < 9223372036854775808" "chain s (next_of 0 s) ns" "free_ok lo hi s ns"
    using ok by (auto simp: heap_ok_def)
  have "\<forall>r \<in> set ns. r + size_at s r < 9223372036854775808"
    using free_okD(2) [OF bounds(3)] bounds(1) by fastforce
  from find_from_eq [OF bounds(2) sa(2,3) this, of n] show ?thesis
  proof (elim disjE exE conjE)
    assume "\<forall>r \<in> set ns. \<not> fits s n align r" "find_from n align 0 s = Some (None, s)"
    then show ?thesis
      by (simp add: linked_list_alloc_def sa(1) find_region_def)
  next
    fix xs r ys
    define s1 where "s1 = set_next (last (0 # xs)) (next_of r s) (set_next r 0 s)"
    define p where "p = round_up r align"
    let ?k = "size_at s r"
    assume ns: "ns = xs @ r # ys" and fit: "fits s n align r"
      and "find_from n align 0 s =
        Some (Some (r, round_up r align), set_next (last (0 # xs)) (next_of r s) (set_next r 0 s))"
    then have find: "find_region n align s = Some (Some (r, p), s1)"
      by (simp add: find_region_def s1_def p_def)
    have r: "8 dvd r" "lo \<le> r" "r + ?k \<le> hi"
      using free_okD(2) [OF bounds(3), of r] ns by auto
    have p: "r \<le> p" "8 dvd p" "lalign l dvd p"
      using round_up_props [of align r] sa(2,4,5) by (auto simp: p_def is_power_of_two_def intro: dvd_trans)
    have fit': "p + n \<le> r + ?k" "r + ?k = p + n \<or> p + n + 16 \<le> r + ?k"
      using fit by (auto simp: fits_def Let_def p_def)
    note unlink = unlink_ok [of lo hi s xs r ys live, folded ns, OF ok, folded s1_def]
    have "\<exists>s' ns'. (if r + ?k - (p + n) > 0 then add_free_region (p + n) (r + ?k - (p + n)) s1 else Some s1) =
        Some s' \<and> heap_ok lo hi s' ns' (insert (p, l) live)"
      unfolding n_def
    proof (rule carve_ok [OF unlink(1) l p r(2,3)])
      show "apart r ?k m (size_at s1 m)" if "m \<in> set (xs @ ys)" for m
        using that free_okD(1) [OF bounds(3)] free_okD(3) [OF bounds(3), of r m] unlink(2) [of m] ns by auto
    qed (use ok ns fit' in \<open>auto simp: heap_ok_def n_def\<close>)
    moreover have "end_addr r (node_at s1 r) = Some (r + ?k)" "uadd p n = Some (p + n)"
        "usub (r + ?k) (p + n) = Some (r + ?k - (p + n))"
      using unlink(2) [of r] ns r bounds(1) fit'(1) by (auto simp: end_addr_def uadd_def usub_def)
    ultimately have "\<exists>s' ns'. linked_list_alloc l s = Some (p, s') \<and> heap_ok lo hi s' ns' (insert (p, l) live)"
      by (auto simp: linked_list_alloc_def sa(1) find)
    then show ?thesis
      using ns fit p(1) r(2) unfolding p_def by fastforce
  qed
qed

lemma linked_list_dealloc_ok:
  assumes ok: "heap_ok lo hi s ns live" and live: "(p, l) \<in> live"
  shows "\<exists>s'. linked_list_dealloc p l s = Some s' \<and> heap_ok lo hi s' (p # ns) (live - {(p, l)})"
proof -
  have taken: "taken_ok lo hi live" and free: "\<forall>n \<in> set ns. \<forall>(p, l) \<in> live. apart n (size_at s n) p (block_size l)"
    using ok by (auto simp: heap_ok_def)
  have p: "node_layout l" "8 dvd p" "lo \<le> p" "p + block_size l \<le> hi"
    using taken live by (auto simp: taken_ok_def)
  have "\<exists>s'. add_free_region p (block_size l) s = Some s' \<and> heap_ok lo hi s' (p # ns) (live - {(p, l)})"
  proof (rule add_free_region_ok)
    show "heap_ok lo hi s ns (live - {(p, l)})"
      using ok by (rule heap_ok_release) auto
    show "apart p (block_size l) m (size_at s m)" if "m \<in> set ns" for m
      using free that live apart_sym by fastforce
    show "apart p (block_size l) q (block_size m)" if "(q, m) \<in> live - {(p, l)}" for q m
      using taken live that unfolding taken_ok_def by fastforce
  qed (use p size_align_eq(8) [OF p(1)] in auto)
  then show ?thesis
    by (simp add: linked_list_dealloc_def size_align_eq(1) [OF p(1)])
qed

lemma ll_store_ok:
  assumes ok: "heap_ok lo hi s ns live" and live: "(p, l) \<in> live" and a: "p \<le> a" "a + 8 \<le> p + lsize l"
  shows "heap_ok lo hi (ll_store a v s) ns live"
proof (rule heap_ok_cong [OF ok])
  have l: "node_layout l"
    using ok live by (auto simp: heap_ok_def taken_ok_def)
  fix n assume n: "n \<in> set ns"
  then have "apart n (size_at s n) p (block_size l)" "16 \<le> size_at s n"
    using ok live free_okD(2) [of lo hi s ns n] by (auto simp: heap_ok_def)
  then show "node_at (ll_store a v s) n = node_at s n"
    using a size_align_eq(6) [OF l] by (auto simp: node_at_def ll_store_def apart_def)
qed (simp add: next_of_def ll_store_def)

lemma linked_list_alloc_inv:
  assumes inv: "linked_list_inv lo hi s live" and l: "node_layout l"
  shows "\<exists>p s'. linked_list_alloc l s = Some (p, s') \<and>
    linked_list_inv lo hi s' (if p = 0 then live else insert (p, l) live)"
proof -
  obtain ns where ns: "heap_ok lo hi s ns live" "0 < lo"
    using inv by (auto simp: linked_list_inv_def heap_ok_def)
  show ?thesis
    using linked_list_alloc_cases [OF ns(1) l]
  proof (elim disjE bexE conjE exE)
    assume "linked_list_alloc l s = Some (0, s)"
    then show ?thesis
      using inv by simp
  next
    fix r s' ns'
    assume "lo \<le> round_up r (max (lalign l) 8)"
      "linked_list_alloc l s = Some (round_up r (max (lalign l) 8), s')"
      "heap_ok lo hi s' ns' (insert (round_up r (max (lalign l) 8), l) live)"
    then show ?thesis
      using ns(2) by (auto simp: linked_list_inv_def)
  qed
qed

lemma taken_ok_live:
  assumes taken: "taken_ok lo hi live"
  shows "live_ok live lo hi"
proof (rule live_okI)
  fix p l assume pl: "(p, l) \<in> live"
  then have p: "node_layout l" "lalign l dvd p" "lo \<le> p" "p + block_size l \<le> hi"
    using taken by (auto simp: taken_ok_def)
  then show "lalign l dvd p \<and> lo \<le> p \<and> p + lsize l \<le> hi"
    using size_align_eq(6) [OF p(1)] by simp
  fix q m assume qm: "(q, m) \<in> live" "(p, l) \<noteq> (q, m)"
  then have "apart p (block_size l) q (block_size m)" "node_layout m"
    using taken pl by (auto simp: taken_ok_def)
  then show "p + lsize l \<le> q \<or> q + lsize m \<le> p"
    using size_align_eq(6) [OF p(1)] size_align_eq(6) [of m] by (auto simp: apart_def)
qed

interpretation ll: global_alloc "linked_list_inv lo hi" lo hi node_layout linked_list_alloc linked_list_dealloc 8 ll_store
proof (unfold_locales, goal_cases)
  case (1 s live l)
  then show ?case
    using linked_list_alloc_inv [of lo hi s live l] by blast
next
  case (2 s live l s')
  then show ?case
    using linked_list_alloc_inv [of lo hi s live l] by auto
next
  case (3 s live l p s')
  then show ?case
    using linked_list_alloc_inv [of lo hi s live l] by auto
next
  case (4 s live p l)
  then obtain ns where "heap_ok lo hi s ns live"
    by (auto simp: linked_list_inv_def)
  from linked_list_dealloc_ok [OF this 4(2)] show ?case
    by (auto simp: linked_list_inv_def)
next
  case (5 s live p l a v)
  then obtain ns where "heap_ok lo hi s ns live"
    by (auto simp: linked_list_inv_def)
  from ll_store_ok [OF this 5(2-4)] show ?case
    by (auto simp: linked_list_inv_def)
next
  case (6 s live)
  then show ?case
    by (auto simp: linked_list_inv_def heap_ok_def intro: taken_ok_live)
qed

lemma linked_list_init_inv:
  assumes "8 dvd start" "16 \<le> heap_size" "0 < start" "start + heap_size < 9223372036854775808"
  shows "\<exists>s. linked_list_init start heap_size (linked_list_new mem) = Some s \<and>
    linked_list_inv start (start + heap_size) s {}"
proof -
  have "heap_ok start (start + heap_size) (linked_list_new mem) [] {}"
    using assms by (simp add: heap_ok_def free_ok_def taken_ok_def next_of_def linked_list_new_def list_node_new_def)
  from add_free_region_ok [OF this assms(1,2)] show ?thesis
    by (auto simp: linked_list_init_def linked_list_inv_def)
qed

text \<open>
  C10 (Linked-list allocator).  On an 8-aligned heap of at least 16 bytes \<^verbatim>\<open>init\<close> succeeds.  From
  there, over every sequence of allocations, returns of live pointers and writes into live regions,
  the live regions are aligned as requested, inside the heap and pairwise disjoint, and neither
  \<^verbatim>\<open>alloc\<close> nor \<^verbatim>\<open>dealloc\<close> panics or loops, although the free list is
  threaded through the memory that is handed out.
\<close>

theorem linked_list_allocator_safe:
  assumes "8 dvd start" "16 \<le> heap_size" "0 < start" "start + heap_size < 9223372036854775808"
  shows "\<exists>s. linked_list_init start heap_size (linked_list_new mem) = Some s \<and>
    (\<forall>s' live. (heap_step node_layout linked_list_alloc linked_list_dealloc 8 ll_store)\<^sup>*\<^sup>* (s, {}) (s', live) \<longrightarrow>
       live_ok live start (start + heap_size) \<and>
       (\<forall>l. node_layout l \<longrightarrow> linked_list_alloc l s' \<noteq> None) \<and>
       (\<forall>p l. (p, l) \<in> live \<longrightarrow> linked_list_dealloc p l s' \<noteq> None))"
proof -
  obtain s where s: "linked_list_init start heap_size (linked_list_new mem) = Some s"
      "linked_list_inv start (start + heap_size) s {}"
    using linked_list_init_inv [OF assms] by blast
  then show ?thesis
    using ll.steps_safe [OF _ s(2)] by blast
qed

text \<open>Two requests on the heap \<open>[4104, 5120)\<close>, the second with a stricter alignment.\<close>

definition ll_example :: "(nat \<times> nat \<times> linked_list) option" where
  "ll_example =
     do { s \<leftarrow> linked_list_init 4104 1016 (linked_list_new (\<lambda>_. 7));
          (p, s) \<leftarrow> linked_list_alloc \<lparr>lsize = 100, lalign = 8\<rparr> s;
          (q, s) \<leftarrow> linked_list_alloc \<lparr>lsize = 64, lalign = 64\<rparr> s;
          Some (p, q, s) }"

lemma ll_example_pointers: "map_option (\<lambda>(p, q, s). (p, q)) ll_example = Some (4104, 4224)"
  by code_simp

theorem linked_list_allocator_safe_witness:
  "\<exists>s. (heap_step node_layout linked_list_alloc linked_list_dealloc 8 ll_store)\<^sup>*\<^sup>*
      (the (linked_list_init 4104 1016 (linked_list_new (\<lambda>_. 7))), {})
      (s, {(4104, \<lparr>lsize = 100, lalign = 8\<rparr>), (4224, \<lparr>lsize = 64, lalign = 64\<rparr>)}) \<and>
    live_ok {(4104, \<lparr>lsize = 100, lalign = 8\<rparr>), (4224, \<lparr>lsize = 64, lalign = 64\<rparr>)} 4104 5120"
proof -
  let ?l = "\<lparr>lsize = 100, lalign = 8\<rparr>" and ?m = "\<lparr>lsize = 64, lalign = 64\<rparr>"
  let ?step = "heap_step node_layout linked_list_alloc linked_list_dealloc 8 ll_store"
  obtain s where s: "linked_list_init 4104 1016 (linked_list_new (\<lambda>_. 7)) = Some s"
    and safe: "\<And>s' live. ?step\<^sup>*\<^sup>* (s, {}) (s', live) \<Longrightarrow> live_ok live 4104 5120"
    using linked_list_allocator_safe [of 4104 1016 "\<lambda>_. 7"] by auto
  from s ll_example_pointers obtain s1 s2 where
      s1: "linked_list_alloc ?l s = Some (4104, s1)" and s2: "linked_list_alloc ?m s1 = Some (4224, s2)"
    by (auto simp: ll_example_def split: bind_splits)
  have layouts: "node_layout ?l" "node_layout ?m"
    by code_simp+
  have "?step (s, {}) (s1, {(4104, ?l)})" "?step (s1, {(4104, ?l)}) (s2, {(4104, ?l), (4224, ?m)})"
    using heap_alloc [where admissible = node_layout and alloc = linked_list_alloc, OF layouts(1) s1, of _ _ _ "{}"]
      heap_alloc [where admissible = node_layout and alloc = linked_list_alloc, OF layouts(2) s2, of _ _ _ "{(4104, ?l)}"]
    by (auto simp: insert_commute)
  then have "?step\<^sup>*\<^sup>* (s, {}) (s2, {(4104, ?l), (4224, ?m)})"
    by (meson converse_rtranclp_into_rtranclp r_into_rtranclp)
  with safe s show ?thesis
    by auto
qed

text \<open>
  A region that is cut to satisfy an alignment loses the bytes in front of the block: after one
  allocation and its return the 56 bytes at 4104 are on no list.
\<close>

fun free_regions :: "nat \<Rightarrow> nat \<Rightarrow> linked_list \<Rightarrow> (nat \<times> nat) list" where
  "free_regions 0 a s = []"
| "free_regions (Suc k) a s = (if a = 0 then [] else (a, size_at s a) # free_regions k (next_of a s) s)"

lemma linked_list_leaks_front_gap:
  "do { s \<leftarrow> linked_list_init 4104 1016 (linked_list_new (\<lambda>_. 7));
        (p, s') \<leftarrow> linked_list_alloc \<lparr>lsize = 16, lalign = 64\<rparr> s;
        s'' \<leftarrow> linked_list_dealloc p \<lparr>lsize = 16, lalign = 64\<rparr> s';
        Some (free_regions 9 (next_of 0 s) s, p, free_regions 9 (next_of 0 s'') s'') } =
   Some ([(4104, 1016)], 4160, [(4160, 64), (4224, 896)])"
  by code_simp

end
