(* ===== verification/Tlsf.thy ===== *)
theory Tlsf
  imports Alloc_Interface "HOL-Library.Code_Target_Nat"
begin

text \<open>
  \<^verbatim>\<open>kernel/src/allocator/tlsf.rs\<close>: the two-level segregated fit allocator behind the kernel's
  heap.

  Memory maps the address of an 8-byte cell to its value.  A \<^verbatim>\<open>BlockHeader\<close> is one cell, with
  \<^verbatim>\<open>prev_phys_size\<close> in the low and \<^verbatim>\<open>size_and_flags\<close> in the high half; a
  \<^verbatim>\<open>FreeNode\<close> is the two cells that follow it.  \<^verbatim>\<open>Option<NonNull<_>>\<close> is an
  address, 0 for \<^verbatim>\<open>None\<close>.  The arrays of the struct are functions of their indices, with
  the bounds checked at every access.
\<close>

unbundle bit_operations_syntax

subsection \<open>The allocator\<close>

definition HEADER_SIZE :: nat where "HEADER_SIZE = 8"
definition MIN_BLOCK_SIZE :: nat where "MIN_BLOCK_SIZE = 32"
definition MIN_FL :: nat where "MIN_FL = 5"
definition FL_COUNT :: nat where "FL_COUNT = 19"
definition SL_COUNT :: nat where "SL_COUNT = 32"
definition FREE_FLAG :: u32 where "FREE_FLAG = 1"
definition PREV_FREE_FLAG :: u32 where "PREV_FREE_FLAG = 2"

record tlsf =
  heap_start :: nat
  heap_end :: nat
  fl_bitmap :: u32
  sl_bitmaps :: "nat \<Rightarrow> u32"
  free_lists :: "nat \<Rightarrow> nat \<Rightarrow> nat"
  mem :: "nat \<Rightarrow> u64"

definition tlsf_new :: "(nat \<Rightarrow> u64) \<Rightarrow> tlsf" where
  "tlsf_new m =
     \<lparr>heap_start = 0, heap_end = 0, fl_bitmap = 0, sl_bitmaps = (\<lambda>_. 0), free_lists = (\<lambda>_ _. 0), mem = m\<rparr>"

subsection \<open>Block headers\<close>

definition prev_phys_size :: "tlsf \<Rightarrow> nat \<Rightarrow> u32" where
  "prev_phys_size t a = ucast (mem t a)"

definition size_and_flags :: "tlsf \<Rightarrow> nat \<Rightarrow> u32" where
  "size_and_flags t a = ucast (drop_bit 32 (mem t a))"

definition put_header :: "nat \<Rightarrow> u32 \<Rightarrow> u32 \<Rightarrow> tlsf \<Rightarrow> tlsf" where
  "put_header a prev saf t = t\<lparr>mem := (mem t)(a := ucast prev OR push_bit 32 (ucast saf))\<rparr>"

definition set_prev_phys_size :: "nat \<Rightarrow> u32 \<Rightarrow> tlsf \<Rightarrow> tlsf" where
  "set_prev_phys_size a v t = put_header a v (size_and_flags t a) t"

definition set_size_and_flags :: "nat \<Rightarrow> u32 \<Rightarrow> tlsf \<Rightarrow> tlsf" where
  "set_size_and_flags a v t = put_header a (prev_phys_size t a) v t"

definition block_size :: "tlsf \<Rightarrow> nat \<Rightarrow> nat" where
  "block_size t a = unat (size_and_flags t a AND NOT 3)"

definition is_free :: "tlsf \<Rightarrow> nat \<Rightarrow> bool" where
  "is_free t a \<longleftrightarrow> size_and_flags t a AND FREE_FLAG \<noteq> 0"

definition prev_is_free :: "tlsf \<Rightarrow> nat \<Rightarrow> bool" where
  "prev_is_free t a \<longleftrightarrow> size_and_flags t a AND PREV_FREE_FLAG \<noteq> 0"

definition set_block :: "nat \<Rightarrow> nat \<Rightarrow> bool \<Rightarrow> bool \<Rightarrow> tlsf \<Rightarrow> tlsf option" where
  "set_block a sz free prev_free t =
     do { require (sz \<le> 4294967295);
          Some (set_size_and_flags a
            (of_nat sz OR (if free then FREE_FLAG else 0) OR (if prev_free then PREV_FREE_FLAG else 0)) t) }"

definition mark_free :: "nat \<Rightarrow> bool \<Rightarrow> tlsf \<Rightarrow> tlsf" where
  "mark_free a free t =
     (if free then set_size_and_flags a (size_and_flags t a OR FREE_FLAG) t
      else set_size_and_flags a (size_and_flags t a AND NOT FREE_FLAG) t)"

definition mark_prev_free :: "nat \<Rightarrow> bool \<Rightarrow> tlsf \<Rightarrow> tlsf" where
  "mark_prev_free a prev_free t =
     (if prev_free then set_size_and_flags a (size_and_flags t a OR PREV_FREE_FLAG) t
      else set_size_and_flags a (size_and_flags t a AND NOT PREV_FREE_FLAG) t)"

subsection \<open>Free nodes\<close>

definition node_prev :: "tlsf \<Rightarrow> nat \<Rightarrow> nat" where
  "node_prev t a = unat (mem t (a + 8))"

definition node_next :: "tlsf \<Rightarrow> nat \<Rightarrow> nat" where
  "node_next t a = unat (mem t (a + 16))"

definition set_node_prev :: "nat \<Rightarrow> nat \<Rightarrow> tlsf \<Rightarrow> tlsf" where
  "set_node_prev a p t = t\<lparr>mem := (mem t)(a + 8 := of_nat p)\<rparr>"

definition set_node_next :: "nat \<Rightarrow> nat \<Rightarrow> tlsf \<Rightarrow> tlsf" where
  "set_node_next a p t = t\<lparr>mem := (mem t)(a + 16 := of_nat p)\<rparr>"

subsection \<open>Size classes and free lists\<close>

definition mapping :: "nat \<Rightarrow> (nat \<times> nat) option" where
  "mapping sz =
     do { fl1 \<leftarrow> usub 64 (leading_zeros64 sz);
          fl \<leftarrow> usub fl1 1;
          m \<leftarrow> umul (sz XOR push_bit fl 1) SL_COUNT;
          let sl = drop_bit fl m;
          Some (min (fl - MIN_FL) (FL_COUNT - 1), min sl (SL_COUNT - 1)) }"

definition get_list :: "nat \<Rightarrow> nat \<Rightarrow> tlsf \<Rightarrow> nat option" where
  "get_list fli sl t = do { require (fli < FL_COUNT \<and> sl < SL_COUNT); Some (free_lists t fli sl) }"

definition set_list :: "nat \<Rightarrow> nat \<Rightarrow> nat \<Rightarrow> tlsf \<Rightarrow> tlsf option" where
  "set_list fli sl p t =
     do { require (fli < FL_COUNT \<and> sl < SL_COUNT);
          Some (t\<lparr>free_lists := (free_lists t)(fli := (free_lists t fli)(sl := p))\<rparr>) }"

definition get_sl :: "nat \<Rightarrow> tlsf \<Rightarrow> u32 option" where
  "get_sl fli t = do { require (fli < FL_COUNT); Some (sl_bitmaps t fli) }"

definition set_sl :: "nat \<Rightarrow> u32 \<Rightarrow> tlsf \<Rightarrow> tlsf option" where
  "set_sl fli v t = do { require (fli < FL_COUNT); Some (t\<lparr>sl_bitmaps := (sl_bitmaps t)(fli := v)\<rparr>) }"

definition insert_block :: "nat \<Rightarrow> nat \<Rightarrow> tlsf \<Rightarrow> tlsf option" where
  "insert_block block sz t =
     do { (fli, sl) \<leftarrow> mapping sz;
          head \<leftarrow> get_list fli sl t;
          let t = (if head \<noteq> 0
                   then set_node_prev head block (set_node_next block head (set_node_prev block 0 t))
                   else set_node_next block 0 (set_node_prev block 0 t));
          t \<leftarrow> set_list fli sl block t;
          b \<leftarrow> get_sl fli t;
          t \<leftarrow> set_sl fli (b OR push_bit sl 1) t;
          Some (t\<lparr>fl_bitmap := fl_bitmap t OR push_bit fli 1\<rparr>) }"

definition remove_block :: "nat \<Rightarrow> tlsf \<Rightarrow> tlsf option" where
  "remove_block block t =
     do { (fli, sl) \<leftarrow> mapping (block_size t block);
          let p = node_prev t block;
          let n = node_next t block;
          if p = 0 \<and> n = 0 then
            do { t \<leftarrow> set_list fli sl 0 t;
                 b \<leftarrow> get_sl fli t;
                 t \<leftarrow> set_sl fli (b AND NOT (push_bit sl 1)) t;
                 b \<leftarrow> get_sl fli t;
                 Some (if b = 0 then t\<lparr>fl_bitmap := fl_bitmap t AND NOT (push_bit fli 1)\<rparr> else t) }
          else if p = 0 then
            do { t \<leftarrow> set_list fli sl n t;
                 Some (set_node_prev n 0 t) }
          else if n = 0 then Some (set_node_next p 0 t)
          else Some (set_node_prev n p (set_node_next p n t)) }"

definition pop_block :: "nat \<Rightarrow> nat \<Rightarrow> tlsf \<Rightarrow> (nat \<times> tlsf) option" where
  "pop_block fli sl t =
     do { block \<leftarrow> get_list fli sl t;
          require (block \<noteq> 0);
          t \<leftarrow> remove_block block t;
          Some (block, t) }"

text \<open>\<^verbatim>\<open>u32::trailing_zeros\<close>\<close>

definition trailing_zeros32 :: "u32 \<Rightarrow> nat" where
  "trailing_zeros32 w = (case filter (\<lambda>i. bit w i) [0..<32] of [] \<Rightarrow> 32 | i # _ \<Rightarrow> i)"

text \<open>The loop over the second-level lists of one first-level class.\<close>

fun find_in_class :: "nat \<Rightarrow> nat \<Rightarrow> nat list \<Rightarrow> tlsf \<Rightarrow> (nat option \<times> tlsf) option" where
  "find_in_class fli needed [] t = Some (None, t)"
| "find_in_class fli needed (sl2 # sls) t =
     do { b \<leftarrow> get_sl fli t;
          if b AND push_bit sl2 1 \<noteq> 0 then
            do { h \<leftarrow> get_list fli sl2 t;
                 if h \<noteq> 0 \<and> block_size t h \<ge> needed
                 then do { (blk, t) \<leftarrow> pop_block fli sl2 t; Some (Some blk, t) }
                 else find_in_class fli needed sls t }
          else find_in_class fli needed sls t }"

definition find_block :: "nat \<Rightarrow> nat \<Rightarrow> nat \<Rightarrow> tlsf \<Rightarrow> (nat option \<times> tlsf) option" where
  "find_block fli sl needed t =
     do { b \<leftarrow> get_sl fli t;
          let sl_map = b AND push_bit sl (NOT 0);
          (r, t) \<leftarrow> (if sl_map \<noteq> 0
                    then find_in_class fli needed [trailing_zeros32 sl_map..<SL_COUNT] t
                    else Some (None, t));
          case r of
            Some blk \<Rightarrow> Some (Some blk, t)
          | None \<Rightarrow>
              (let fl_map = fl_bitmap t AND push_bit (fli + 1) (NOT 0) in
               if fl_map \<noteq> 0 then
                 do { let fl2 = trailing_zeros32 fl_map;
                      b2 \<leftarrow> get_sl fl2 t;
                      (blk, t) \<leftarrow> pop_block fl2 (trailing_zeros32 b2) t;
                      Some (Some blk, t) }
               else Some (None, t)) }"

subsection \<open>The operations\<close>

definition alloc_from :: "nat \<Rightarrow> nat \<Rightarrow> nat \<Rightarrow> tlsf \<Rightarrow> (nat \<times> tlsf) option" where
  "alloc_from block user_size align t =
     do { let blk_size = block_size t block;
          user_start \<leftarrow> uadd block HEADER_SIZE;
          aligned_start \<leftarrow> align_up user_start align;
          front_padding \<leftarrow> usub aligned_start user_start;
          hp \<leftarrow> uadd HEADER_SIZE front_padding;
          hpu \<leftarrow> uadd hp user_size;
          tc \<leftarrow> align_up hpu 8;
          let total_consumed = max tc MIN_BLOCK_SIZE;
          if blk_size < total_consumed then
            do { t \<leftarrow> set_block block blk_size True (prev_is_free t block) t;
                 t \<leftarrow> insert_block block blk_size t;
                 Some (0, t) }
          else
            do { split \<leftarrow> uadd total_consumed MIN_BLOCK_SIZE;
                 t \<leftarrow> (if blk_size \<ge> split then
                       do { rem_addr \<leftarrow> uadd block total_consumed;
                            let rem_size = blk_size - total_consumed;
                            t \<leftarrow> set_block block total_consumed False (prev_is_free t block) t;
                            let t = set_prev_phys_size rem_addr (of_nat total_consumed) t;
                            t \<leftarrow> set_block rem_addr rem_size True False t;
                            nxt \<leftarrow> uadd rem_addr rem_size;
                            let t = set_prev_phys_size nxt (of_nat rem_size) t;
                            let t = mark_prev_free nxt True t;
                            insert_block rem_addr rem_size t }
                     else
                       do { let t = mark_free block False t;
                            nxt \<leftarrow> uadd block blk_size;
                            Some (mark_prev_free nxt False t) });
                 Some (aligned_start, t) } }"

definition tlsf_init :: "nat \<Rightarrow> nat \<Rightarrow> tlsf \<Rightarrow> tlsf option" where
  "tlsf_init start sz t =
     do { e \<leftarrow> uadd start sz;
          let t = t\<lparr>heap_start := start, heap_end := e\<rparr>;
          let t = set_prev_phys_size start 0 t;
          t \<leftarrow> set_block start sz True False t;
          let t = set_prev_phys_size e (of_nat sz) t;
          t \<leftarrow> set_block e 0 False True t;
          insert_block start sz t }"

definition malloc :: "nat \<Rightarrow> nat \<Rightarrow> tlsf \<Rightarrow> (nat \<times> tlsf) option" where
  "malloc sz align t =
     do { let align = max align HEADER_SIZE;
          let worst_padding = align - HEADER_SIZE;
          hp \<leftarrow> uadd HEADER_SIZE worst_padding;
          hps \<leftarrow> uadd hp sz;
          n \<leftarrow> align_up hps 8;
          let needed = max n MIN_BLOCK_SIZE;
          (fli, sl) \<leftarrow> mapping needed;
          let fli = min fli (FL_COUNT - 1);
          (found, t) \<leftarrow> find_block fli sl needed t;
          case found of
            None \<Rightarrow> Some (0, t)
          | Some b \<Rightarrow> alloc_from b sz align t }"

definition free :: "nat \<Rightarrow> tlsf \<Rightarrow> tlsf option" where
  "free p t =
     (if p = 0 then Some t
      else
        do { header \<leftarrow> usub p HEADER_SIZE;
             let sz = block_size t header;
             let t = mark_free header True t;
             next_ptr \<leftarrow> uadd header sz;
             (sz, t) \<leftarrow>
               (if next_ptr < heap_end t \<and> is_free t next_ptr then
                  do { t \<leftarrow> remove_block next_ptr t;
                       sz \<leftarrow> uadd sz (block_size t next_ptr);
                       t \<leftarrow> set_block header sz True (prev_is_free t header) t;
                       Some (sz, t) }
                else Some (sz, t));
             (header, sz, t) \<leftarrow>
               (if prev_is_free t header then
                  do { let prev_size = unat (prev_phys_size t header);
                       prv \<leftarrow> usub header prev_size;
                       t \<leftarrow> remove_block prv t;
                       sz \<leftarrow> uadd sz prev_size;
                       t \<leftarrow> set_block prv sz True (prev_is_free t prv) t;
                       Some (prv, sz, t) }
                else Some (header, sz, t));
             nxt \<leftarrow> uadd header sz;
             let t = set_prev_phys_size nxt (of_nat sz) t;
             let t = mark_prev_free nxt True t;
             insert_block header sz t })"

end
