(* ===== verification/Tlsf_Class.thy ===== *)
theory Tlsf_Class
  imports Tlsf
begin

text \<open>
  The word level of the allocator: what is read back from a block header, and the size classes.
\<close>

subsection \<open>Headers\<close>

lemma header_low: "ucast (ucast (p :: u32) OR push_bit 32 (ucast (s :: u32)) :: u64) = p"
  by (rule bit_word_eqI) (auto simp: bit_ucast_iff bit_or_iff bit_push_bit_iff)

lemma header_high: "ucast (drop_bit 32 (ucast (p :: u32) OR push_bit 32 (ucast (s :: u32)) :: u64)) = s"
  by (rule bit_word_eqI) (auto simp: bit_ucast_iff bit_or_iff bit_push_bit_iff bit_drop_bit_eq dest: bit_imp_le_length)

lemma put_header_read [simp]:
  "prev_phys_size (put_header a p s t) b = (if b = a then p else prev_phys_size t b)"
  "size_and_flags (put_header a p s t) b = (if b = a then s else size_and_flags t b)"
  using header_low [of p s] header_high [of p s]
  by (auto simp: put_header_def prev_phys_size_def size_and_flags_def)

lemma put_header_fields [simp]:
  "heap_start (put_header a p s t) = heap_start t" "heap_end (put_header a p s t) = heap_end t"
  "fl_bitmap (put_header a p s t) = fl_bitmap t" "sl_bitmaps (put_header a p s t) = sl_bitmaps t"
  "free_lists (put_header a p s t) = free_lists t"
  by (simp_all add: put_header_def)

lemma put_header_mem: "b \<noteq> a \<Longrightarrow> mem (put_header a p s t) b = mem t b"
  by (simp add: put_header_def)

text \<open>The word of a block of a size divisible by 4.\<close>

definition enc :: "nat \<Rightarrow> bool \<Rightarrow> bool \<Rightarrow> u32" where
  "enc s f pf = of_nat s OR (if f then FREE_FLAG else 0) OR (if pf then PREV_FREE_FLAG else 0)"

lemma bit_size: "4 dvd s \<Longrightarrow> bit (of_nat s :: u32) n \<Longrightarrow> 2 \<le> n"
proof -
  assume "4 dvd s" "bit (of_nat s :: u32) n"
  then obtain k where "s = 4 * k" by blast
  then have "(of_nat s :: u32) = push_bit 2 (of_nat k)"
    by (simp add: push_bit_eq_mult)
  with \<open>bit (of_nat s :: u32) n\<close> show "2 \<le> n"
    by (simp add: bit_push_bit_iff)
qed

lemma bit_flags:
  "bit (1 :: u32) n \<longleftrightarrow> n = 0" "bit (2 :: u32) n \<longleftrightarrow> n = 1" "bit (3 :: u32) n \<longleftrightarrow> n < 2"
proof -
  show "bit (1 :: u32) n \<longleftrightarrow> n = 0"
    by (simp add: bit_1_iff)
  have "bit ((2 :: u32) ^ m) n \<longleftrightarrow> n = m \<and> m < 32" for m
    by (auto simp: bit_exp_iff)
  from this [of 1] show "bit (2 :: u32) n \<longleftrightarrow> n = 1"
    by simp
  have "bit (mask m :: u32) n \<longleftrightarrow> n < m \<and> n < 32" for m
    by (auto simp: bit_mask_iff)
  from this [of 2] show "bit (3 :: u32) n \<longleftrightarrow> n < 2"
    by (auto simp: mask_eq_exp_minus_1)
qed

lemma bit_enc:
  assumes "4 dvd s"
  shows "bit (enc s f pf) n \<longleftrightarrow> bit (of_nat s :: u32) n \<or> (f \<and> n = 0) \<or> (pf \<and> n = 1)"
  by (cases f; cases pf; simp only: enc_def FREE_FLAG_def PREV_FREE_FLAG_def bit_or_iff bit_flags if_True if_False
      bit_0_eq bot_fun_def bot_bool_def simp_thms; blast)

lemma enc_ops:
  assumes "4 dvd s"
  shows "enc s f pf AND NOT 3 = of_nat s" "enc s f pf AND FREE_FLAG \<noteq> 0 \<longleftrightarrow> f"
    "enc s f pf AND PREV_FREE_FLAG \<noteq> 0 \<longleftrightarrow> pf"
    "enc s f pf OR FREE_FLAG = enc s True pf" "enc s f pf AND NOT FREE_FLAG = enc s False pf"
    "enc s f pf OR PREV_FREE_FLAG = enc s f True" "enc s f pf AND NOT PREV_FREE_FLAG = enc s f False"
proof -
  have low: "bit (of_nat s :: u32) n \<Longrightarrow> 2 \<le> n" for n
    using bit_size [OF assms] .
  note bits = bit_enc [OF assms] bit_flags bit_and_iff bit_or_iff bit_not_iff possible_bit_word FREE_FLAG_def PREV_FREE_FLAG_def
  show "enc s f pf AND NOT 3 = of_nat s"
    by (rule bit_word_eqI, unfold bits, use low in force)
  have "\<not> bit (of_nat s :: u32) 0" "\<not> bit (of_nat s :: u32) 1"
    using low [of 0] low [of 1] by auto
  then show "enc s f pf AND FREE_FLAG \<noteq> 0 \<longleftrightarrow> f" "enc s f pf AND PREV_FREE_FLAG \<noteq> 0 \<longleftrightarrow> pf"
    using and_exp_eq_0_iff_not_bit [of "enc s f pf" 0] and_exp_eq_0_iff_not_bit [of "enc s f pf" 1] bit_enc [OF assms, of f pf]
    by (simp_all add: FREE_FLAG_def PREV_FREE_FLAG_def)
  show "enc s f pf OR FREE_FLAG = enc s True pf" "enc s f pf AND NOT FREE_FLAG = enc s False pf"
    "enc s f pf OR PREV_FREE_FLAG = enc s f True" "enc s f pf AND NOT PREV_FREE_FLAG = enc s f False"
    by (rule bit_word_eqI, unfold bits, use low in force)+
qed

text \<open>The header at \<open>a\<close> describes a block; the size of the one before it only if that is free.\<close>

definition hdr_ok :: "tlsf \<Rightarrow> nat \<Rightarrow> nat \<Rightarrow> bool \<Rightarrow> bool \<Rightarrow> nat \<Rightarrow> bool" where
  "hdr_ok t a s f pf ps \<longleftrightarrow>
     size_and_flags t a = enc s f pf \<and> 8 dvd s \<and> s < 2 ^ 32 \<and> (pf \<longrightarrow> prev_phys_size t a = of_nat ps)"

lemma hdr_read:
  assumes "hdr_ok t a s f pf ps"
  shows "block_size t a = s" "is_free t a = f" "prev_is_free t a = pf"
proof -
  have "4 dvd s" "s < 4294967296"
    using assms by (auto simp: hdr_ok_def intro: dvd_trans [of 4 8])
  then show "block_size t a = s" "is_free t a = f" "prev_is_free t a = pf"
    using assms enc_ops [of s f pf]
    by (auto simp: hdr_ok_def block_size_def is_free_def prev_is_free_def unsigned_of_nat take_bit_nat_eq_self)
qed

lemma hdr_ok_cong: "mem t' a = mem t a \<Longrightarrow> hdr_ok t' a s f pf ps = hdr_ok t a s f pf ps"
  by (simp add: hdr_ok_def size_and_flags_def prev_phys_size_def)

lemmas header_ops = set_prev_phys_size_def set_size_and_flags_def mark_free_def mark_prev_free_def

subsection \<open>Size classes\<close>

definition fl_of :: "nat \<Rightarrow> nat" where
  "fl_of s = bit_len s - 1"

definition class_of :: "nat \<Rightarrow> nat \<times> nat" where
  "class_of s = (min (fl_of s - 5) 18, (s - 2 ^ fl_of s) * 32 div 2 ^ fl_of s)"

lemma fl_of_bounds: "0 < s \<Longrightarrow> 2 ^ fl_of s \<le> s \<and> s < 2 * 2 ^ fl_of s"
  using bit_len_bounds [of s] by (cases "bit_len s") (auto simp: fl_of_def)

lemma fl_of_le: "s < 2 ^ n \<Longrightarrow> 0 < n \<Longrightarrow> fl_of s < n"
  using bit_len_le [of s n] by (auto simp: fl_of_def)

lemma class_bounds:
  assumes "0 < s"
  shows "fst (class_of s) < 19" "snd (class_of s) < 32"
proof -
  show "fst (class_of s) < 19"
    by (simp add: class_of_def)
  have "(s - 2 ^ fl_of s) * 32 < 32 * 2 ^ fl_of s"
    using fl_of_bounds [OF assms] by linarith
  then show "snd (class_of s) < 32"
    by (simp add: class_of_def less_mult_imp_div_less)
qed

lemma xor_top:
  assumes "2 ^ n \<le> s" "s < 2 * 2 ^ n"
  shows "s XOR push_bit n 1 = s - (2 :: nat) ^ n"
proof -
  define r where "r = s - 2 ^ n"
  have s: "s = 2 ^ n + r" "r < 2 ^ n"
    using assms by (auto simp: r_def)
  have or: "2 ^ n + r = 2 ^ n XOR r"
  proof -
    have "(2 :: nat) ^ n AND r = 0"
    proof (rule bit_eqI)
      fix k
      have "\<not> bit r n"
        using s(2) by (simp add: bit_iff_odd)
      then show "bit ((2 :: nat) ^ n AND r) k = bit (0 :: nat) k"
        by (auto simp: bit_and_iff bit_exp_iff)
    qed
    then show ?thesis
      by (simp add: disjunctive_xor_eq_or disjunctive_add_eq_xor)
  qed
  have "s XOR 2 ^ n = (2 ^ n XOR 2 ^ n) XOR r"
    unfolding s(1) or by (simp add: xor.commute xor.left_commute)
  then show ?thesis
    by (simp add: push_bit_eq_mult r_def)
qed

text \<open>The mapping fails only by overflow of the multiplication.\<close>

lemma mapping_eq:
  assumes "0 < s" "s < usize_bound"
  shows "mapping s = map_option (\<lambda>_. class_of s) (umul (s - 2 ^ fl_of s) 32)"
proof -
  have x: "s XOR push_bit (fl_of s) 1 = s - 2 ^ fl_of s"
    using fl_of_bounds [OF assms(1)] by (intro xor_top) auto
  have "bit_len s \<le> 64"
    using bit_len_le [of s 64] assms(2) by simp
  then have fl: "usub 64 (leading_zeros64 s) = Some (bit_len s)" "usub (bit_len s) 1 = Some (fl_of s)"
    using bit_len_bounds [OF assms(1)] by (auto simp: usub_def leading_zeros64_def fl_of_def)
  have "snd (class_of s) \<le> 31"
    using class_bounds(2) [OF assms(1)] by simp
  then show ?thesis
    unfolding mapping_def fl bind.bind_lunit SL_COUNT_def x umul_def
    by (simp add: class_of_def drop_bit_eq_div MIN_FL_def FL_COUNT_def SL_COUNT_def)
qed

lemma mapping_class:
  assumes "0 < s" "s < 2 ^ 59"
  shows "mapping s = Some (class_of s)"
  using assms by (simp add: mapping_eq umul_def)

text \<open>A block of a higher first-level class is larger, and so is one of a higher second-level class.\<close>

lemma class_fl_less:
  assumes "0 < s" "0 < s'" "fst (class_of s) < fst (class_of s')"
  shows "s < s'"
proof -
  have "fl_of s < fl_of s'"
    using assms(3) by (auto simp: class_of_def min_def split: if_splits)
  then have "2 * (2 :: nat) ^ fl_of s \<le> 2 ^ fl_of s'"
    using power_increasing [of "Suc (fl_of s)" "fl_of s'" "2 :: nat"] by simp
  then show ?thesis
    using fl_of_bounds [OF assms(1)] fl_of_bounds [OF assms(2)] by linarith
qed

lemma fl_of_range:
  assumes "32 \<le> u" "u < 2 ^ 24"
  shows "5 \<le> fl_of u \<and> fl_of u < 24"
proof -
  have "\<not> fl_of u < 5"
  proof
    assume "fl_of u < 5"
    then have "(2 :: nat) ^ Suc (fl_of u) \<le> 2 ^ 5"
      by (intro power_increasing) auto
    with fl_of_bounds [of u] assms show False by simp
  qed
  with fl_of_le [OF assms(2)] show ?thesis by simp
qed

lemma class_sl_less:
  assumes "32 \<le> s" "32 \<le> s'" "s < 2 ^ 24" "s' < 2 ^ 24"
    and "fst (class_of s) = fst (class_of s')" "snd (class_of s) < snd (class_of s')"
  shows "s < s'"
proof -
  have "5 \<le> fl_of s" "fl_of s < 24" "5 \<le> fl_of s'" "fl_of s' < 24"
    using assms fl_of_range by auto
  then have fl: "fl_of s = fl_of s'"
    using assms(5) by (simp add: class_of_def)
  have "s - 2 ^ fl_of s' < s' - 2 ^ fl_of s'"
  proof (rule ccontr)
    assume "\<not> ?thesis"
    then have "(s' - 2 ^ fl_of s') * 32 div 2 ^ fl_of s' \<le> (s - 2 ^ fl_of s') * 32 div 2 ^ fl_of s'"
      by (intro div_le_mono mult_le_mono1) simp
    with assms(6) fl show False
      by (simp add: class_of_def)
  qed
  then show ?thesis by linarith
qed

end
