(* ===== verification/Tlsf_Index.thy ===== *)
theory Tlsf_Index
  imports Tlsf_Class
begin

text \<open>
  The index of free blocks: doubly linked lists per size class, threaded through the free blocks, and
  the two levels of bitmaps.  Its abstraction is the map from the address of a free block to its size;
  \<^verbatim>\<open>insert\<close> and \<^verbatim>\<open>remove\<close> update that map, and \<^verbatim>\<open>find_block\<close> takes a
  block that is large enough out of it.
\<close>

subsection \<open>Linked lists\<close>

text \<open>
  The nodes \<open>xs\<close>, entered by the pointer \<open>h\<close> from \<open>p\<close> and left by the pointer
  \<open>l\<close> from \<open>q\<close>.
\<close>

fun dseg :: "tlsf \<Rightarrow> nat \<Rightarrow> nat \<Rightarrow> nat list \<Rightarrow> nat \<Rightarrow> nat \<Rightarrow> bool" where
  "dseg t p h [] q l \<longleftrightarrow> p = q \<and> h = l"
| "dseg t p h (a # as) q l \<longleftrightarrow> h = a \<and> a \<noteq> 0 \<and> node_prev t a = p \<and> dseg t a (node_next t a) as q l"

lemma dseg_append: "dseg t p h (xs @ ys) q l \<longleftrightarrow> (\<exists>q' l'. dseg t p h xs q' l' \<and> dseg t q' l' ys q l)"
  by (induction xs arbitrary: p h) auto

lemma dseg_cong:
  "(\<And>a. a \<in> set xs \<Longrightarrow> node_prev t' a = node_prev t a \<and> node_next t' a = node_next t a) \<Longrightarrow>
     dseg t' p h xs q l = dseg t p h xs q l"
  by (induction xs arbitrary: p h) auto

lemma dseg_last: "dseg t p h xs q l \<Longrightarrow> xs \<noteq> [] \<Longrightarrow> q = last xs"
  by (induction xs arbitrary: p h) (auto split: if_splits)

lemma dseg_nonzero: "dseg t p h xs q l \<Longrightarrow> 0 \<notin> set xs"
  by (induction xs arbitrary: p h) auto

text \<open>Nodes far enough apart do not share cells.\<close>

definition nodes_apart :: "nat \<Rightarrow> nat \<Rightarrow> bool" where
  "nodes_apart a b \<longleftrightarrow> a + 24 \<le> b \<or> b + 24 \<le> a"

lemma node_set_other:
  assumes "nodes_apart a b"
  shows "node_prev (set_node_prev a p t) b = node_prev t b" "node_next (set_node_prev a p t) b = node_next t b"
    "node_prev (set_node_next a p t) b = node_prev t b" "node_next (set_node_next a p t) b = node_next t b"
  using assms by (auto simp: nodes_apart_def node_prev_def node_next_def set_node_prev_def set_node_next_def)

lemma node_set_same:
  assumes "p < usize_bound"
  shows "node_prev (set_node_prev a p t) a = p" "node_next (set_node_prev a p t) a = node_next t a"
    "node_next (set_node_next a p t) a = p" "node_prev (set_node_next a p t) a = node_prev t a"
  using assms
  by (auto simp: node_prev_def node_next_def set_node_prev_def set_node_next_def unsigned_of_nat take_bit_nat_eq_self)

lemma node_set_fields [simp]:
  "heap_start (set_node_prev a p t) = heap_start t" "heap_end (set_node_prev a p t) = heap_end t"
  "fl_bitmap (set_node_prev a p t) = fl_bitmap t" "sl_bitmaps (set_node_prev a p t) = sl_bitmaps t"
  "free_lists (set_node_prev a p t) = free_lists t"
  "heap_start (set_node_next a p t) = heap_start t" "heap_end (set_node_next a p t) = heap_end t"
  "fl_bitmap (set_node_next a p t) = fl_bitmap t" "sl_bitmaps (set_node_next a p t) = sl_bitmaps t"
  "free_lists (set_node_next a p t) = free_lists t"
  by (simp_all add: set_node_prev_def set_node_next_def)

text \<open>Changing the pointer into a segment, and the one out of it.\<close>

lemma dseg_new_first:
  assumes "dseg t p h xs q l" "xs \<noteq> []" "p' < usize_bound" "\<And>a. a \<in> set (tl xs) \<Longrightarrow> nodes_apart h a"
  shows "dseg (set_node_prev h p' t) p' h xs q l"
proof -
  obtain as where xs: "xs = h # as"
    using assms(1,2) by (cases xs) auto
  then have h: "h \<noteq> 0" "dseg t h (node_next t h) as q l"
    using assms(1) by auto
  have "dseg (set_node_prev h p' t) h (node_next t h) as q l = dseg t h (node_next t h) as q l"
    using assms(4) node_set_other by (intro dseg_cong) (simp add: xs)
  then show ?thesis
    using h node_set_same [OF assms(3)] by (simp add: xs)
qed

lemma dseg_new_last:
  assumes "dseg t p h (xs @ [c]) q l" "l' < usize_bound" "\<And>a. a \<in> set xs \<Longrightarrow> nodes_apart c a"
  shows "dseg (set_node_next c l' t) p h (xs @ [c]) q l'"
proof -
  obtain q' l1 where l1: "dseg t p h xs q' l1" "dseg t q' l1 [c] q l"
    using assms(1) unfolding dseg_append by blast
  have "l1 = c \<and> c \<noteq> 0 \<and> node_prev t c = q' \<and> q = c"
    using l1(2) unfolding dseg.simps by blast
  with l1(1) have *: "dseg t p h xs q' c" "c \<noteq> 0" "node_prev t c = q'" "q = c"
    by blast+
  moreover have "dseg (set_node_next c l' t) p h xs q' c = dseg t p h xs q' c"
    using assms(3) node_set_other by (intro dseg_cong) auto
  moreover have "dseg (set_node_next c l' t) q' c [c] q l'"
    using * node_set_same [OF assms(2)] by simp
  ultimately show ?thesis
    unfolding dseg_append by blast
qed

subsection \<open>The index\<close>

definition spaced :: "(nat \<rightharpoonup> nat) \<Rightarrow> bool" where
  "spaced F \<longleftrightarrow>
     (\<forall>b \<in> dom F. 0 < b \<and> b < usize_bound \<and> 32 \<le> the (F b) \<and> the (F b) < 2 ^ 32) \<and>
     (\<forall>b \<in> dom F. \<forall>c \<in> dom F. b \<noteq> c \<longrightarrow> nodes_apart b c)"

definition lists_ok :: "tlsf \<Rightarrow> (nat \<rightharpoonup> nat) \<Rightarrow> (nat \<Rightarrow> nat \<Rightarrow> nat list) \<Rightarrow> bool" where
  "lists_ok t F L \<longleftrightarrow>
     (\<forall>i < 19. \<forall>j < 32. (\<exists>q. dseg t 0 (free_lists t i j) (L i j) q 0) \<and> distinct (L i j) \<and>
        set (L i j) = {b \<in> dom F. class_of (the (F b)) = (i, j)})"

definition bitmaps_ok :: "tlsf \<Rightarrow> (nat \<Rightarrow> nat \<Rightarrow> nat list) \<Rightarrow> bool" where
  "bitmaps_ok t L \<longleftrightarrow>
     (\<forall>i < 19. \<forall>j < 32. bit (sl_bitmaps t i) j \<longleftrightarrow> L i j \<noteq> []) \<and>
     (\<forall>i. bit (fl_bitmap t) i \<longleftrightarrow> i < 19 \<and> sl_bitmaps t i \<noteq> 0)"

definition index_ok :: "tlsf \<Rightarrow> (nat \<rightharpoonup> nat) \<Rightarrow> bool" where
  "index_ok t F \<longleftrightarrow> (\<exists>L. lists_ok t F L \<and> bitmaps_ok t L)"

text \<open>The cells of the nodes; an index operation changes no other cell.\<close>

definition node_cells :: "nat set \<Rightarrow> nat set" where
  "node_cells B = (\<Union>b \<in> B. {b + 8, b + 16})"

definition frame :: "nat set \<Rightarrow> tlsf \<Rightarrow> tlsf \<Rightarrow> bool" where
  "frame S t t' \<longleftrightarrow> heap_start t' = heap_start t \<and> heap_end t' = heap_end t \<and> (\<forall>a. a \<notin> S \<longrightarrow> mem t' a = mem t a)"

lemma frame_refl: "frame S t t"
  by (simp add: frame_def)

lemma frame_trans: "frame S t t' \<Longrightarrow> frame T t' t'' \<Longrightarrow> S \<subseteq> U \<Longrightarrow> T \<subseteq> U \<Longrightarrow> frame U t t''"
  unfolding frame_def by (metis subsetD)

lemma frame_mono: "frame S t t' \<Longrightarrow> S \<subseteq> T \<Longrightarrow> frame T t t'"
  by (auto simp: frame_def)

lemma frame_mem: "frame S t t' \<Longrightarrow> a \<notin> S \<Longrightarrow> mem t' a = mem t a"
  by (simp add: frame_def)

lemma frame_put_header: "frame {a} t (put_header a p s t)"
  by (simp add: frame_def put_header_mem)

lemma index_ok_cong:
  assumes "index_ok t F" "fl_bitmap t' = fl_bitmap t" "sl_bitmaps t' = sl_bitmaps t" "free_lists t' = free_lists t"
    and "\<And>a. a \<in> node_cells (dom F) \<Longrightarrow> mem t' a = mem t a"
  shows "index_ok t' F"
proof -
  obtain L where L: "lists_ok t F L" "bitmaps_ok t L"
    using assms(1) by (auto simp: index_ok_def)
  have "dseg t' p h (L i j) q l = dseg t p h (L i j) q l" if "i < 19" "j < 32" for i j p h q l
  proof (rule dseg_cong)
    fix a assume "a \<in> set (L i j)"
    then have "a \<in> dom F"
      using L(1) that by (auto simp: lists_ok_def)
    then have "a + 8 \<in> node_cells (dom F)" "a + 16 \<in> node_cells (dom F)"
      by (auto simp: node_cells_def)
    then show "node_prev t' a = node_prev t a \<and> node_next t' a = node_next t a"
      using assms(5) by (simp add: node_prev_def node_next_def)
  qed
  then have "lists_ok t' F L"
    using L(1) assms(4) by (auto simp: lists_ok_def)
  moreover have "bitmaps_ok t' L"
    using L(2) assms(2,3) by (simp add: bitmaps_ok_def)
  ultimately show ?thesis
    by (auto simp: index_ok_def)
qed

lemma spaced_class:
  assumes "spaced F" "F b = Some s"
  shows "mapping s = Some (class_of s)" "fst (class_of s) < 19" "snd (class_of s) < 32" "0 < b" "b < usize_bound"
proof -
  have s: "32 \<le> s" "s < 2 ^ 32" "0 < b" "b < usize_bound"
    using assms by (auto simp: spaced_def dom_def)
  then show "mapping s = Some (class_of s)"
    by (intro mapping_class) auto
  show "fst (class_of s) < 19" "snd (class_of s) < 32" "0 < b" "b < usize_bound"
    using s class_bounds [of s] by auto
qed

lemma dseg_mem: "mem t' = mem t \<Longrightarrow> dseg t' p h xs q l = dseg t p h xs q l"
  by (rule dseg_cong) (simp add: node_prev_def node_next_def)

lemma spacedD:
  assumes "spaced F"
  shows "b \<in> dom F \<Longrightarrow> 0 < b \<and> b < usize_bound" "b \<in> dom F \<Longrightarrow> c \<in> dom F \<Longrightarrow> b \<noteq> c \<Longrightarrow> nodes_apart b c"
  using assms by (auto simp: spaced_def)

lemma lists_okD:
  assumes "lists_ok t F L" "i < 19" "j < 32"
  shows "\<exists>q. dseg t 0 (free_lists t i j) (L i j) q 0" "distinct (L i j)"
    "set (L i j) = {b \<in> dom F. class_of (the (F b)) = (i, j)}"
  using assms unfolding lists_ok_def by blast+

text \<open>Bits of the bitmaps.\<close>

lemma bit_set: "sl < 32 \<Longrightarrow> bit (w OR 2 ^ sl :: u32) j \<longleftrightarrow> bit w j \<or> j = sl"
  by (auto simp: bit_or_iff bit_exp_iff)

lemma bit_clear: "bit (w AND NOT (2 ^ sl) :: u32) j \<longleftrightarrow> bit w j \<and> j \<noteq> sl"
  by (auto simp: bit_and_iff bit_not_iff bit_exp_iff dest: bit_imp_le_length)

lemma word_nonzero: "(w :: u32) \<noteq> 0 \<longleftrightarrow> (\<exists>j < 32. bit w j)"
  using bit_imp_le_length [of w] by (auto simp: bit_eq_iff)

lemma bitmaps_insert:
  assumes bm: "bitmaps_ok t L" and ij: "i < 19" "j < 32"
    and t': "sl_bitmaps t' = (sl_bitmaps t)(i := sl_bitmaps t i OR push_bit j 1)"
      "fl_bitmap t' = fl_bitmap t OR push_bit i 1"
  shows "bitmaps_ok t' (L(i := (L i)(j := b # L i j)))"
proof -
  have "bit (sl_bitmaps t' i') j' \<longleftrightarrow> (L(i := (L i)(j := b # L i j))) i' j' \<noteq> []" if "i' < 19" "j' < 32" for i' j'
    using bm that ij(2) by (auto simp: bitmaps_ok_def t' bit_set)
  moreover have "bit (fl_bitmap t') i' \<longleftrightarrow> i' < 19 \<and> sl_bitmaps t' i' \<noteq> 0" for i'
  proof (cases "i' = i")
    case True
    have "sl_bitmaps t' i \<noteq> 0"
      using ij(2) by (auto simp: word_nonzero t' bit_set)
    with True ij show ?thesis
      by (simp add: t'(2) bit_set)
  next
    case False
    then show ?thesis
      using bm ij(1) by (auto simp: bitmaps_ok_def t' bit_set)
  qed
  ultimately show ?thesis
    by (simp add: bitmaps_ok_def)
qed

lemma insert_nodes:
  assumes lists: "lists_ok t F L" and ij: "i < 19" "j < 32" and b: "b \<notin> dom F" and sp: "spaced (F(b \<mapsto> s))"
  defines "h \<equiv> free_lists t i j"
  defines "t1 \<equiv> (if h \<noteq> 0 then set_node_prev h b (set_node_next b h (set_node_prev b 0 t))
                  else set_node_next b 0 (set_node_prev b 0 t))"
  shows "\<exists>q. dseg t1 0 b (b # L i j) q 0"
    and "i' < 19 \<Longrightarrow> j' < 32 \<Longrightarrow> (i', j') \<noteq> (i, j) \<Longrightarrow> dseg t1 p h' (L i' j') q l = dseg t p h' (L i' j') q l"
    and "frame (node_cells (insert b (dom F))) t t1"
proof -
  have apart: "nodes_apart b a" if "a \<in> dom F" for a
    using spacedD(2) [OF sp, of b a] that b by auto
  have bound: "b < usize_bound" "0 < b"
    using spacedD(1) [OF sp, of b] by auto
  obtain q where q: "dseg t 0 h (L i j) q 0"
    using lists_okD(1) [OF lists ij] by (auto simp: h_def)
  note Lij = lists_okD(2,3) [OF lists ij]
  have h: "h = 0 \<longleftrightarrow> L i j = []" "h \<noteq> 0 \<Longrightarrow> h = hd (L i j)"
    using q by (cases "L i j"; auto)+
  have hF: "h \<noteq> 0 \<Longrightarrow> h \<in> set (L i j)"
    using h hd_in_set by metis
  then have hb: "h < usize_bound"
    using Lij(2) spacedD(1) [OF sp, of h] bound by (cases "h = 0") auto
  define t0 where "t0 = set_node_next b h (set_node_prev b 0 t)"
  have t1: "t1 = (if h \<noteq> 0 then set_node_prev h b t0 else t0)"
    by (simp add: t1_def t0_def)
  have t0b: "node_prev t0 b = 0" "node_next t0 b = h"
    using node_set_same [OF hb, of b "set_node_prev b 0 t"] node_set_same [of 0 b t] by (simp_all add: t0_def)
  have t0F: "node_prev t0 a = node_prev t a \<and> node_next t0 a = node_next t a" if "a \<in> dom F" for a
    using node_set_other [OF apart [OF that]] by (simp add: t0_def)
  have q0: "dseg t0 0 h (L i j) q 0"
    using q t0F Lij(2) dseg_cong [of "L i j" t0 t] by auto
  show "\<exists>q. dseg t1 0 b (b # L i j) q 0"
  proof (cases "h = 0")
    case True
    then show ?thesis
      using t0b bound h by (simp add: t1)
  next
    case False
    then have "nodes_apart h b" "h \<in> dom F"
      using apart hF Lij(2) by (auto simp: nodes_apart_def)
    then have "node_prev t1 b = 0" "node_next t1 b = h"
      using t0b node_set_other False by (simp_all add: t1)
    moreover have "dseg (set_node_prev h b t0) b h (L i j) q 0"
    proof (rule dseg_new_first [OF q0 _ bound(1)])
      show "nodes_apart h a" if "a \<in> set (tl (L i j))" for a
      proof -
        have "a \<in> set (L i j)" "a \<noteq> h"
          using that Lij(1) h False by (cases "L i j"; auto)+
        then show ?thesis
          using spacedD(2) [OF sp, of h a] \<open>h \<in> dom F\<close> Lij(2) by auto
      qed
    qed (use False h in simp)
    ultimately show ?thesis
      using bound False by (auto simp: t1)
  qed
  show "dseg t1 p h' (L i' j') q l = dseg t p h' (L i' j') q l" if "i' < 19" "j' < 32" "(i', j') \<noteq> (i, j)" for i' j' p h' q l
  proof (rule dseg_cong)
    fix a assume "a \<in> set (L i' j')"
    then have a: "a \<in> dom F" "a \<notin> set (L i j)"
      using lists_okD(3) [OF lists that(1,2)] Lij(2) that(3) by auto
    then have "h \<noteq> 0 \<Longrightarrow> nodes_apart h a"
      using spacedD(2) [OF sp, of h a] hF Lij(2) by auto
    then show "node_prev t1 a = node_prev t a \<and> node_next t1 a = node_next t a"
      using t0F [OF a(1)] node_set_other by (auto simp: t1)
  qed
  show "frame (node_cells (insert b (dom F))) t t1"
  proof -
    have "h \<noteq> 0 \<Longrightarrow> h \<in> dom F"
      using hF Lij(2) by auto
    then show ?thesis
      by (auto simp: frame_def t1 t0_def node_cells_def set_node_prev_def set_node_next_def)
  qed
qed

lemma insert_lists:
  assumes lists: "lists_ok t F L" and b: "b \<notin> dom F" and ij: "i < 19" "j < 32" and cs: "class_of s = (i, j)"
    and new: "\<exists>q. dseg t1 0 b (b # L i j) q 0"
    and old: "\<And>i' j' p h q l. i' < 19 \<Longrightarrow> j' < 32 \<Longrightarrow> (i', j') \<noteq> (i, j) \<Longrightarrow>
      dseg t1 p h (L i' j') q l = dseg t p h (L i' j') q l"
    and t': "mem t' = mem t1" "free_lists t' = (free_lists t)(i := (free_lists t i)(j := b))"
  shows "lists_ok t' (F(b \<mapsto> s)) (L(i := (L i)(j := b # L i j)))"
  unfolding lists_ok_def
proof (intro allI impI)
  fix i' j' :: nat assume ij': "i' < 19" "j' < 32"
  note L = lists_okD [OF lists ij']
  show "(\<exists>q. dseg t' 0 (free_lists t' i' j') ((L(i := (L i)(j := b # L i j))) i' j') q 0) \<and>
      distinct ((L(i := (L i)(j := b # L i j))) i' j') \<and>
      set ((L(i := (L i)(j := b # L i j))) i' j') = {x \<in> dom (F(b \<mapsto> s)). class_of (the ((F(b \<mapsto> s)) x)) = (i', j')}"
  proof (cases "(i', j') = (i, j)")
    case True
    then show ?thesis
      using L(2,3) new b cs dseg_mem [OF t'(1)] by (auto simp: t' node_prev_def node_next_def)
  next
    case False
    then have "(L(i := (L i)(j := b # L i j))) i' j' = L i' j'" "free_lists t' i' j' = free_lists t i' j'"
      by (auto simp: t'(2))
    then show ?thesis
      using L b cs False dseg_mem [OF t'(1)] old [OF ij' False] by auto
  qed
qed

lemma insert_block_ok:
  assumes ok: "index_ok t F" and b: "b \<notin> dom F" and sp: "spaced (F(b \<mapsto> s))"
  shows "\<exists>t'. insert_block b s t = Some t' \<and> index_ok t' (F(b \<mapsto> s)) \<and> frame (node_cells (insert b (dom F))) t t'"
proof -
  obtain L where L: "lists_ok t F L" "bitmaps_ok t L"
    using ok by (auto simp: index_ok_def)
  define i j where "i = fst (class_of s)" and "j = snd (class_of s)"
  have cls: "mapping s = Some (i, j)" "i < 19" "j < 32"
    using spaced_class [OF sp, of b s] by (simp_all add: i_def j_def)
  have cs: "class_of s = (i, j)"
    by (simp add: i_def j_def)
  define h where "h = free_lists t i j"
  define t1 where "t1 = (if h \<noteq> 0 then set_node_prev h b (set_node_next b h (set_node_prev b 0 t))
                          else set_node_next b 0 (set_node_prev b 0 t))"
  note n = insert_nodes [OF L(1) cls(2,3) b sp, folded h_def, folded t1_def]
  have t1: "free_lists t1 = free_lists t" "sl_bitmaps t1 = sl_bitmaps t" "fl_bitmap t1 = fl_bitmap t"
    by (simp_all add: t1_def)
  define t' where "t' = t1\<lparr>free_lists := (free_lists t1)(i := (free_lists t1 i)(j := b)),
    sl_bitmaps := (sl_bitmaps t1)(i := sl_bitmaps t1 i OR push_bit j 1), fl_bitmap := fl_bitmap t1 OR push_bit i 1\<rparr>"
  have "insert_block b s t = Some t'"
    using cls by (simp add: insert_block_def get_list_def set_list_def get_sl_def set_sl_def require_eq
        FL_COUNT_def SL_COUNT_def h_def [symmetric] t1_def t'_def Let_def)
  moreover have "lists_ok t' (F(b \<mapsto> s)) (L(i := (L i)(j := b # L i j)))"
    using insert_lists [OF L(1) b cls(2,3) cs n(1,2)] by (simp add: t'_def t1 h_def)
  moreover have "bitmaps_ok t' (L(i := (L i)(j := b # L i j)))"
    using L(2) cls(2,3) by (rule bitmaps_insert) (simp_all add: t'_def t1)
  moreover have "frame (node_cells (insert b (dom F))) t t'"
    using n(3) by (simp add: frame_def t'_def)
  ultimately show ?thesis
    by (auto simp: index_ok_def)
qed

subsection \<open>Removing a block\<close>

text \<open>The two pointer updates that take a node out of its list.\<close>

definition unlink :: "nat \<Rightarrow> nat \<Rightarrow> tlsf \<Rightarrow> tlsf" where
  "unlink p n t =
     (let t1 = if p \<noteq> 0 then set_node_next p n t else t in if n \<noteq> 0 then set_node_prev n p t1 else t1)"

lemma dseg_unlink:
  assumes seg: "dseg t 0 h (xs @ b # ys) q 0"
    and apart: "\<And>a c. a \<in> set (xs @ b # ys) \<Longrightarrow> c \<in> set (xs @ b # ys) \<Longrightarrow> a \<noteq> c \<Longrightarrow> nodes_apart a c"
    and dist: "distinct (xs @ b # ys)" and bound: "\<And>a. a \<in> set (xs @ b # ys) \<Longrightarrow> a < usize_bound"
  defines "p \<equiv> node_prev t b" and "n \<equiv> node_next t b"
  shows "\<exists>q. dseg (unlink p n t) 0 (if p = 0 then n else h) (xs @ ys) q 0"
    "p = 0 \<longleftrightarrow> xs = []" "n = 0 \<longleftrightarrow> ys = []" "p \<noteq> 0 \<Longrightarrow> p \<in> set xs" "n \<noteq> 0 \<Longrightarrow> n \<in> set ys" "p = 0 \<Longrightarrow> h = b"
proof -
  obtain q' l' where 1: "dseg t 0 h xs q' l'" "dseg t q' l' (b # ys) q 0"
    using seg unfolding dseg_append by blast
  then have seg1: "dseg t 0 h xs p b" and seg2: "dseg t b n ys q 0"
    by (auto simp: p_def n_def)
  have nz: "0 \<notin> set xs" "0 \<notin> set ys"
    using dseg_nonzero [OF seg] by auto
  have p: "xs = [] \<Longrightarrow> p = 0" "xs \<noteq> [] \<Longrightarrow> p = last xs"
    using seg1 dseg_last [OF seg1] by auto
  have n: "ys = [] \<Longrightarrow> n = 0" "ys \<noteq> [] \<Longrightarrow> n = hd ys"
    using seg2 by (cases ys; simp)+
  show p0: "p = 0 \<longleftrightarrow> xs = []" and n0: "n = 0 \<longleftrightarrow> ys = []"
    using p n nz last_in_set [of xs] hd_in_set [of ys] by metis+
  show pxs: "p \<noteq> 0 \<Longrightarrow> p \<in> set xs" and nys: "n \<noteq> 0 \<Longrightarrow> n \<in> set ys"
    using p n last_in_set [of xs] hd_in_set [of ys] by metis+
  show "p = 0 \<Longrightarrow> h = b"
    using seg1 p0 by simp
  have pn: "p < usize_bound" "n < usize_bound"
    using bound [of p] bound [of n] pxs nys by (cases "p = 0"; simp; fail | cases "n = 0"; simp)+
  define t1 where "t1 = (if p \<noteq> 0 then set_node_next p n t else t)"
  define h' where "h' = (if p = 0 then n else h)"
  have xs1: "dseg t1 0 h' xs p n"
  proof (cases "p = 0")
    case True
    then show ?thesis
      using p0 by (simp add: t1_def h'_def)
  next
    case False
    then obtain xs' where xs': "xs = xs' @ [p]"
      using p0 p append_butlast_last_id [of xs] by metis
    have "nodes_apart p a" if "a \<in> set xs'" for a
      using apart [of p a] that dist by (auto simp: xs')
    then show ?thesis
      using dseg_new_last [of t 0 h xs' p p b n] seg1 pn False by (simp add: xs' t1_def h'_def)
  qed
  have ys1: "dseg t1 b n ys q 0"
  proof -
    have "nodes_apart p a" if "p \<noteq> 0" "a \<in> set ys" for a
      using apart [of p a] that dist pxs by auto
    then have "dseg t1 b n ys q 0 = dseg t b n ys q 0"
      using node_set_other by (intro dseg_cong) (simp add: t1_def)
    then show ?thesis
      using seg2 by simp
  qed
  have "\<exists>q. dseg (unlink p n t) p n ys q 0 \<and> dseg (unlink p n t) 0 h' xs p n"
  proof (cases "n = 0")
    case True
    then show ?thesis
      using n0 xs1 by (cases "p = 0") (simp_all add: unlink_def t1_def)
  next
    case False
    then have u: "unlink p n t = set_node_prev n p t1" and ys: "ys \<noteq> []" "n = hd ys"
      using n0 n by (auto simp: unlink_def t1_def)
    have "nodes_apart n a" if "a \<in> set xs \<or> a \<in> set (tl ys)" for a
    proof -
      have "a \<in> set (xs @ b # ys)" "n \<in> set (xs @ b # ys)" "n \<noteq> a"
        using that dist nys False ys by (cases ys; auto)+
      then show ?thesis
        by (intro apart)
    qed
    then have "dseg (set_node_prev n p t1) p n ys q 0" "dseg (set_node_prev n p t1) 0 h' xs p n = dseg t1 0 h' xs p n"
      using dseg_new_first [OF ys1 ys(1) pn(1)] node_set_other by (blast, intro dseg_cong, simp)
    then show ?thesis
      using xs1 u by auto
  qed
  then show "\<exists>q. dseg (unlink p n t) 0 (if p = 0 then n else h) (xs @ ys) q 0"
    unfolding dseg_append h'_def by blast
qed

lemma unlink_other:
  assumes "p \<noteq> 0 \<Longrightarrow> nodes_apart p a" "n \<noteq> 0 \<Longrightarrow> nodes_apart n a"
  shows "node_prev (unlink p n t) a = node_prev t a \<and> node_next (unlink p n t) a = node_next t a"
  using assms node_set_other by (simp add: unlink_def Let_def)

lemma unlink_fields [simp]:
  "heap_start (unlink p n t) = heap_start t" "heap_end (unlink p n t) = heap_end t"
  "fl_bitmap (unlink p n t) = fl_bitmap t" "sl_bitmaps (unlink p n t) = sl_bitmaps t"
  "free_lists (unlink p n t) = free_lists t"
  by (simp_all add: unlink_def Let_def)

lemma unlink_frame:
  "(p \<noteq> 0 \<Longrightarrow> p \<in> B) \<Longrightarrow> (n \<noteq> 0 \<Longrightarrow> n \<in> B) \<Longrightarrow> frame (node_cells B) t (unlink p n t)"
  by (auto simp: frame_def unlink_def Let_def node_cells_def set_node_prev_def set_node_next_def)

lemma bitmaps_remove:
  assumes bm: "bitmaps_ok t L" and ij: "i < 19" "j < 32"
    and t': "sl_bitmaps t' = (if xs = [] then (sl_bitmaps t)(i := sl_bitmaps t i AND NOT (push_bit j 1)) else sl_bitmaps t)"
      "fl_bitmap t' = (if xs = [] \<and> sl_bitmaps t' i = 0 then fl_bitmap t AND NOT (push_bit i 1) else fl_bitmap t)"
    and ne: "L i j \<noteq> []"
  shows "bitmaps_ok t' (L(i := (L i)(j := xs)))"
proof -
  have sl: "bit (sl_bitmaps t i') j' \<longleftrightarrow> L i' j' \<noteq> []" if "i' < 19" "j' < 32" for i' j'
    using bm that by (simp add: bitmaps_ok_def)
  have fl: "bit (fl_bitmap t) i' \<longleftrightarrow> i' < 19 \<and> sl_bitmaps t i' \<noteq> 0" for i'
    using bm by (simp add: bitmaps_ok_def)
  have "sl_bitmaps t i \<noteq> 0"
    using sl [OF ij] ne ij(2) by (auto simp: word_nonzero)
  then have "bit (fl_bitmap t') i' \<longleftrightarrow> i' < 19 \<and> sl_bitmaps t' i' \<noteq> 0" for i'
    using fl [of i'] ij(1) by (cases "xs = []"; cases "i' = i") (auto simp: t' bit_clear)
  moreover have "bit (sl_bitmaps t' i') j' \<longleftrightarrow> (L(i := (L i)(j := xs))) i' j' \<noteq> []" if "i' < 19" "j' < 32" for i' j'
    using sl [OF that] sl [OF ij] ne by (cases "xs = []"; cases "i' = i") (auto simp: t'(1) bit_clear)
  ultimately show ?thesis
    by (simp add: bitmaps_ok_def)
qed

lemma remove_lists:
  assumes lists: "lists_ok t F L" and b: "F b = Some s" and ij: "i < 19" "j < 32" and cs: "class_of s = (i, j)"
    and L: "L i j = xs @ b # ys"
    and new: "\<exists>q. dseg t1 0 h (xs @ ys) q 0"
    and old: "\<And>i' j' p h q l. i' < 19 \<Longrightarrow> j' < 32 \<Longrightarrow> (i', j') \<noteq> (i, j) \<Longrightarrow>
      dseg t1 p h (L i' j') q l = dseg t p h (L i' j') q l"
    and t': "mem t' = mem t1" "free_lists t' = (free_lists t)(i := (free_lists t i)(j := h))"
  shows "lists_ok t' (F(b := None)) (L(i := (L i)(j := xs @ ys)))"
  unfolding lists_ok_def
proof (intro allI impI)
  fix i' j' :: nat assume ij': "i' < 19" "j' < 32"
  note Lij = lists_okD [OF lists ij']
  show "(\<exists>q. dseg t' 0 (free_lists t' i' j') ((L(i := (L i)(j := xs @ ys))) i' j') q 0) \<and>
      distinct ((L(i := (L i)(j := xs @ ys))) i' j') \<and>
      set ((L(i := (L i)(j := xs @ ys))) i' j') = {x \<in> dom (F(b := None)). class_of (the ((F(b := None)) x)) = (i', j')}"
  proof (cases "(i', j') = (i, j)")
    case True
    then have "distinct (xs @ b # ys)" "insert b (set (xs @ ys)) = {x \<in> dom F. class_of (the (F x)) = (i, j)}"
      using Lij(2,3) L by auto
    then have "distinct (xs @ ys)" "set (xs @ ys) = {x \<in> dom F. class_of (the (F x)) = (i, j)} - {b}"
      by auto
    with True show ?thesis
      using new dseg_mem [OF t'(1)] by (auto simp: t'(2))
  next
    case False
    then have "(L(i := (L i)(j := xs @ ys))) i' j' = L i' j'" "free_lists t' i' j' = free_lists t i' j'"
      by (auto simp: t'(2))
    then show ?thesis
      using Lij b cs False dseg_mem [OF t'(1)] old [OF ij' False] by auto
  qed
qed

lemma remove_block_eq:
  assumes "mapping (block_size t b) = Some (i, j)" "i < 19" "j < 32"
  defines "p \<equiv> node_prev t b" and "n \<equiv> node_next t b"
  shows "remove_block b t =
    Some ((unlink p n t)\<lparr>free_lists := (free_lists t)(i := (free_lists t i)(j := if p = 0 then n else free_lists t i j)),
      sl_bitmaps := (if p = 0 \<and> n = 0 then (sl_bitmaps t)(i := sl_bitmaps t i AND NOT (push_bit j 1)) else sl_bitmaps t),
      fl_bitmap := (if p = 0 \<and> n = 0 \<and> sl_bitmaps t i AND NOT (push_bit j 1) = 0 then fl_bitmap t AND NOT (push_bit i 1)
                    else fl_bitmap t)\<rparr>)"
  using assms(1-3) unfolding p_def [symmetric] n_def [symmetric] remove_block_def
  by (cases "p = 0"; cases "n = 0")
    (simp_all add: unlink_def set_list_def get_sl_def set_sl_def require_eq FL_COUNT_def SL_COUNT_def Let_def
      set_node_prev_def set_node_next_def)

lemma remove_block_ok:
  assumes ok: "index_ok t F" and sp: "spaced F" and b: "F b = Some s" and sz: "block_size t b = s"
  shows "\<exists>t'. remove_block b t = Some t' \<and> index_ok t' (F(b := None)) \<and> frame (node_cells (dom F)) t t'"
proof -
  obtain L where L: "lists_ok t F L" "bitmaps_ok t L"
    using ok by (auto simp: index_ok_def)
  define i j where "i = fst (class_of s)" and "j = snd (class_of s)"
  have cls: "mapping s = Some (i, j)" "i < 19" "j < 32" and cs: "class_of s = (i, j)"
    using spaced_class [OF sp b] by (simp_all add: i_def j_def)
  note Lij = lists_okD [OF L(1) cls(2,3)]
  have "b \<in> set (L i j)"
    using Lij(3) b cs by auto
  then obtain xs ys where xs: "L i j = xs @ b # ys"
    by (auto dest: split_list)
  define h where "h = free_lists t i j"
  obtain q where q: "dseg t 0 h (xs @ b # ys) q 0"
    using Lij(1) by (auto simp: xs h_def)
  define p n where "p = node_prev t b" and "n = node_next t b"
  have inF: "a \<in> dom F" if "a \<in> set (xs @ b # ys)" for a
    using that Lij(3) by (auto simp: xs)
  have dist: "distinct (xs @ b # ys)"
    using Lij(2) by (simp add: xs)
  have apart: "nodes_apart a c" if "a \<in> set (xs @ b # ys)" "c \<in> set (xs @ b # ys)" "a \<noteq> c" for a c
    using spacedD(2) [OF sp inF inF] that by blast
  have bound: "a < usize_bound" if "a \<in> set (xs @ b # ys)" for a
    using spacedD(1) [OF sp inF [OF that]] by simp
  note u = dseg_unlink [OF q apart dist bound, folded p_def n_def]
  define h' where "h' = (if p = 0 then n else h)"
  define t' where "t' = (unlink p n t)\<lparr>free_lists := (free_lists t)(i := (free_lists t i)(j := h')),
    sl_bitmaps := (if xs @ ys = [] then (sl_bitmaps t)(i := sl_bitmaps t i AND NOT (push_bit j 1)) else sl_bitmaps t),
    fl_bitmap := (if xs @ ys = [] \<and> sl_bitmaps t i AND NOT (push_bit j 1) = 0 then fl_bitmap t AND NOT (push_bit i 1) else fl_bitmap t)\<rparr>"
  have "remove_block b t = Some t'"
    using remove_block_eq [OF cls [folded sz]] u(2,3,6) by (simp add: t'_def h'_def h_def p_def n_def)
  moreover have "lists_ok t' (F(b := None)) (L(i := (L i)(j := xs @ ys)))"
  proof (rule remove_lists [OF L(1) b cls(2,3) cs xs])
    show "\<exists>q. dseg (unlink p n t) 0 h' (xs @ ys) q 0"
      using u(1) by (simp add: h'_def)
    show "dseg (unlink p n t) p' l (L i' j') q l' = dseg t p' l (L i' j') q l'"
      if ij': "i' < 19" "j' < 32" "(i', j') \<noteq> (i, j)" for i' j' p' l q l'
    proof (intro dseg_cong unlink_other)
      fix a assume "a \<in> set (L i' j')"
      then have a: "a \<in> dom F" "a \<notin> set (L i j)"
        using lists_okD(3) [OF L(1) ij'(1,2)] Lij(3) ij'(3) by auto
      show "p \<noteq> 0 \<Longrightarrow> nodes_apart p a" "n \<noteq> 0 \<Longrightarrow> nodes_apart n a"
        using u(4,5) a spacedD(2) [OF sp, of _ a] inF by (auto simp: xs)
    qed
  qed (simp_all add: t'_def)
  moreover have "bitmaps_ok t' (L(i := (L i)(j := xs @ ys)))"
    using L(2) cls(2,3) by (rule bitmaps_remove) (auto simp: t'_def xs)
  moreover have "frame (node_cells (dom F)) t t'"
  proof -
    have "frame (node_cells (dom F)) t (unlink p n t)"
      using u(4,5) inF by (intro unlink_frame) auto
    then show ?thesis
      by (simp add: frame_def t'_def)
  qed
  ultimately show ?thesis
    by (auto simp: index_ok_def)
qed

subsection \<open>Searching\<close>

lemma trailing_zeros32:
  assumes "w \<noteq> 0"
  shows "bit w (trailing_zeros32 w)" "trailing_zeros32 w < 32" "k < trailing_zeros32 w \<Longrightarrow> \<not> bit w k"
proof -
  obtain j where "j < 32" "bit w j"
    using assms word_nonzero by blast
  then have "filter (bit w) [0..<32] \<noteq> []"
    by (auto simp: filter_empty_conv)
  then obtain i ks where i: "filter (bit w) [0..<32] = i # ks"
    by (cases "filter (bit w) [0..<32]") auto
  then obtain us vs where us: "[0..<32] = us @ i # vs" "\<forall>u \<in> set us. \<not> bit w u" "bit w i"
    by (auto simp: filter_eq_Cons_iff)
  have tz: "trailing_zeros32 w = i"
    using i by (simp add: trailing_zeros32_def)
  have len: "length us < 32"
    using arg_cong [OF us(1), of length] by simp
  have nth: "us @ i # vs = [0..<32]"
    using us(1) by simp
  have "i = length us"
    using arg_cong [OF nth, of "\<lambda>xs. xs ! length us"] len by (simp add: nth_append)
  moreover have "us ! k = k" if "k < length us" for k
    using arg_cong [OF nth, of "\<lambda>xs. xs ! k"] that len by (simp add: nth_append)
  ultimately show "bit w (trailing_zeros32 w)" "trailing_zeros32 w < 32" "k < trailing_zeros32 w \<Longrightarrow> \<not> bit w k"
    using us(2,3) len tz nth_mem [of k us] by auto
qed

lemma bit_from: "bit (w AND push_bit j (NOT 0) :: u32) k \<longleftrightarrow> bit w k \<and> j \<le> k"
  by (auto simp: bit_and_iff bit_push_bit_iff bit_not_iff bit_mask_iff dest: bit_imp_le_length)

lemma bit_test: "w AND push_bit j 1 \<noteq> 0 \<longleftrightarrow> bit (w :: u32) j"
  using and_exp_eq_0_iff_not_bit [of w j] by simp

definition sizes_ok :: "tlsf \<Rightarrow> (nat \<rightharpoonup> nat) \<Rightarrow> bool" where
  "sizes_ok t F \<longleftrightarrow> (\<forall>b s. F b = Some s \<longrightarrow> block_size t b = s)"

definition taken :: "nat \<Rightarrow> (nat \<rightharpoonup> nat) \<Rightarrow> tlsf \<Rightarrow> nat \<Rightarrow> tlsf \<Rightarrow> bool" where
  "taken needed F t b t' \<longleftrightarrow>
     (\<exists>s. F b = Some s \<and> needed \<le> s) \<and> remove_block b t = Some t' \<and> index_ok t' (F(b := None)) \<and>
     frame (node_cells (dom F)) t t'"

lemma pop_block_ok:
  assumes idx: "lists_ok t F L" "bitmaps_ok t L" and F: "spaced F" "sizes_ok t F"
    and ij: "i < 19" "j < 32" "L i j \<noteq> []"
  shows "\<exists>b s t'. free_lists t i j = b \<and> b \<noteq> 0 \<and> block_size t b = s \<and> F b = Some s \<and> class_of s = (i, j) \<and>
    pop_block i j t = Some (b, t') \<and> taken s F t b t'"
proof -
  obtain b bs where b: "L i j = b # bs"
    using ij(3) by (cases "L i j") auto
  note L = lists_okD [OF idx(1) ij(1,2)]
  have hd: "free_lists t i j = b" "b \<noteq> 0"
    using L(1) by (auto simp: b)
  have "b \<in> {b \<in> dom F. class_of (the (F b)) = (i, j)}"
    using L(3) by (auto simp: b)
  then obtain s where s: "F b = Some s" "class_of s = (i, j)"
    by auto
  then have sz: "block_size t b = s"
    using F(2) by (simp add: sizes_ok_def)
  have "index_ok t F"
    using idx by (auto simp: index_ok_def)
  from remove_block_ok [OF this F(1) s(1) sz] obtain t' where
    t': "remove_block b t = Some t'" "index_ok t' (F(b := None))" "frame (node_cells (dom F)) t t'"
    by blast
  then have "pop_block i j t = Some (b, t')"
    using hd ij(1,2) by (simp add: pop_block_def get_list_def require_eq FL_COUNT_def SL_COUNT_def)
  then show ?thesis
    using hd s sz t' by (auto simp: taken_def)
qed

lemma find_in_class_ok:
  assumes idx: "lists_ok t F L" "bitmaps_ok t L" and F: "spaced F" "sizes_ok t F" and i: "i < 19" and js: "\<forall>j \<in> set js. j < 32"
  shows "\<exists>r t'. find_in_class i needed js t = Some (r, t') \<and>
    (case r of None \<Rightarrow> t' = t \<and> (\<forall>j \<in> set js. L i j \<noteq> [] \<longrightarrow> the (F (free_lists t i j)) < needed)
     | Some b \<Rightarrow> taken needed F t b t')"
  using js
proof (induction js)
  case (Cons j js)
  then obtain r t' where IH: "find_in_class i needed js t = Some (r, t')"
    "case r of None \<Rightarrow> t' = t \<and> (\<forall>j \<in> set js. L i j \<noteq> [] \<longrightarrow> the (F (free_lists t i j)) < needed)
     | Some b \<Rightarrow> taken needed F t b t'" and j: "j < 32"
    by auto
  have get: "get_sl i t = Some (sl_bitmaps t i)" "get_list i j t = Some (free_lists t i j)"
    using i j by (simp_all add: get_sl_def get_list_def require_eq FL_COUNT_def SL_COUNT_def)
  have bit: "sl_bitmaps t i AND push_bit j 1 \<noteq> 0 \<longleftrightarrow> L i j \<noteq> []"
    using idx(2) i j by (simp add: bit_test bitmaps_ok_def del: push_bit_of_1)
  have skip: ?case if "find_in_class i needed (j # js) t = find_in_class i needed js t"
    "L i j \<noteq> [] \<longrightarrow> the (F (free_lists t i j)) < needed"
    using IH that(2) unfolding that(1) by (intro exI [of _ r] exI [of _ t']) (cases r; simp)
  show ?case
  proof (cases "L i j = []")
    case True
    then show ?thesis
      using bit get by (intro skip) simp_all
  next
    case False
    from pop_block_ok [OF idx F i j False] obtain b s t' where b: "free_lists t i j = b" "b \<noteq> 0" "block_size t b = s"
      "F b = Some s" "pop_block i j t = Some (b, t')" "taken s F t b t'"
      by blast
    show ?thesis
    proof (cases "needed \<le> s")
      case True
      then have "find_in_class i needed (j # js) t = Some (Some b, t')" "taken needed F t b t'"
        using bit get b False by (auto simp: taken_def)
      then show ?thesis
        by auto
    next
      case small: False
      then show ?thesis
        using bit get b False by (intro skip) simp_all
    qed
  qed
qed simp

text \<open>A fruitless search means that no free block is in a strictly higher class.\<close>

definition higher_class :: "nat \<Rightarrow> nat \<Rightarrow> bool" where
  "higher_class s' s \<longleftrightarrow>
     fst (class_of s) < fst (class_of s') \<or> fst (class_of s) = fst (class_of s') \<and> snd (class_of s) < snd (class_of s')"

lemma class_list:
  assumes "lists_ok t F L" "spaced F" "F b = Some s"
  shows "b \<in> set (L (fst (class_of s)) (snd (class_of s)))"
  using lists_okD(3) [OF assms(1) spaced_class(2,3) [OF assms(2,3)]] assms(3) by auto

lemma find_first_level:
  assumes idx: "lists_ok t F L" "bitmaps_ok t L" and F: "spaced F" "sizes_ok t F" and i: "i < 19"
    and m: "m = sl_bitmaps t i AND push_bit j (NOT 0)"
  shows "\<exists>r t'. (if m \<noteq> 0 then find_in_class i needed [trailing_zeros32 m..<SL_COUNT] t else Some (None, t)) = Some (r, t') \<and>
    (case r of None \<Rightarrow> t' = t \<and> (\<forall>k < 32. j \<le> k \<longrightarrow> L i k \<noteq> [] \<longrightarrow> the (F (free_lists t i k)) < needed)
     | Some b \<Rightarrow> taken needed F t b t')"
proof -
  have bit: "bit m k \<longleftrightarrow> j \<le> k \<and> L i k \<noteq> []" if "k < 32" for k
    using idx(2) i that bit_from [of "sl_bitmaps t i" j k] by (auto simp: m bitmaps_ok_def)
  show ?thesis
  proof (cases "m = 0")
    case True
    then have "\<forall>k < 32. j \<le> k \<longrightarrow> L i k = []"
      using bit by auto
    then show ?thesis
      using True by auto
  next
    case False
    note tz = trailing_zeros32 [OF False]
    have skip: "L i k = []" if "j \<le> k" "k < 32" "k \<notin> {trailing_zeros32 m..<32}" for k
      using tz(3) [of k] bit [of k] that by auto
    from find_in_class_ok [OF idx F i, of "[trailing_zeros32 m..<32]" needed] obtain r t' where
      r: "find_in_class i needed [trailing_zeros32 m..<32] t = Some (r, t')"
      "case r of None \<Rightarrow> t' = t \<and> (\<forall>j \<in> set [trailing_zeros32 m..<32]. L i j \<noteq> [] \<longrightarrow> the (F (free_lists t i j)) < needed)
       | Some b \<Rightarrow> taken needed F t b t'"
      by auto
    have "case r of None \<Rightarrow> t' = t \<and> (\<forall>k < 32. j \<le> k \<longrightarrow> L i k \<noteq> [] \<longrightarrow> the (F (free_lists t i k)) < needed)
       | Some b \<Rightarrow> taken needed F t b t'"
      using r(2) skip by (cases r) auto
    then show ?thesis
      using False r(1) by (simp add: SL_COUNT_def)
  qed
qed

lemma no_higher_class:
  assumes idx: "lists_ok t F L" "bitmaps_ok t L" and F: "spaced F" "sizes_ok t F"
    and first: "\<forall>k < 32. snd (class_of needed) \<le> k \<longrightarrow> L (fst (class_of needed)) k \<noteq> [] \<longrightarrow>
      the (F (free_lists t (fst (class_of needed)) k)) < needed"
    and second: "\<forall>i' < 19. fst (class_of needed) < i' \<longrightarrow> \<not> bit (fl_bitmap t) i'"
    and n: "32 \<le> needed" "needed < 2 ^ 24" and b: "F b = Some s"
  shows "\<not> higher_class s needed"
proof
  assume h: "higher_class s needed"
  note cl = spaced_class(2,3) [OF F(1) b] and bL = class_list [OF idx(1) F(1) b]
  have ne: "L (fst (class_of s)) (snd (class_of s)) \<noteq> []"
    using bL by auto
  have "bit (fl_bitmap t) (fst (class_of s))"
    using idx(2) ne cl by (auto simp: bitmaps_ok_def word_nonzero)
  then have eq: "fst (class_of s) = fst (class_of needed)" "snd (class_of needed) < snd (class_of s)"
    using second cl h by (auto simp: higher_class_def)
  from pop_block_ok [OF idx F cl ne] obtain b' s' where
    s': "free_lists t (fst (class_of s)) (snd (class_of s)) = b'" "F b' = Some s'" "class_of s' = class_of s"
    by auto
  have "s' < needed"
    using first eq cl ne s' by auto
  moreover have "32 \<le> s'"
    using F(1) s'(2) by (auto simp: spaced_def dom_def)
  then have "needed < s'"
    using class_sl_less [of needed s'] n eq s'(3) \<open>s' < needed\<close> by simp
  ultimately show False
    by simp
qed

lemma single_class:
  assumes idx: "lists_ok t F L" "bitmaps_ok t L" and F: "spaced F" "sizes_ok t F"
    and first: "\<forall>k < 32. snd (class_of needed) \<le> k \<longrightarrow> L (fst (class_of needed)) k \<noteq> [] \<longrightarrow>
      the (F (free_lists t (fst (class_of needed)) k)) < needed"
    and b: "F = [b \<mapsto> s]" "class_of s = class_of needed"
  shows "s < needed"
proof -
  have s: "F b = Some s"
    using b(1) by simp
  note cl = spaced_class(2,3) [OF F(1) s] and bL = class_list [OF idx(1) F(1) s]
  have ne: "L (fst (class_of s)) (snd (class_of s)) \<noteq> []"
    using bL by auto
  from pop_block_ok [OF idx F cl ne] obtain b' s' where
    "free_lists t (fst (class_of s)) (snd (class_of s)) = b'" "F b' = Some s'"
    by auto
  then have "free_lists t (fst (class_of s)) (snd (class_of s)) = b"
    using b(1) by (auto split: if_splits)
  then show ?thesis
    using first cl ne b by auto
qed

definition find_result :: "nat \<Rightarrow> (nat \<rightharpoonup> nat) \<Rightarrow> tlsf \<Rightarrow> nat option \<Rightarrow> tlsf \<Rightarrow> bool" where
  "find_result needed F t r t' \<longleftrightarrow>
     (case r of
        None \<Rightarrow> t' = t \<and> (needed < 2 ^ 24 \<longrightarrow> (\<forall>b s. F b = Some s \<longrightarrow> \<not> higher_class s needed)) \<and>
          (\<forall>b s. F = [b \<mapsto> s] \<longrightarrow> class_of s = class_of needed \<longrightarrow> s < needed)
      | Some b \<Rightarrow> taken needed F t b t')"

lemma find_block_ok:
  assumes idx: "index_ok t F" and F: "spaced F" "sizes_ok t F" and n: "32 \<le> needed"
  shows "\<exists>r t'. find_block (fst (class_of needed)) (snd (class_of needed)) needed t = Some (r, t') \<and>
    find_result needed F t r t'"
proof -
  obtain L where L: "lists_ok t F L" "bitmaps_ok t L"
    using idx by (auto simp: index_ok_def)
  define i j where "i = fst (class_of needed)" and "j = snd (class_of needed)"
  have i: "i < 19"
    using class_bounds(1) [of needed] n by (simp add: i_def)
  have get: "get_sl i' t = Some (sl_bitmaps t i')" if "i' < 19" for i'
    using that by (simp add: get_sl_def require_eq FL_COUNT_def)
  define m where "m = sl_bitmaps t i AND push_bit j (NOT 0)"
  define m2 where "m2 = fl_bitmap t AND push_bit (i + 1) (NOT 0)"
  have bit2: "bit m2 k \<longleftrightarrow> i < k \<and> k < 19 \<and> sl_bitmaps t k \<noteq> 0" for k
    using L(2) bit_from [of "fl_bitmap t" "i + 1" k] by (auto simp: m2_def bitmaps_ok_def)
  from find_first_level [OF L F i m_def, of needed] obtain r t1 where
    r: "(if m \<noteq> 0 then find_in_class i needed [trailing_zeros32 m..<SL_COUNT] t else Some (None, t)) = Some (r, t1)"
    "case r of None \<Rightarrow> t1 = t \<and> (\<forall>k < 32. j \<le> k \<longrightarrow> L i k \<noteq> [] \<longrightarrow> the (F (free_lists t i k)) < needed)
     | Some b \<Rightarrow> taken needed F t b t1"
    by blast
  note find = find_block_def [of i j needed t, unfolded get [OF i] Let_def bind.bind_lunit, folded m_def, unfolded r(1)]
  have "\<exists>r t'. find_block i j needed t = Some (r, t') \<and> find_result needed F t r t'"
  proof (cases r)
    case (Some b)
    then show ?thesis
      using r(2) find by (auto simp: find_result_def)
  next
    case None
    then have t1: "t1 = t" and first: "\<forall>k < 32. j \<le> k \<longrightarrow> L i k \<noteq> [] \<longrightarrow> the (F (free_lists t i k)) < needed"
      using r(2) by simp_all
    have find: "find_block i j needed t = (if m2 \<noteq> 0
        then do { b2 \<leftarrow> get_sl (trailing_zeros32 m2) t; (b, t) \<leftarrow> pop_block (trailing_zeros32 m2) (trailing_zeros32 b2) t; Some (Some b, t) }
        else Some (None, t))"
      using find None t1 unfolding m2_def by simp
    show ?thesis
    proof (cases "m2 = 0")
      case True
      then have "find_block i j needed t = Some (None, t)"
        using find by simp
      moreover have "\<forall>i' < 19. i < i' \<longrightarrow> \<not> bit (fl_bitmap t) i'"
        using bit2 True L(2) by (auto simp: bitmaps_ok_def)
      then have "needed < 2 ^ 24 \<longrightarrow> (\<forall>b s. F b = Some s \<longrightarrow> \<not> higher_class s needed)"
        using no_higher_class [OF L F] first n by (auto simp: i_def j_def)
      then have "find_result needed F t None t"
        using single_class [OF L F first [unfolded i_def j_def]] unfolding find_result_def by simp blast
      ultimately show ?thesis
        by blast
    next
      case False
      define i2 j2 where "i2 = trailing_zeros32 m2" and "j2 = trailing_zeros32 (sl_bitmaps t i2)"
      have i2: "i < i2" "i2 < 19" "sl_bitmaps t i2 \<noteq> 0"
        using trailing_zeros32(1) [OF False] bit2 by (simp_all add: i2_def)
      then have j2: "j2 < 32" "L i2 j2 \<noteq> []"
        using trailing_zeros32 [OF i2(3)] L(2) by (auto simp: j2_def bitmaps_ok_def)
      from pop_block_ok [OF L F i2(2) j2] obtain b s t' where
        b: "F b = Some s" "class_of s = (i2, j2)" "pop_block i2 j2 t = Some (b, t')" "taken s F t b t'"
        by blast
      have "32 \<le> s"
        using F(1) b(1) by (auto simp: spaced_def dom_def)
      then have "needed < s"
        using class_fl_less [of needed s] n i2(1) b(2) by (simp add: i_def)
      then have "find_result needed F t (Some b) t'"
        using b(4) by (auto simp: find_result_def taken_def)
      moreover have "find_block i j needed t = Some (Some b, t')"
        using find False get [OF i2(2)] b(3) by (simp add: i2_def [symmetric] j2_def [symmetric])
      ultimately show ?thesis
        by blast
    qed
  qed
  then show ?thesis
    by (simp add: i_def j_def)
qed

end
