(* ===== verification/Tlsf_Inv.thy ===== *)
theory Tlsf_Inv
  imports Tlsf_Index
begin

text \<open>
  The heap of the TLSF allocator as a list of blocks, each with its size and whether it is free, and
  the effect of the operations on that list: an allocation turns a free block into a used one,
  possibly followed by a free remainder; a release merges the block with its free neighbours.
\<close>

subsection \<open>Blocks and their headers\<close>

type_synonym blocks = "(nat \<times> bool) list"

abbreviation extent :: "blocks \<Rightarrow> nat" where
  "extent bs \<equiv> sum_list (map fst bs)"

fun heads :: "nat \<Rightarrow> blocks \<Rightarrow> nat list" where
  "heads a [] = []"
| "heads a ((s, f) # bs) = a # heads (a + s) bs"

text \<open>What a header says about the block before: whether that is free, and then its size.\<close>

fun flow :: "bool \<times> nat \<Rightarrow> blocks \<Rightarrow> bool \<times> nat" where
  "flow st [] = st"
| "flow st ((s, f) # bs) = flow (f, s) bs"

fun headers_ok :: "tlsf \<Rightarrow> nat \<Rightarrow> bool \<times> nat \<Rightarrow> blocks \<Rightarrow> bool" where
  "headers_ok t a st [] \<longleftrightarrow> True"
| "headers_ok t a st ((s, f) # bs) \<longleftrightarrow> hdr_ok t a s f (fst st) (snd st) \<and> headers_ok t (a + s) (f, s) bs"

definition big :: "blocks \<Rightarrow> bool" where
  "big bs \<longleftrightarrow> (\<forall>b \<in> set bs. 32 \<le> fst b)"

lemma big_simps [simp]: "big []" "big (b # bs) \<longleftrightarrow> 32 \<le> fst b \<and> big bs" "big (xs @ ys) \<longleftrightarrow> big xs \<and> big ys"
  by (auto simp: big_def)

lemma flow_append [simp]: "flow st (xs @ ys) = flow (flow st xs) ys"
  by (induction st xs rule: flow.induct) auto

lemma heads_append [simp]: "heads a (xs @ ys) = heads a xs @ heads (a + extent xs) ys"
  by (induction a xs rule: heads.induct) (auto simp: add.assoc)

lemma headers_ok_append [simp]:
  "headers_ok t a st (xs @ ys) \<longleftrightarrow> headers_ok t a st xs \<and> headers_ok t (a + extent xs) (flow st xs) ys"
  by (induction t a st xs rule: headers_ok.induct) (auto simp: add.assoc)

lemma heads_bounds: "big bs \<Longrightarrow> c \<in> set (heads a bs) \<Longrightarrow> a \<le> c \<and> c + 32 \<le> a + extent bs"
  by (induction a bs rule: heads.induct) fastforce+

lemma heads_gap:
  assumes "big bs" "b \<in> set (heads a bs)" "c \<in> set (heads a (bs @ [(s, f)]))" "b \<noteq> c"
  shows "b + 32 \<le> c \<or> c + 32 \<le> b"
  using assms
proof (induction a bs rule: heads.induct)
  case (2 a s' f' bs)
  have "big (bs @ [(32, f)])"
    using 2(2) by simp
  from heads_bounds [OF this, of _ "a + s'"]
  have "x \<in> set (heads (a + s') (bs @ [(s, f)])) \<Longrightarrow> a + s' \<le> x" for x
    by auto
  moreover have "x \<in> set (heads (a + s') bs) \<Longrightarrow> x \<in> set (heads (a + s') (bs @ [(s, f)]))" for x
    by simp
  ultimately show ?case
    using 2 by fastforce
qed simp

lemma heads_not_node:
  assumes "big bs" "B \<subseteq> set (heads a bs)"
  shows "node_cells B \<inter> set (heads a (bs @ [(s, f)])) = {}"
  using heads_gap [OF assms(1)] assms(2) by (fastforce simp: node_cells_def)

lemma headers_ok_frame:
  assumes "frame S t t'" "S \<inter> set (heads a bs) = {}"
  shows "headers_ok t' a st bs = headers_ok t a st bs"
  using assms(2)
proof (induction bs arbitrary: a st)
  case (Cons b bs)
  then show ?case
    using hdr_ok_cong [OF frame_mem [OF assms(1)]] by (cases b) auto
qed simp

subsection \<open>The maps of free and of used blocks\<close>

fun block_map :: "bool \<Rightarrow> nat \<Rightarrow> blocks \<Rightarrow> nat \<rightharpoonup> nat" where
  "block_map g a [] = Map.empty"
| "block_map g a ((s, f) # bs) = (if f = g then [a \<mapsto> s] else Map.empty) ++ block_map g (a + s) bs"

lemma block_map_append [simp]: "block_map g a (xs @ ys) = block_map g a xs ++ block_map g (a + extent xs) ys"
  by (induction g a xs rule: block_map.induct) (auto simp: add.assoc)

lemma dom_block_map: "dom (block_map g a bs) \<subseteq> set (heads a bs)"
  by (induction g a bs rule: block_map.induct) (auto split: if_splits)

lemma dom_block_map_bounds:
  "big bs \<Longrightarrow> c \<in> dom (block_map g a bs) \<Longrightarrow> a \<le> c \<and> c + 32 \<le> a + extent bs"
  using dom_block_map [of g a bs] heads_bounds by blast

lemma block_map_outside: "big bs \<Longrightarrow> c < a \<or> a + extent bs \<le> c \<Longrightarrow> block_map g a bs c = None"
  using dom_block_map_bounds [of bs c g a] by (cases "block_map g a bs c") (auto simp: domI)

lemma block_map_split:
  assumes "big bs" "block_map g a bs b = Some s"
  shows "\<exists>xs ys. bs = xs @ (s, g) # ys \<and> b = a + extent xs"
  using assms
proof (induction g a bs rule: block_map.induct)
  case (2 g a s' f bs)
  show ?case
  proof (cases "block_map g (a + s') bs b")
    case None
    then have "s' = s" "f = g" "b = a"
      using 2(3) by (auto split: if_splits)
    then show ?thesis
      by (intro exI [of _ "[]"] exI [of _ bs]) simp
  next
    case (Some s'')
    then have "block_map g (a + s') bs b = Some s"
      using 2(3) by simp
    then obtain xs ys where "bs = xs @ (s, g) # ys" "b = a + s' + extent xs"
      using 2 by auto
    then show ?thesis
      by (intro exI [of _ "(s', f) # xs"] exI [of _ ys]) simp
  qed
qed simp

lemma block_map_at: "big (xs @ (s, g) # ys) \<Longrightarrow> block_map g a (xs @ (s, g) # ys) (a + extent xs) = Some s"
  using block_map_outside [of ys "a + extent xs" "a + extent xs + s" g] by (simp add: map_add_def)

lemma block_map_size: "big bs \<Longrightarrow> block_map g a bs b = Some s \<Longrightarrow> 32 \<le> s \<and> s \<le> extent bs"
  using block_map_split [of bs g a b s] by auto

lemma block_map_spaced:
  assumes "big bs" "0 < a" "a + extent bs < usize_bound" "extent bs < 2 ^ 32"
  shows "spaced (block_map g a bs)"
proof -
  have "nodes_apart b c" if "b \<in> dom (block_map g a bs)" "c \<in> dom (block_map g a bs)" "b \<noteq> c" for b c
  proof -
    have "b \<in> set (heads a bs)" "c \<in> set (heads a (bs @ [(0, False)]))"
      using that dom_block_map [of g a bs] by auto
    from heads_gap [OF assms(1) this that(3)] show ?thesis
      by (auto simp: nodes_apart_def)
  qed
  moreover have "0 < b \<and> b < usize_bound \<and> 32 \<le> the (block_map g a bs b) \<and> the (block_map g a bs b) < 2 ^ 32"
    if "b \<in> dom (block_map g a bs)" for b
    using that dom_block_map_bounds [OF assms(1) that] assms block_map_size [OF assms(1), of g a b] by fastforce
  ultimately show ?thesis
    by (simp add: spaced_def)
qed

lemma headers_sizes: "big bs \<Longrightarrow> headers_ok t a st bs \<Longrightarrow> sizes_ok t (block_map g a bs)"
  unfolding sizes_ok_def by (auto dest!: block_map_split dest: hdr_read)

lemma block_map_release:
  assumes "big (xs @ (s, f) # ys)"
  shows "block_map g a (xs @ (s, \<not> g) # ys) = (block_map g a (xs @ (s, g) # ys))(a + extent xs := None)"
    "block_map g a (xs @ (s, g) # ys) = (block_map g a (xs @ (s, \<not> g) # ys))(a + extent xs \<mapsto> s)"
  using assms block_map_outside [of xs "a + extent xs" a g] block_map_outside [of ys "a + extent xs" "a + extent xs + s" g]
  by (auto simp: map_add_def fun_eq_iff split: option.splits)

subsection \<open>The invariant\<close>

definition span :: "tlsf \<Rightarrow> blocks \<Rightarrow> bool" where
  "span t bs \<longleftrightarrow> 0 < heap_start t \<and> 8 dvd heap_start t \<and> heap_end t = heap_start t + extent bs \<and>
     heap_end t < 9223372036854775808 \<and> extent bs < 2 ^ 32 \<and> big bs"

abbreviation sentinel :: "nat \<times> bool" where
  "sentinel \<equiv> (0, False)"

definition no_adjacent_free :: "blocks \<Rightarrow> bool" where
  "no_adjacent_free = successively (\<lambda>x y. \<not> (snd x \<and> snd y))"

definition tlsf_ok :: "tlsf \<Rightarrow> blocks \<Rightarrow> bool" where
  "tlsf_ok t bs \<longleftrightarrow> span t bs \<and> headers_ok t (heap_start t) (False, 0) (bs @ [sentinel]) \<and>
     no_adjacent_free bs \<and> index_ok t (block_map True (heap_start t) bs)"

text \<open>A block that is marked free but not yet in the index, and that the block after does not know of.\<close>

definition floating :: "tlsf \<Rightarrow> blocks \<Rightarrow> nat \<Rightarrow> blocks \<Rightarrow> bool" where
  "floating t xs s ys \<longleftrightarrow> span t (xs @ (s, False) # ys) \<and> headers_ok t (heap_start t) (False, 0) (xs @ [(s, True)]) \<and>
     (\<exists>st. headers_ok t (heap_start t + extent xs + s) st (ys @ [sentinel])) \<and>
     no_adjacent_free xs \<and> no_adjacent_free ys \<and>
     index_ok t (block_map True (heap_start t) (xs @ (s, False) # ys))"

lemma no_adjacent_free_append:
  "no_adjacent_free (xs @ ys) \<longleftrightarrow> no_adjacent_free xs \<and> no_adjacent_free ys \<and>
     (xs = [] \<or> ys = [] \<or> \<not> (snd (last xs) \<and> snd (hd ys)))"
  by (auto simp: no_adjacent_free_def successively_append_iff)

lemma no_adjacent_free_Cons:
  "no_adjacent_free (x # xs) \<longleftrightarrow> no_adjacent_free xs \<and> (xs = [] \<or> \<not> (snd x \<and> snd (hd xs)))"
  by (cases xs) (auto simp: no_adjacent_free_def)

lemma no_adjacent_free_Nil [simp]: "no_adjacent_free []"
  by (simp add: no_adjacent_free_def)

lemma span_spaced: "span t bs \<Longrightarrow> spaced (block_map g (heap_start t) bs)"
  by (rule block_map_spaced) (auto simp: span_def)

lemma span_cong:
  "span t bs \<Longrightarrow> heap_start t' = heap_start t \<Longrightarrow> heap_end t' = heap_end t \<Longrightarrow> extent bs' = extent bs \<Longrightarrow> big bs' \<Longrightarrow>
     span t' bs'"
  by (simp add: span_def)

lemma flow_last: "fst (flow (False, 0) xs) \<longleftrightarrow> xs \<noteq> [] \<and> snd (last xs)"
proof (cases xs rule: rev_cases)
  case (snoc ys y)
  then show ?thesis
    by (cases y) simp
qed simp

subsection \<open>Writing headers\<close>

lemma hdr_ok_put: "8 dvd s \<Longrightarrow> s < 2 ^ 32 \<Longrightarrow> (pf \<longrightarrow> p = of_nat ps) \<Longrightarrow> hdr_ok (put_header a p (enc s f pf) t) a s f pf ps"
  by (simp add: hdr_ok_def)

lemma set_block_eq: "s < 2 ^ 32 \<Longrightarrow> set_block a s f pf t = Some (put_header a (prev_phys_size t a) (enc s f pf) t)"
  by (simp add: set_block_def require_eq set_size_and_flags_def enc_def)

lemma mark_block_free_eq:
  "hdr_ok t a s f pf ps \<Longrightarrow> mark_free a g t = put_header a (prev_phys_size t a) (enc s g pf) t"
  using enc_ops(4,5) [of s f pf] by (auto simp: hdr_ok_def header_ops intro: dvd_trans [of 4 8])

lemma mark_prev_free_eq:
  "hdr_ok t a s f pf ps \<Longrightarrow> mark_prev_free a g t = put_header a (prev_phys_size t a) (enc s f g) t"
  using enc_ops(6,7) [of s f pf] by (auto simp: hdr_ok_def header_ops intro: dvd_trans [of 4 8])

text \<open>The header of a block is neither another header nor a cell of a node.\<close>

lemma header_cells:
  assumes "big (xs @ (s, f) # ys)"
  shows "a + extent xs \<notin> set (heads a xs)"
    "a + extent xs \<notin> set (heads (a + extent xs + s) (ys @ [sentinel]))"
    "a + extent xs \<notin> node_cells (set (heads a (xs @ (s, f) # ys)))"
    "a + extent xs + s \<notin> set (heads a (xs @ [(s, f)]))"
    "a + extent xs + s \<notin> node_cells (set (heads a (xs @ (s, f) # ys)))"
proof -
  have big: "big xs" "big ys" "32 \<le> s"
    using assms by auto
  show 1: "a + extent xs \<notin> set (heads a xs)" "a + extent xs \<notin> set (heads (a + extent xs + s) (ys @ [sentinel]))"
    "a + extent xs + s \<notin> set (heads a (xs @ [(s, f)]))"
    using heads_bounds [OF big(1), of _ a] heads_bounds [OF big(2), of _ "a + extent xs + s"] big(3) by fastforce+
  have "a + extent xs \<in> set (heads a ((xs @ (s, f) # ys) @ [sentinel]))"
    "a + extent xs + s \<in> set (heads a ((xs @ (s, f) # ys) @ [sentinel]))"
    by (cases ys; auto)+
  then show "a + extent xs \<notin> node_cells (set (heads a (xs @ (s, f) # ys)))"
    "a + extent xs + s \<notin> node_cells (set (heads a (xs @ (s, f) # ys)))"
    using heads_not_node [OF assms order_refl, of a 0 False] by blast+
qed

lemma index_put_header:
  assumes "index_ok t (block_map True a bs)" "c \<notin> node_cells (set (heads a bs))"
  shows "index_ok (put_header c p w t) (block_map True a bs)"
proof (rule index_ok_cong [OF assms(1)])
  show "\<And>x. x \<in> node_cells (dom (block_map True a bs)) \<Longrightarrow> mem (put_header c p w t) x = mem t x"
    using assms(2) dom_block_map [of True a bs] by (intro put_header_mem) (auto simp: node_cells_def)
qed simp_all

subsection \<open>Releasing a block\<close>

lemma put_header_headers:
  "c \<notin> set (heads a bs) \<Longrightarrow> headers_ok (put_header c p w t) a st bs = headers_ok t a st bs"
  by (rule headers_ok_frame [OF frame_put_header]) auto

lemma floatingI:
  assumes sp: "span t (xs @ (s, False) # ys)" and hx: "headers_ok t (heap_start t) (False, 0) xs"
    and hy: "headers_ok t (heap_start t + extent xs + s) st (ys @ [sentinel])"
    and adj: "no_adjacent_free xs" "no_adjacent_free ys"
    and idx: "index_ok t (block_map True (heap_start t) (xs @ (s, False) # ys))"
    and s: "8 dvd s" and p: "fst (flow (False, 0) xs) \<longrightarrow> p = of_nat (snd (flow (False, 0) xs))"
  shows "floating (put_header (heap_start t + extent xs) p (enc s True (fst (flow (False, 0) xs))) t) xs s ys"
proof -
  define A where "A = heap_start t + extent xs"
  define t' where "t' = put_header A p (enc s True (fst (flow (False, 0) xs))) t"
  have big: "big (xs @ (s, False) # ys)" and lt: "s < 2 ^ 32"
    using sp by (auto simp: span_def)
  note cells = header_cells [OF big, of "heap_start t", folded A_def]
  have "hdr_ok t' A s True (fst (flow (False, 0) xs)) (snd (flow (False, 0) xs))"
    unfolding t'_def using s lt p by (rule hdr_ok_put)
  moreover have "headers_ok t' (heap_start t) (False, 0) xs" "headers_ok t' (A + s) st (ys @ [sentinel])"
    using put_header_headers [OF cells(1)] put_header_headers [OF cells(2)] hx hy by (simp_all add: t'_def A_def)
  moreover have "index_ok t' (block_map True (heap_start t) (xs @ (s, False) # ys))"
    unfolding t'_def by (rule index_put_header [OF idx cells(3)])
  moreover have "span t' (xs @ (s, False) # ys)" "heap_start t' = heap_start t"
    using sp by (simp_all add: t'_def span_def)
  ultimately show ?thesis
    unfolding floating_def A_def [symmetric] t'_def [symmetric] using adj
    by (simp add: A_def del: block_map_append split_paired_Ex) blast
qed

lemma hdr_prev: "hdr_ok t a s f pf ps \<Longrightarrow> pf \<longrightarrow> prev_phys_size t a = of_nat ps"
  by (simp add: hdr_ok_def)

lemma free_marks:
  assumes "tlsf_ok t (xs @ (s, False) # ys)"
  shows "floating (mark_free (heap_start t + extent xs) True t) xs s ys"
proof -
  define A where "A = heap_start t + extent xs"
  have sp: "span t (xs @ (s, False) # ys)" and adj: "no_adjacent_free (xs @ (s, False) # ys)"
    and idx: "index_ok t (block_map True (heap_start t) (xs @ (s, False) # ys))"
    and hx: "headers_ok t (heap_start t) (False, 0) xs"
    and h: "hdr_ok t A s False (fst (flow (False, 0) xs)) (snd (flow (False, 0) xs))"
    and hy: "headers_ok t (A + s) (False, s) (ys @ [sentinel])"
    using assms by (auto simp: tlsf_ok_def A_def)
  have "8 dvd s"
    using h by (simp add: hdr_ok_def)
  from floatingI [OF sp hx hy [unfolded A_def] _ _ idx this hdr_prev [OF h]] adj mark_block_free_eq [OF h, of True]
  show ?thesis
    by (simp add: A_def no_adjacent_free_append no_adjacent_free_Cons)
qed

lemma node_cells_mono: "A \<subseteq> B \<Longrightarrow> node_cells A \<subseteq> node_cells B"
  by (auto simp: node_cells_def)

lemma remove_indexed:
  assumes sp: "span t (us @ (s, True) # vs)" and idx: "index_ok t (block_map True (heap_start t) (us @ (s, True) # vs))"
    and sz: "block_size t (heap_start t + extent us) = s"
  shows "\<exists>t'. remove_block (heap_start t + extent us) t = Some t' \<and>
    index_ok t' (block_map True (heap_start t) (us @ (s, False) # vs)) \<and>
    frame (node_cells (set (heads (heap_start t) (us @ (s, True) # vs)))) t t'"
proof -
  have big: "big (us @ (s, True) # vs)"
    using sp by (simp add: span_def)
  from remove_block_ok [OF idx span_spaced [OF sp] block_map_at [OF big] sz]
  obtain t' where t': "remove_block (heap_start t + extent us) t = Some t'"
    "index_ok t' ((block_map True (heap_start t) (us @ (s, True) # vs))(heap_start t + extent us := None))"
    "frame (node_cells (dom (block_map True (heap_start t) (us @ (s, True) # vs)))) t t'"
    by blast
  have "frame (node_cells (set (heads (heap_start t) (us @ (s, True) # vs)))) t t'"
    using t'(3) by (rule frame_mono) (rule node_cells_mono [OF dom_block_map])
  then show ?thesis
    using t'(1,2) block_map_release(1) [OF big, of True] by auto
qed

text \<open>An index operation leaves every header alone.\<close>

lemma headers_node_frame:
  assumes "big bs" "frame (node_cells (set (heads a bs))) t t'" "set (heads c cs) \<subseteq> set (heads a (bs @ [sentinel]))"
  shows "headers_ok t' c st cs = headers_ok t c st cs"
  using heads_not_node [OF assms(1) order_refl, of a 0 False] assms(3) by (intro headers_ok_frame [OF assms(2)]) blast

lemma merge_next:
  assumes "floating t xs s ((s2, True) # ys)"
  defines "A \<equiv> heap_start t + extent xs"
  shows "\<exists>t1 t2. is_free t (A + s) \<and> A + s < heap_end t \<and> remove_block (A + s) t = Some t1 \<and> block_size t1 (A + s) = s2 \<and>
    set_block A (s + s2) True (prev_is_free t1 A) t1 = Some t2 \<and> floating t2 xs (s + s2) ys \<and> heap_start t2 = heap_start t"
proof -
  let ?bs = "xs @ (s, False) # (s2, True) # ys"
  obtain st where sp: "span t ?bs" and adj: "no_adjacent_free xs" "no_adjacent_free ys"
    and idx: "index_ok t (block_map True (heap_start t) ?bs)"
    and hx: "headers_ok t (heap_start t) (False, 0) xs"
    and h: "hdr_ok t A s True (fst (flow (False, 0) xs)) (snd (flow (False, 0) xs))"
    and h2: "hdr_ok t (A + s) s2 True (fst st) (snd st)"
    and hy: "headers_ok t (A + s + s2) (True, s2) (ys @ [sentinel])"
    using assms(1) by (auto simp: floating_def A_def no_adjacent_free_Cons)
  have big: "big ?bs"
    using sp by (simp add: span_def)
  have b2: "block_size t (heap_start t + extent (xs @ [(s, False)])) = s2"
    using hdr_read(1) [OF h2] by (simp add: A_def add.assoc)
  from remove_indexed [OF _ _ this, of ys] sp idx obtain t1 where
    t1: "remove_block (A + s) t = Some t1"
    "index_ok t1 (block_map True (heap_start t) (xs @ (s + s2, False) # ys))"
    "frame (node_cells (set (heads (heap_start t) ?bs))) t t1"
    by (auto simp: A_def add.assoc)
  note keep = headers_node_frame [OF big t1(3)]
  have heap: "heap_start t1 = heap_start t" "heap_end t1 = heap_end t"
    using t1(3) by (simp_all add: frame_def)
  have hx1: "headers_ok t1 (heap_start t) (False, 0) xs" and hy1: "headers_ok t1 (A + s + s2) (True, s2) (ys @ [sentinel])"
    and h1: "hdr_ok t1 A s True (fst (flow (False, 0) xs)) (snd (flow (False, 0) xs))"
    and h21: "hdr_ok t1 (A + s) s2 True (fst st) (snd st)"
    using keep [of "heap_start t" xs] keep [of "A + s + s2" "ys @ [sentinel]"] hx hy h h2
      keep [of A "[(s, True)]" "flow (False, 0) xs"] keep [of "A + s" "[(s2, True)]" st]
    by (auto simp: A_def add.assoc)
  have "8 dvd s + s2" "s + s2 < 2 ^ 32"
    using h h2 sp by (auto simp: hdr_ok_def span_def)
  moreover have "span t1 (xs @ (s + s2, False) # ys)"
    using sp heap by (auto simp: span_def)
  ultimately have "floating (put_header A (prev_phys_size t1 A) (enc (s + s2) True (fst (flow (False, 0) xs))) t1) xs (s + s2) ys"
    using floatingI [of t1 xs "s + s2" ys "(True, s2)" "prev_phys_size t1 A"] hx1 hy1 adj t1(2) heap hdr_prev [OF h1]
    by (simp add: A_def add.assoc)
  moreover have "A + s < heap_end t"
    using sp by (auto simp: span_def A_def)
  ultimately show ?thesis
    using t1(1) hdr_read(1) [OF h21] hdr_read(3) [OF h1] hdr_read(2) [OF h2] set_block_eq [OF \<open>s + s2 < 2 ^ 32\<close>] heap by simp
qed

lemma merge_prev:
  assumes "floating t (xs @ [(s0, True)]) s ys"
  defines "A \<equiv> heap_start t + extent xs"
  shows "\<exists>t1 t2. prev_is_free t (A + s0) \<and> unat (prev_phys_size t (A + s0)) = s0 \<and> remove_block A t = Some t1 \<and>
    set_block A (s + s0) True (prev_is_free t1 A) t1 = Some t2 \<and> floating t2 xs (s + s0) ys \<and> heap_start t2 = heap_start t"
proof -
  let ?bs = "xs @ (s0, True) # (s, False) # ys"
  obtain st where sp: "span t ?bs" and adj: "no_adjacent_free xs" "no_adjacent_free ys"
    and idx: "index_ok t (block_map True (heap_start t) ?bs)"
    and hx: "headers_ok t (heap_start t) (False, 0) xs"
    and h0: "hdr_ok t A s0 True (fst (flow (False, 0) xs)) (snd (flow (False, 0) xs))"
    and h: "hdr_ok t (A + s0) s True True s0"
    and hy: "headers_ok t (A + s0 + s) st (ys @ [sentinel])"
    using assms(1) unfolding floating_def by (auto simp: A_def no_adjacent_free_append add.assoc)
  have big: "big ?bs" and s0: "s0 < 2 ^ 32"
    using sp by (auto simp: span_def)
  have "block_size t (heap_start t + extent xs) = s0"
    using hdr_read(1) [OF h0] by (simp add: A_def)
  from remove_indexed [OF sp idx this] obtain t1 where
    t1: "remove_block A t = Some t1"
    "index_ok t1 (block_map True (heap_start t) (xs @ (s + s0, False) # ys))"
    "frame (node_cells (set (heads (heap_start t) ?bs))) t t1"
    by (auto simp: A_def ac_simps)
  note keep = headers_node_frame [OF big t1(3)]
  have heap: "heap_start t1 = heap_start t" "heap_end t1 = heap_end t"
    using t1(3) by (simp_all add: frame_def)
  have hx1: "headers_ok t1 (heap_start t) (False, 0) xs" and hy1: "headers_ok t1 (A + s0 + s) st (ys @ [sentinel])"
    and h1: "hdr_ok t1 A s0 True (fst (flow (False, 0) xs)) (snd (flow (False, 0) xs))"
    using keep [of "heap_start t" xs] keep [of "A + s0 + s" "ys @ [sentinel]" st] hx hy h0
      keep [of A "[(s0, True)]" "flow (False, 0) xs"]
    by (auto simp: A_def add.assoc)
  have "8 dvd s + s0" "s + s0 < 2 ^ 32"
    using h h0 sp by (auto simp: hdr_ok_def span_def)
  moreover have "span t1 (xs @ (s + s0, False) # ys)"
    using sp heap by (auto simp: span_def)
  moreover have "headers_ok t1 (heap_start t1 + extent xs + (s + s0)) st (ys @ [sentinel])"
    using hy1 by (simp add: A_def heap ac_simps del: headers_ok_append)
  ultimately have "floating (put_header A (prev_phys_size t1 A) (enc (s + s0) True (fst (flow (False, 0) xs))) t1) xs (s + s0) ys"
    using floatingI [of t1 xs "s + s0" ys st "prev_phys_size t1 A"] hx1 adj t1(2) heap hdr_prev [OF h1]
    by (simp add: A_def)
  moreover have "unat (prev_phys_size t (A + s0)) = s0"
    using hdr_prev [OF h] s0 by (simp add: unsigned_of_nat take_bit_nat_eq_self)
  ultimately show ?thesis
    using t1(1) hdr_read(3) [OF h1] hdr_read(3) [OF h] set_block_eq [OF \<open>s + s0 < 2 ^ 32\<close>] heap by simp
qed

lemma put_header_twice: "put_header a p w (put_header a p' w' t) = put_header a p w t"
  by (simp add: put_header_def)

text \<open>A block whose headers and neighbours are settled enters the index.\<close>

lemma insert_settled:
  assumes sp: "span t (xs @ (s, True) # ys)" and hs: "headers_ok t (heap_start t) (False, 0) (xs @ (s, True) # ys @ [sentinel])"
    and adj: "no_adjacent_free (xs @ (s, True) # ys)"
    and idx: "index_ok t (block_map True (heap_start t) (xs @ (s, False) # ys))"
  shows "\<exists>t'. insert_block (heap_start t + extent xs) s t = Some t' \<and> tlsf_ok t' (xs @ (s, True) # ys) \<and>
    heap_start t' = heap_start t"
proof -
  let ?bs = "xs @ (s, True) # ys" and ?A = "heap_start t + extent xs"
  have big: "big ?bs"
    using sp by (simp add: span_def)
  have new: "block_map True (heap_start t) ?bs = (block_map True (heap_start t) (xs @ (s, False) # ys))(?A \<mapsto> s)"
    using block_map_release(2) [OF big, of True] by simp
  have out: "?A \<notin> dom (block_map True (heap_start t) (xs @ (s, False) # ys))"
    using block_map_release(1) [OF big, of True "heap_start t"] by (simp add: domIff del: block_map_append)
  from insert_block_ok [OF idx out span_spaced [OF sp, of True, unfolded new]] obtain t' where
    t': "insert_block ?A s t = Some t'" "index_ok t' (block_map True (heap_start t) ?bs)"
    "frame (node_cells (insert ?A (dom (block_map True (heap_start t) (xs @ (s, False) # ys))))) t t'"
    unfolding new by blast
  have "insert ?A (dom (block_map True (heap_start t) (xs @ (s, False) # ys))) = dom (block_map True (heap_start t) ?bs)"
    unfolding new by auto
  then have fr: "frame (node_cells (set (heads (heap_start t) ?bs))) t t'"
    using t'(3) by (intro frame_mono [OF t'(3)] node_cells_mono) (simp only: dom_block_map)
  have "headers_ok t' (heap_start t) (False, 0) (?bs @ [sentinel])"
    using headers_node_frame [OF big fr order_refl] hs by simp
  moreover have "heap_start t' = heap_start t" "heap_end t' = heap_end t"
    using fr by (simp_all add: frame_def)
  ultimately have "tlsf_ok t' ?bs"
    unfolding tlsf_ok_def using sp adj t'(2) by (simp add: span_def del: block_map_append)
  then show ?thesis
    using t'(1) \<open>heap_start t' = heap_start t\<close> by auto
qed

text \<open>Telling the next block about a change of this one.\<close>

lemma relabel_next:
  assumes big: "big (xs @ (s, g) # ys)" and hx: "headers_ok t a (False, 0) (xs @ [(s, f)])"
    and hy: "headers_ok t (a + extent xs + s) st (ys @ [sentinel])" and p: "f \<longrightarrow> p = of_nat s"
  shows "\<exists>s2 f2. hdr_ok t (a + extent xs + s) s2 f2 (fst st) (snd st) \<and>
    headers_ok (put_header (a + extent xs + s) p (enc s2 f2 f) t) a (False, 0) (xs @ (s, f) # ys @ [sentinel])"
proof -
  define N where "N = a + extent xs + s"
  obtain s2 f2 zs where zs: "ys @ [sentinel] = (s2, f2) # zs"
    by (cases "ys @ [sentinel]") auto
  have h2: "hdr_ok t N s2 f2 (fst st) (snd st)" and hz: "headers_ok t (N + s2) (f2, s2) zs"
    using hy unfolding zs N_def by simp_all
  define t' where "t' = put_header N p (enc s2 f2 f) t"
  have "8 dvd s2" "s2 < 2 ^ 32"
    using h2 by (simp_all add: hdr_ok_def)
  then have "hdr_ok t' N s2 f2 f s"
    unfolding t'_def using p by (rule hdr_ok_put)
  moreover have "N \<notin> set (heads a (xs @ [(s, f)]))"
    using header_cells(4) [OF big, of a] by (simp add: N_def)
  then have "headers_ok t' a (False, 0) (xs @ [(s, f)])"
    unfolding t'_def using put_header_headers hx by blast
  moreover have "N \<notin> set (heads (N + s2) zs)"
  proof (cases ys)
    case (Cons y ys')
    then have "big (ys' @ [(32, False)])" "zs = ys' @ [sentinel]" "32 \<le> s2"
      using zs big by auto
    with heads_bounds [OF this(1), of N "N + s2"] show ?thesis
      by auto
  qed (use zs in simp)
  then have "headers_ok t' (N + s2) (f2, s2) zs"
    unfolding t'_def using put_header_headers hz by blast
  ultimately have "headers_ok t' a (False, 0) (xs @ (s, f) # ys @ [sentinel])"
    unfolding zs by (simp add: N_def)
  then show ?thesis
    using h2 unfolding t'_def N_def by blast
qed

lemma floating_settles:
  assumes "floating t xs s ys" and nb: "xs = [] \<or> \<not> snd (last xs)" "ys = [] \<or> \<not> snd (hd ys)"
  defines "A \<equiv> heap_start t + extent xs"
  shows "\<exists>t'. insert_block A s (mark_prev_free (A + s) True (set_prev_phys_size (A + s) (of_nat s) t)) = Some t' \<and>
    tlsf_ok t' (xs @ (s, True) # ys) \<and> heap_start t' = heap_start t"
proof -
  obtain st where sp: "span t (xs @ (s, False) # ys)" and adj: "no_adjacent_free xs" "no_adjacent_free ys"
    and idx: "index_ok t (block_map True (heap_start t) (xs @ (s, False) # ys))"
    and hx: "headers_ok t (heap_start t) (False, 0) (xs @ [(s, True)])"
    and st: "headers_ok t (A + s) st (ys @ [sentinel])"
    using assms(1) unfolding floating_def A_def by blast
  have big: "big (xs @ (s, False) # ys)"
    using sp by (simp add: span_def)
  note cells = header_cells [OF big, of "heap_start t", folded A_def]
  from relabel_next [OF big hx st [unfolded A_def], of "of_nat s", folded A_def] obtain s2 f2 where
    h2: "hdr_ok t (A + s) s2 f2 (fst st) (snd st)"
    and new: "headers_ok (put_header (A + s) (of_nat s) (enc s2 f2 True) t) (heap_start t) (False, 0) (xs @ (s, True) # ys @ [sentinel])"
    by blast
  define t1 where "t1 = set_prev_phys_size (A + s) (of_nat s) t"
  define t2 where "t2 = mark_prev_free (A + s) True t1"
  have s2: "8 dvd s2" "s2 < 2 ^ 32"
    using h2 by (simp_all add: hdr_ok_def)
  have t1: "t1 = put_header (A + s) (of_nat s) (enc s2 f2 (fst st)) t"
    using h2 by (simp add: t1_def set_prev_phys_size_def hdr_ok_def)
  have "hdr_ok t1 (A + s) s2 f2 (fst st) s"
    unfolding t1 by (rule hdr_ok_put [OF s2]) simp
  from mark_prev_free_eq [OF this] have t2: "t2 = put_header (A + s) (of_nat s) (enc s2 f2 True) t"
    by (simp add: t2_def t1 put_header_twice)
  have "headers_ok t2 (heap_start t) (False, 0) (xs @ (s, True) # ys @ [sentinel])"
    unfolding t2 by (rule new)
  moreover have "span t2 (xs @ (s, True) # ys)" "heap_start t2 = heap_start t"
    using sp by (simp_all add: t2 span_def)
  moreover have "no_adjacent_free (xs @ (s, True) # ys)"
    using adj nb by (auto simp: no_adjacent_free_append no_adjacent_free_Cons)
  moreover have "index_ok t2 (block_map True (heap_start t) (xs @ (s, False) # ys))"
    unfolding t2 by (rule index_put_header [OF idx cells(5)])
  ultimately show ?thesis
    using insert_settled [of t2 xs s ys] by (simp add: t2_def t1_def A_def)
qed

end
