(* ===== verification/Tlsf_Ops.thy ===== *)
theory Tlsf_Ops
  imports Tlsf_Inv
begin

text \<open>
  \<^verbatim>\<open>init\<close>, \<^verbatim>\<open>malloc\<close> and \<^verbatim>\<open>free\<close> of the TLSF allocator on the list of
  blocks: each returns, keeps the invariant, and changes the list in the way its name promises.
\<close>

lemma span_uadd: "span t bs \<Longrightarrow> a + b \<le> heap_end t \<Longrightarrow> uadd a b = Some (a + b)"
  by (simp add: span_def checked_eqs)

lemma forward_merge:
  assumes fl: "floating t xs s ys"
  defines "A \<equiv> heap_start t + extent xs"
  shows "\<exists>s' ys' t'.
    (if A + s < heap_end t \<and> is_free t (A + s)
     then do { t \<leftarrow> remove_block (A + s) t; sz \<leftarrow> uadd s (block_size t (A + s));
               t \<leftarrow> set_block A sz True (prev_is_free t A) t; Some (sz, t) }
     else Some (s, t)) = Some (s', t') \<and>
    floating t' xs s' ys' \<and> heap_start t' = heap_start t \<and>
    (s', ys') = (if ys \<noteq> [] \<and> snd (hd ys) then (s + fst (hd ys), tl ys) else (s, ys))"
proof (cases "ys \<noteq> [] \<and> snd (hd ys)")
  case True
  then obtain s2 zs where ys: "ys = (s2, True) # zs"
    by (cases ys) auto
  from merge_next [OF fl [unfolded ys]] obtain t1 t2 where
    m: "is_free t (A + s)" "A + s < heap_end t" "remove_block (A + s) t = Some t1" "block_size t1 (A + s) = s2"
      "set_block A (s + s2) True (prev_is_free t1 A) t1 = Some t2" "floating t2 xs (s + s2) zs" "heap_start t2 = heap_start t"
    unfolding A_def by blast
  have "s + s2 < usize_bound"
    using m(6) by (auto simp: floating_def span_def)
  then show ?thesis
    using m by (intro exI [of _ "s + s2"] exI [of _ zs] exI [of _ t2]) (simp add: ys checked_eqs)
next
  case False
  have "\<not> (A + s < heap_end t \<and> is_free t (A + s))"
  proof (cases ys)
    case Nil
    then show ?thesis
      using fl by (simp add: floating_def span_def A_def)
  next
    case (Cons y zs)
    then obtain s2 where "ys = (s2, False) # zs"
      using False by (cases y) auto
    then obtain st where "hdr_ok t (A + s) s2 False (fst st) (snd st)"
      using fl by (auto simp: floating_def A_def)
    then show ?thesis
      using hdr_read(2) by blast
  qed
  moreover have "(s, ys) = (if ys \<noteq> [] \<and> snd (hd ys) then (s + fst (hd ys), tl ys) else (s, ys))"
    using False by auto
  ultimately show ?thesis
    using fl by (intro exI [of _ s] exI [of _ ys] exI [of _ t]) auto
qed

lemma backward_merge:
  assumes fl: "floating t xs s ys"
  defines "A \<equiv> heap_start t + extent xs"
  shows "\<exists>s' xs' t'.
    (if prev_is_free t A
     then do { let prev_size = unat (prev_phys_size t A); prv \<leftarrow> usub A prev_size; t \<leftarrow> remove_block prv t;
               sz \<leftarrow> uadd s prev_size; t \<leftarrow> set_block prv sz True (prev_is_free t prv) t; Some (prv, sz, t) }
     else Some (A, s, t)) = Some (heap_start t + extent xs', s', t') \<and>
    floating t' xs' s' ys \<and> heap_start t' = heap_start t \<and>
    (xs', s') = (if xs \<noteq> [] \<and> snd (last xs) then (butlast xs, s + fst (last xs)) else (xs, s))"
proof -
  have "hdr_ok t A s True (fst (flow (False, 0) xs)) (snd (flow (False, 0) xs))"
    using fl by (auto simp: floating_def A_def)
  then have pf: "prev_is_free t A \<longleftrightarrow> xs \<noteq> [] \<and> snd (last xs)"
    using hdr_read(3) flow_last by blast
  show ?thesis
  proof (cases "xs \<noteq> [] \<and> snd (last xs)")
    case True
    then obtain s0 zs where xs: "xs = zs @ [(s0, True)]"
      by (cases xs rule: rev_cases) auto
    let ?B = "heap_start t + extent zs"
    have A: "A = ?B + s0"
      by (simp add: A_def xs)
    from merge_prev [OF fl [unfolded xs]] obtain t1 t2 where
      m: "unat (prev_phys_size t (?B + s0)) = s0" "remove_block ?B t = Some t1"
        "set_block ?B (s + s0) True (prev_is_free t1 ?B) t1 = Some t2" "floating t2 zs (s + s0) ys" "heap_start t2 = heap_start t"
      by blast
    have "s + s0 < usize_bound"
      using m(4) by (auto simp: floating_def span_def)
    moreover have "prev_is_free t A"
      using pf True by simp
    ultimately show ?thesis
      using m by (intro exI [of _ "s + s0"] exI [of _ zs] exI [of _ t2]) (simp add: xs A checked_eqs)
  next
    case False
    then have "(xs, s) = (if xs \<noteq> [] \<and> snd (last xs) then (butlast xs, s + fst (last xs)) else (xs, s))"
      by auto
    then show ?thesis
      using fl pf False by (intro exI [of _ s] exI [of _ xs] exI [of _ t]) (auto simp: A_def)
  qed
qed

lemma no_adjacent_free_ends:
  assumes "no_adjacent_free xs"
  shows "xs \<noteq> [] \<Longrightarrow> snd (last xs) \<Longrightarrow> butlast xs = [] \<or> \<not> snd (last (butlast xs))"
    "xs \<noteq> [] \<Longrightarrow> snd (hd xs) \<Longrightarrow> tl xs = [] \<or> \<not> snd (hd (tl xs))"
proof -
  show "butlast xs = [] \<or> \<not> snd (last (butlast xs))" if "xs \<noteq> []" "snd (last xs)"
    using assms that by (cases xs rule: rev_cases) (auto simp: no_adjacent_free_append)
  show "tl xs = [] \<or> \<not> snd (hd (tl xs))" if "xs \<noteq> []" "snd (hd xs)"
    using assms that by (cases xs) (auto simp: no_adjacent_free_Cons)
qed

text \<open>What \<^verbatim>\<open>free\<close> does to the list of blocks.\<close>

definition coalesced :: "blocks \<Rightarrow> nat \<Rightarrow> blocks \<Rightarrow> blocks" where
  "coalesced xs s ys =
     (let (s, ys) = if ys \<noteq> [] \<and> snd (hd ys) then (s + fst (hd ys), tl ys) else (s, ys);
          (xs, s) = if xs \<noteq> [] \<and> snd (last xs) then (butlast xs, s + fst (last xs)) else (xs, s)
      in xs @ (s, True) # ys)"

lemma free_ok:
  assumes ok: "tlsf_ok t (xs @ (s, False) # ys)"
  shows "\<exists>t'. free (heap_start t + extent xs + 8) t = Some t' \<and> tlsf_ok t' (coalesced xs s ys) \<and> heap_start t' = heap_start t"
proof -
  define A where "A = heap_start t + extent xs"
  define t1 where "t1 = mark_free A True t"
  have fl1: "floating t1 xs s ys" and h1: "heap_start t1 = heap_start t"
    using free_marks [OF ok] by (simp_all add: t1_def A_def mark_free_def header_ops)
  have h: "hdr_ok t A s False (fst (flow (False, 0) xs)) (snd (flow (False, 0) xs))" and sp: "span t (xs @ (s, False) # ys)"
    using ok by (auto simp: tlsf_ok_def A_def)
  from forward_merge [OF fl1] obtain s2 ys' t2 where
    t2: "(if A + s < heap_end t1 \<and> is_free t1 (A + s)
     then do { t \<leftarrow> remove_block (A + s) t1; sz \<leftarrow> uadd s (block_size t (A + s));
               t \<leftarrow> set_block A sz True (prev_is_free t A) t; Some (sz, t) }
     else Some (s, t1)) = Some (s2, t2)" "floating t2 xs s2 ys'" "heap_start t2 = heap_start t"
    "(s2, ys') = (if ys \<noteq> [] \<and> snd (hd ys) then (s + fst (hd ys), tl ys) else (s, ys))"
    unfolding h1 A_def by blast
  from backward_merge [OF t2(2)] obtain s3 xs' t3 where
    t3: "(if prev_is_free t2 A
     then do { let prev_size = unat (prev_phys_size t2 A); prv \<leftarrow> usub A prev_size; t \<leftarrow> remove_block prv t2;
               sz \<leftarrow> uadd s2 prev_size; t \<leftarrow> set_block prv sz True (prev_is_free t prv) t; Some (prv, sz, t) }
     else Some (A, s2, t2)) = Some (heap_start t + extent xs', s3, t3)" "floating t3 xs' s3 ys'" "heap_start t3 = heap_start t"
    "(xs', s3) = (if xs \<noteq> [] \<and> snd (last xs) then (butlast xs, s2 + fst (last xs)) else (xs, s2))"
    unfolding t2(3) A_def by blast
  have adj: "no_adjacent_free xs" "no_adjacent_free ys"
    using ok by (simp_all add: tlsf_ok_def no_adjacent_free_append no_adjacent_free_Cons)
  have nb: "xs' = [] \<or> \<not> snd (last xs')" "ys' = [] \<or> \<not> snd (hd ys')"
    using t2(4) t3(4) no_adjacent_free_ends [OF adj(1)] no_adjacent_free_ends [OF adj(2)] by (auto split: if_splits)
  from floating_settles [OF t3(2) nb] obtain t4 where t4: "tlsf_ok t4 (xs' @ (s3, True) # ys')" "heap_start t4 = heap_start t"
    "insert_block (heap_start t + extent xs') s3 (mark_prev_free (heap_start t + extent xs' + s3) True
      (set_prev_phys_size (heap_start t + extent xs' + s3) (of_nat s3) t3)) = Some t4"
    unfolding t3(3) by blast
  have add: "uadd A s = Some (A + s)" "uadd (heap_start t + extent xs') s3 = Some (heap_start t + extent xs' + s3)"
    using sp t3(2,3) by (auto simp: floating_def span_def A_def checked_eqs)
  have usub: "usub (A + 8) HEADER_SIZE = Some A" and nz: "(A + 8 = 0) = False"
    by (simp_all add: HEADER_SIZE_def checked_eqs)
  have "free (A + 8) t = Some t4"
    using t4(3)
    by (simp only: free_def Let_def usub bind.bind_lunit hdr_read(1) [OF h] t1_def [symmetric] add t2(1)
        t3(1) [unfolded Let_def] prod.case if_False nz)
  moreover have "coalesced xs s ys = xs' @ (s3, True) # ys'"
    by (simp only: coalesced_def Let_def t2(4) [symmetric] prod.case t3(4) [symmetric])
  ultimately show ?thesis
    using t4 by (auto simp: A_def)
qed

subsection \<open>Taking a block\<close>

lemma take_whole:
  assumes sp: "span t (xs @ (s, True) # ys)" and hs: "headers_ok t (heap_start t) (False, 0) (xs @ (s, True) # ys @ [sentinel])"
    and adj: "no_adjacent_free (xs @ (s, True) # ys)"
    and idx: "index_ok t (block_map True (heap_start t) (xs @ (s, False) # ys))"
  defines "A \<equiv> heap_start t + extent xs"
  shows "tlsf_ok (mark_prev_free (A + s) False (mark_free A False t)) (xs @ (s, False) # ys)"
proof -
  have big: "big (xs @ (s, False) # ys)"
    using sp by (simp add: span_def)
  note cells = header_cells [OF big, of "heap_start t", folded A_def]
  have hx: "headers_ok t (heap_start t) (False, 0) xs" and h: "hdr_ok t A s True (fst (flow (False, 0) xs)) (snd (flow (False, 0) xs))"
    and hy: "headers_ok t (A + s) (True, s) (ys @ [sentinel])"
    using hs by (simp_all add: A_def)
  define t1 where "t1 = mark_free A False t"
  have t1: "t1 = put_header A (prev_phys_size t A) (enc s False (fst (flow (False, 0) xs))) t"
    unfolding t1_def by (rule mark_block_free_eq [OF h])
  have "8 dvd s" "s < 2 ^ 32"
    using h by (simp_all add: hdr_ok_def)
  then have "hdr_ok t1 A s False (fst (flow (False, 0) xs)) (snd (flow (False, 0) xs))"
    unfolding t1 using hdr_prev [OF h] by (rule hdr_ok_put)
  moreover have "headers_ok t1 (heap_start t) (False, 0) xs" "headers_ok t1 (A + s) (True, s) (ys @ [sentinel])"
    unfolding t1 using put_header_headers cells(1,2) hx hy by blast+
  ultimately have "headers_ok t1 (heap_start t) (False, 0) (xs @ [(s, False)])"
    and hy1: "headers_ok t1 (heap_start t + extent xs + s) (True, s) (ys @ [sentinel])"
    by (simp_all add: A_def)
  from relabel_next [OF big this, of "prev_phys_size t1 (A + s)", folded A_def] obtain s2 f2 where
    h2: "hdr_ok t1 (A + s) s2 f2 True s"
    and new: "headers_ok (put_header (A + s) (prev_phys_size t1 (A + s)) (enc s2 f2 False) t1) (heap_start t) (False, 0)
      (xs @ (s, False) # ys @ [sentinel])"
    by auto
  define t2 where "t2 = mark_prev_free (A + s) False t1"
  have t2: "t2 = put_header (A + s) (prev_phys_size t1 (A + s)) (enc s2 f2 False) t1"
    unfolding t2_def by (rule mark_prev_free_eq [OF h2])
  have "index_ok t2 (block_map True (heap_start t) (xs @ (s, False) # ys))"
    unfolding t2 t1 by (intro index_put_header idx cells(3,5))
  moreover have "heap_start t2 = heap_start t" "heap_end t2 = heap_end t"
    by (simp_all add: t2 t1)
  moreover have "no_adjacent_free (xs @ (s, False) # ys)"
    using adj by (auto simp: no_adjacent_free_append no_adjacent_free_Cons)
  ultimately show ?thesis
    unfolding t1_def [symmetric] t2_def [symmetric] tlsf_ok_def using sp new [folded t2]
    by (simp add: span_def del: block_map_append)
qed

lemma take_front:
  assumes sp: "span t (xs @ (s, True) # ys)" and hs: "headers_ok t (heap_start t) (False, 0) (xs @ (s, True) # ys @ [sentinel])"
    and adj: "no_adjacent_free (xs @ (s, True) # ys)"
    and idx: "index_ok t (block_map True (heap_start t) (xs @ (s, False) # ys))"
    and s: "s = c + r" "8 dvd c" "32 \<le> c" "32 \<le> r"
  defines "A \<equiv> heap_start t + extent xs"
  shows "\<exists>t1 t2 t3. set_block A c False (prev_is_free t A) t = Some t1 \<and>
    set_block (A + c) r True False (set_prev_phys_size (A + c) (of_nat c) t1) = Some t2 \<and>
    insert_block (A + c) r (mark_prev_free (A + c + r) True (set_prev_phys_size (A + c + r) (of_nat r) t2)) = Some t3 \<and>
    tlsf_ok t3 (xs @ (c, False) # (r, True) # ys) \<and> heap_start t3 = heap_start t"
proof -
  have hx: "headers_ok t (heap_start t) (False, 0) xs" and h: "hdr_ok t A s True (fst (flow (False, 0) xs)) (snd (flow (False, 0) xs))"
    and hy: "headers_ok t (A + c + r) (True, s) (ys @ [sentinel])"
    using hs by (simp_all add: A_def s(1) add.assoc)
  have dv: "8 dvd r" "c < 2 ^ 32" "r < 2 ^ 32"
    using h s by (auto simp: hdr_ok_def dest: dvd_diff_nat [of 8 "c + r" c])
  have sp': "span t ((xs @ [(c, False)]) @ (r, False) # ys)" and big: "big (xs @ (c, False) # (r, False) # ys)"
    using sp s by (auto simp: span_def)
  define t1 where "t1 = put_header A (prev_phys_size t A) (enc c False (fst (flow (False, 0) xs))) t"
  note cells = header_cells [OF big, of "heap_start t", folded A_def]
  have "hdr_ok t1 A c False (fst (flow (False, 0) xs)) (snd (flow (False, 0) xs))"
    unfolding t1_def using s(2) dv(2) hdr_prev [OF h] by (rule hdr_ok_put)
  moreover have "A \<notin> set (heads (A + c + r) (ys @ [sentinel]))"
    using cells(2) by simp
  then have "headers_ok t1 (heap_start t) (False, 0) xs" and hy1: "headers_ok t1 (A + c + r) (True, s) (ys @ [sentinel])"
    unfolding t1_def using put_header_headers cells(1) hx hy by blast+
  ultimately have hx1: "headers_ok t1 (heap_start t1) (False, 0) (xs @ [(c, False)])"
    by (simp add: A_def t1_def)
  have "index_ok t1 (block_map True (heap_start t) (xs @ (c, False) # (r, False) # ys))"
    unfolding t1_def using idx s(1) by (intro index_put_header cells(3)) (simp add: add.assoc)
  then have idx1: "index_ok t1 (block_map True (heap_start t1) ((xs @ [(c, False)]) @ (r, False) # ys))"
    by (simp add: t1_def)
  have sp1: "span t1 ((xs @ [(c, False)]) @ (r, False) # ys)"
    using sp' by (simp add: span_def t1_def)
  have at: "heap_start t1 + extent (xs @ [(c, False)]) = A + c" "flow (False, 0) (xs @ [(c, False)]) = (False, c)"
    by (simp_all add: A_def t1_def)
  have "no_adjacent_free (xs @ [(c, False)])" "no_adjacent_free ys"
    using adj by (auto simp: no_adjacent_free_append no_adjacent_free_Cons)
  from floatingI [OF sp1 hx1 _ this idx1 dv(1), unfolded at, of "(True, s)" "of_nat c"] hy1
  have "floating (put_header (A + c) (of_nat c) (enc r True False) t1) (xs @ [(c, False)]) r ys"
    by simp
  moreover define t2 where "t2 = put_header (A + c) (of_nat c) (enc r True False) t1"
  ultimately have fl: "floating t2 (xs @ [(c, False)]) r ys" and hs2: "heap_start t2 = heap_start t"
    by (simp_all add: t1_def)
  have "ys = [] \<or> \<not> snd (hd ys)"
    using adj by (auto simp: no_adjacent_free_append no_adjacent_free_Cons)
  with floating_settles [OF fl] obtain t3 where
    "insert_block (A + c) r (mark_prev_free (A + c + r) True (set_prev_phys_size (A + c + r) (of_nat r) t2)) = Some t3"
    "tlsf_ok t3 (xs @ (c, False) # (r, True) # ys)" "heap_start t3 = heap_start t"
    by (auto simp: hs2 A_def add.assoc)
  moreover have "set_block A c False (prev_is_free t A) t = Some t1"
    using set_block_eq [OF dv(2)] hdr_read(3) [OF h] by (simp add: t1_def)
  moreover have "set_block (A + c) r True False (set_prev_phys_size (A + c) (of_nat c) t1) = Some t2"
    using set_block_eq [OF dv(3)] by (simp add: t2_def set_prev_phys_size_def put_header_twice)
  ultimately show ?thesis
    by blast
qed

text \<open>What an allocation of \<open>c\<close> bytes does to the block it takes.\<close>

definition carved :: "blocks \<Rightarrow> nat \<Rightarrow> nat \<Rightarrow> blocks \<Rightarrow> blocks" where
  "carved xs s c ys = xs @ (if c + 32 \<le> s then [(c, False), (s - c, True)] else [(s, False)]) @ ys"

definition consumed :: "nat \<Rightarrow> nat" where
  "consumed n = max (round_up n 8) 32"

lemma consumed_props: "8 dvd consumed n" "32 \<le> consumed n" "n \<le> consumed n"
proof -
  show "8 dvd consumed n"
    using round_up_props(1) [of 8 n] by (auto simp: consumed_def max_def)
  show "32 \<le> consumed n" "n \<le> consumed n"
    using round_up_props(2) [of 8 n] by (auto simp: consumed_def)
qed

lemma consumed_mono: "m \<le> n \<Longrightarrow> consumed m \<le> consumed n"
  unfolding consumed_def round_up_def by (intro max.mono mult_le_mono1 div_le_mono) auto

lemma consumed_less: "consumed n < max (n + 8) 33"
  using round_up_props(3) [of 8 n] by (auto simp: consumed_def)

lemma pow2_8: "is_power_of_two 8"
  using is_power_of_two_iff [of 8] by (metis numeral_2_eq_2 power_Suc power_0 mult_2 numeral_Bit0 mult.right_neutral numeral_eq_Suc)

lemma alloc_from_ok:
  assumes sp: "span t (xs @ (s, True) # ys)" and hs: "headers_ok t (heap_start t) (False, 0) (xs @ (s, True) # ys @ [sentinel])"
    and adj: "no_adjacent_free (xs @ (s, True) # ys)"
    and idx: "index_ok t (block_map True (heap_start t) (xs @ (s, False) # ys))"
    and al: "is_power_of_two align" "align + sz < 2 ^ 58"
  defines "A \<equiv> heap_start t + extent xs"
  defines "p \<equiv> round_up (A + 8) align"
  defines "c \<equiv> consumed (8 + (p - (A + 8)) + sz)"
  assumes fits: "c \<le> s"
  shows "\<exists>t'. alloc_from A sz align t = Some (p, t') \<and> tlsf_ok t' (carved xs s c ys) \<and> heap_start t' = heap_start t"
proof -
  have h: "hdr_ok t A s True (fst (flow (False, 0) xs)) (snd (flow (False, 0) xs))"
    using hs by (simp add: A_def)
  have bound: "A + s < 9223372036854775808" "s < 4294967296"
    using sp by (auto simp: span_def A_def)
  have "0 < align"
    using al(1) by (simp add: is_power_of_two_def)
  note up = round_up_props [OF this, of "A + 8", folded p_def]
  have c: "8 dvd c" "32 \<le> c" "8 + (p - (A + 8)) + sz \<le> c"
    using consumed_props unfolding c_def by blast+
  have 1: "uadd A HEADER_SIZE = Some (A + 8)" "align_up (A + 8) align = Some p" "usub p (A + 8) = Some (p - (A + 8))"
    "uadd HEADER_SIZE (p - (A + 8)) = Some (8 + (p - (A + 8)))" "uadd (8 + (p - (A + 8))) sz = Some (8 + (p - (A + 8)) + sz)"
    "align_up (8 + (p - (A + 8)) + sz) 8 = Some (round_up (8 + (p - (A + 8)) + sz) 8)"
    using align_up_eq [OF al(1), of "A + 8"] align_up_eq [OF pow2_8, of "8 + (p - (A + 8)) + sz"] al(2) up bound
    by (simp_all add: checked_eqs HEADER_SIZE_def p_def)
  have 2: "max (round_up (8 + (p - (A + 8)) + sz) 8) MIN_BLOCK_SIZE = c"
    by (simp add: c_def consumed_def MIN_BLOCK_SIZE_def)
  have 3: "uadd c MIN_BLOCK_SIZE = Some (c + 32)"
    using fits bound by (simp add: checked_eqs MIN_BLOCK_SIZE_def)
  have 4: "(s < c) = False"
    using fits by simp
  note start = alloc_from_def [of A sz align t, unfolded Let_def 1 bind.bind_lunit hdr_read(1) [OF h] 2 3 4 if_False]
  show ?thesis
  proof (cases "c + 32 \<le> s")
    case True
    then obtain r where r: "s = c + r" "32 \<le> r"
      by (metis add_le_cancel_left le_add_diff_inverse add_leD1)
    from take_front [OF sp hs adj idx r(1) c(1,2) r(2), folded A_def] obtain t1 t2 t3 where
      t: "set_block A c False (prev_is_free t A) t = Some t1"
        "set_block (A + c) r True False (set_prev_phys_size (A + c) (of_nat c) t1) = Some t2"
        "insert_block (A + c) r (mark_prev_free (A + c + r) True (set_prev_phys_size (A + c + r) (of_nat r) t2)) = Some t3"
        "tlsf_ok t3 (xs @ (c, False) # (r, True) # ys)" "heap_start t3 = heap_start t"
      by blast
    have "uadd A c = Some (A + c)" "uadd (A + c) r = Some (A + c + r)" "s - c = r"
      using bound r by (simp_all add: checked_eqs)
    then have "alloc_from A sz align t = Some (p, t3)"
      using start True t(1-3) by simp
    then show ?thesis
      using t(4,5) True r by (simp add: carved_def)
  next
    case False
    have "uadd A s = Some (A + s)"
      using bound by (simp add: checked_eqs)
    then have "alloc_from A sz align t = Some (p, mark_prev_free (A + s) False (mark_free A False t))"
      using start False by simp
    moreover have "heap_start (mark_prev_free (A + s) False (mark_free A False t)) = heap_start t"
      by (simp add: header_ops)
    ultimately show ?thesis
      using take_whole [OF sp hs adj idx, folded A_def] False by (simp add: carved_def)
  qed
qed

lemma block_map_all:
  assumes "big bs" "\<forall>b s. block_map True a bs b = Some s \<longrightarrow> P s"
  shows "\<forall>s. (s, True) \<in> set bs \<longrightarrow> P s"
proof (intro allI impI)
  fix s assume "(s, True) \<in> set bs"
  then obtain xs ys where "bs = xs @ (s, True) # ys"
    by (auto dest: split_list)
  then show "P s"
    using assms block_map_at [of xs s True ys a] by auto
qed

lemma pad_bound:
  assumes "is_power_of_two align" "8 \<le> align" "8 dvd a"
  shows "round_up a align - a + 8 \<le> align" "align = 8 \<Longrightarrow> round_up a align = a"
proof -
  obtain k where k: "align = 2 ^ k"
    using assms(1) is_power_of_two_iff by blast
  then have "2 ^ 3 \<le> (2 :: nat) ^ k"
    using assms(2) by simp
  then have "3 \<le> k"
    using power_le_imp_le_exp [of "2 :: nat" 3 k] by simp
  then have "8 dvd align"
    using le_imp_power_dvd [of 3 k "2 :: nat"] by (simp add: k)
  moreover note up = round_up_props [of align a]
  ultimately have "8 dvd round_up a align - a" "8 dvd align" "round_up a align - a < align"
    using assms up by (auto intro: dvd_diff_nat dvd_trans)
  then show "round_up a align - a + 8 \<le> align"
    by (auto elim!: dvdE)
  show "round_up a align = a" if "align = 8"
    using round_up_dvd [of 8 a] assms(3) that by simp
qed

text \<open>The size that \<^verbatim>\<open>malloc\<close> looks for.\<close>

definition request :: "nat \<Rightarrow> nat \<Rightarrow> nat" where
  "request sz align = consumed (max align 8 + sz)"

lemma headers_8dvd: "headers_ok t a st bs \<Longrightarrow> 8 dvd extent bs"
  by (induction t a st bs rule: headers_ok.induct) (auto simp: hdr_ok_def)

lemma malloc_start:
  assumes "is_power_of_two align" "align + sz < 2 ^ 58"
  shows "malloc sz align t = (case find_block (fst (class_of (request sz align))) (snd (class_of (request sz align))) (request sz align) t of
    None \<Rightarrow> None | Some (None, t) \<Rightarrow> Some (0, t) | Some (Some b, t) \<Rightarrow> alloc_from b sz (max align 8) t)"
proof -
  define al where "al = max align 8"
  have al: "al + sz < 2 ^ 59" "8 \<le> al"
    using assms(2) by (auto simp: al_def)
  have 1: "max align HEADER_SIZE = al" "uadd HEADER_SIZE (al - HEADER_SIZE) = Some al" "uadd al sz = Some (al + sz)"
    using al by (simp_all add: HEADER_SIZE_def al_def checked_eqs)
  have "request sz align < 2 ^ 59"
    using consumed_less [of "al + sz"] assms(2) by (simp add: request_def al_def)
  moreover have "align_up (al + sz) 8 = Some (round_up (al + sz) 8)"
    using align_up_eq [OF pow2_8, of "al + sz"] al by simp
  moreover have "max (round_up (al + sz) 8) MIN_BLOCK_SIZE = request sz align"
    by (simp add: request_def consumed_def al_def MIN_BLOCK_SIZE_def)
  moreover have "32 \<le> request sz align"
    using consumed_props by (simp add: request_def)
  moreover have "min (fst (class_of (request sz align))) (FL_COUNT - 1) = fst (class_of (request sz align))"
    using class_bounds(1) [of "request sz align"] \<open>32 \<le> request sz align\<close> by (simp add: FL_COUNT_def)
  ultimately show ?thesis
    using mapping_class [of "request sz align"] 1 unfolding malloc_def Let_def al_def [symmetric]
    by (auto simp: case_prod_beta split: option.splits)
qed

lemma pow2_max_8:
  assumes "is_power_of_two align"
  shows "is_power_of_two (max align 8)" "align dvd max align 8"
proof -
  show "is_power_of_two (max align 8)"
    using assms pow2_8 by (simp add: max_def)
  obtain k where k: "align = 2 ^ k"
    using assms is_power_of_two_iff by blast
  have "k \<le> 3" if "align \<le> 8"
    using power_le_imp_le_exp [of "2 :: nat" k 3] that by (simp add: k)
  then show "align dvd max align 8"
    using le_imp_power_dvd [of k 3 "2 :: nat"] by (cases "align \<le> 8") (simp_all add: k max_def)
qed

lemma malloc_takes:
  assumes ok: "tlsf_ok t (xs @ (s, True) # ys)" and al: "is_power_of_two align" "align + sz < 2 ^ 58"
    and fits: "request sz align \<le> s"
    and fr: "frame (node_cells (set (heads (heap_start t) (xs @ (s, True) # ys)))) t t1"
    and idx: "index_ok t1 (block_map True (heap_start t) (xs @ (s, False) # ys))"
  shows "\<exists>pad c t'. alloc_from (heap_start t + extent xs) sz (max align 8) t1 = Some (heap_start t + extent xs + 8 + pad, t') \<and>
    align dvd heap_start t + extent xs + 8 + pad \<and> (align \<le> 8 \<longrightarrow> pad = 0) \<and> 8 + pad + sz \<le> c \<and> c \<le> s \<and>
    tlsf_ok t' (carved xs s c ys) \<and> heap_start t' = heap_start t"
proof -
  let ?bs = "xs @ (s, True) # ys"
  have heap: "heap_start t1 = heap_start t" "heap_end t1 = heap_end t"
    using fr by (simp_all add: frame_def)
  have sp: "span t ?bs" and hs: "headers_ok t (heap_start t) (False, 0) (?bs @ [sentinel])" and adj: "no_adjacent_free ?bs"
    using ok by (auto simp: tlsf_ok_def)
  have big: "big ?bs" and sp1: "span t1 ?bs"
    using sp heap by (simp_all add: span_def)
  have hs1: "headers_ok t1 (heap_start t1) (False, 0) (xs @ (s, True) # ys @ [sentinel])"
    using headers_node_frame [OF big fr order_refl] hs heap by simp
  define A where "A = heap_start t + extent xs"
  define p where "p = round_up (A + 8) (max align 8)"
  define pad where "pad = p - (A + 8)"
  have "8 dvd A + 8"
    using headers_8dvd [of t "heap_start t" "(False, 0)" xs] sp hs by (simp add: span_def A_def)
  note pb = pad_bound [OF pow2_max_8(1) [OF al(1)] _ this, folded p_def]
  have p: "p = A + 8 + pad" "max align 8 dvd p" "8 + pad \<le> max align 8" "align \<le> 8 \<longrightarrow> pad = 0"
    using round_up_props [of "max align 8" "A + 8", folded p_def] pb by (auto simp: pad_def max_def)
  then have "consumed (8 + pad + sz) \<le> request sz align"
    unfolding request_def by (intro consumed_mono) simp
  then have c: "consumed (8 + pad + sz) \<le> s"
    using fits by simp
  have "max align 8 + sz < 2 ^ 58"
    using al(2) fits consumed_props(3) [of "max align 8 + sz"] sp by (auto simp: request_def span_def)
  from alloc_from_ok [OF sp1 hs1 adj idx [folded heap(1)] pow2_max_8(1) [OF al(1)] this, unfolded heap, folded A_def, folded p_def, folded pad_def, OF c]
  obtain t' where "alloc_from A sz (max align 8) t1 = Some (p, t')" "tlsf_ok t' (carved xs s (consumed (8 + pad + sz)) ys)"
    "heap_start t' = heap_start t"
    by blast
  moreover have "align dvd p"
    using pow2_max_8(2) [OF al(1)] p(2) dvd_trans by blast
  ultimately show ?thesis
    using p c consumed_props(3) [of "8 + pad + sz"] unfolding A_def [symmetric] by metis
qed

lemma malloc_ok:
  assumes ok: "tlsf_ok t bs" and al: "is_power_of_two align" "align + sz < 2 ^ 58"
  shows "(\<exists>xs s ys pad c t'. bs = xs @ (s, True) # ys \<and> malloc sz align t = Some (heap_start t + extent xs + 8 + pad, t') \<and>
      align dvd heap_start t + extent xs + 8 + pad \<and> (align \<le> 8 \<longrightarrow> pad = 0) \<and> 8 + pad + sz \<le> c \<and> c \<le> s \<and>
      tlsf_ok t' (carved xs s c ys) \<and> heap_start t' = heap_start t) \<or>
    malloc sz align t = Some (0, t) \<and>
      (request sz align < 2 ^ 24 \<longrightarrow> (\<forall>s. (s, True) \<in> set bs \<longrightarrow> \<not> higher_class s (request sz align))) \<and>
      (\<forall>s. bs = [(s, True)] \<longrightarrow> class_of s = class_of (request sz align) \<longrightarrow> s < request sz align)"
proof -
  let ?F = "block_map True (heap_start t) bs"
  have sp: "span t bs" and hs: "headers_ok t (heap_start t) (False, 0) (bs @ [sentinel])"
    and adj: "no_adjacent_free bs" and idx: "index_ok t ?F"
    using ok by (auto simp: tlsf_ok_def)
  have big: "big bs"
    using sp by (simp add: span_def)
  have sizes: "sizes_ok t ?F"
    using headers_sizes [OF big] hs unfolding headers_ok_append by blast
  have n: "32 \<le> request sz align"
    using consumed_props by (simp add: request_def)
  from find_block_ok [OF idx span_spaced [OF sp] sizes n] obtain r t1 where
    f: "find_block (fst (class_of (request sz align))) (snd (class_of (request sz align))) (request sz align) t = Some (r, t1)"
    "find_result (request sz align) ?F t r t1"
    by blast
  show ?thesis
  proof (cases r)
    case None
    then have "malloc sz align t = Some (0, t)"
      using f malloc_start [OF al] by (simp add: find_result_def)
    moreover have "request sz align < 2 ^ 24 \<longrightarrow> (\<forall>s. (s, True) \<in> set bs \<longrightarrow> \<not> higher_class s (request sz align))"
      using block_map_all [OF big, of "heap_start t" "\<lambda>s. \<not> higher_class s (request sz align)"] f(2) None
      by (simp add: find_result_def)
    moreover have "\<forall>s. bs = [(s, True)] \<longrightarrow> class_of s = class_of (request sz align) \<longrightarrow> s < request sz align"
      using f(2) None by (simp add: find_result_def)
    ultimately show ?thesis
      by blast
  next
    case (Some b)
    then obtain s where s: "?F b = Some s" "request sz align \<le> s" and t1: "index_ok t1 (?F(b := None))" "frame (node_cells (dom ?F)) t t1"
      using f(2) by (auto simp: find_result_def taken_def)
    obtain xs ys where xs: "bs = xs @ (s, True) # ys" "b = heap_start t + extent xs"
      using block_map_split [OF big s(1)] by blast
    have fr: "frame (node_cells (set (heads (heap_start t) bs))) t t1"
      using t1(2) by (rule frame_mono) (rule node_cells_mono [OF dom_block_map])
    have idx1: "index_ok t1 (block_map True (heap_start t) (xs @ (s, False) # ys))"
      using t1(1) block_map_release(1) [of xs s True ys True "heap_start t"] big by (simp add: xs del: block_map_append)
    from malloc_takes [OF ok [unfolded xs(1)] al s(2) fr [unfolded xs(1)] idx1] obtain pad c t' where
      m: "alloc_from (heap_start t + extent xs) sz (max align 8) t1 = Some (heap_start t + extent xs + 8 + pad, t')"
      "align dvd heap_start t + extent xs + 8 + pad" "align \<le> 8 \<longrightarrow> pad = 0" "8 + pad + sz \<le> c" "c \<le> s"
      "tlsf_ok t' (carved xs s c ys)" "heap_start t' = heap_start t"
      by blast
    moreover have "malloc sz align t = alloc_from (heap_start t + extent xs) sz (max align 8) t1"
      using f(1) Some xs(2) malloc_start [OF al] by simp
    ultimately show ?thesis
      using xs(1) by (intro disjI1 exI [of _ xs] exI [of _ s] exI [of _ ys] exI [of _ pad] exI [of _ c] exI [of _ t']) simp
  qed
qed


text \<open>A heap that is one free block serves every request that fits into it.\<close>

lemma malloc_single:
  assumes ok: "tlsf_ok t [(s, True)]" and al: "is_power_of_two align" "align + sz < 2 ^ 58"
    and fits: "request sz align \<le> s" "s < 2 ^ 24"
  shows "\<exists>p t'. malloc sz align t = Some (p, t') \<and> p \<noteq> 0"
proof -
  have n: "32 \<le> request sz align"
    using consumed_props by (simp add: request_def)
  have "\<not> fst (class_of s) < fst (class_of (request sz align))"
    "fst (class_of s) = fst (class_of (request sz align)) \<Longrightarrow> \<not> snd (class_of s) < snd (class_of (request sz align))"
    using class_fl_less [of s "request sz align"] class_sl_less [of s "request sz align"] n fits by auto
  then have "higher_class s (request sz align)" if "class_of s \<noteq> class_of (request sz align)"
    using that unfolding higher_class_def prod_eq_iff by (metis linorder_neqE_nat)
  then have "malloc sz align t \<noteq> Some (0, t) \<or> \<not> (request sz align < 2 ^ 24 \<longrightarrow> (\<forall>s'. (s', True) \<in> set [(s, True)] \<longrightarrow>
      \<not> higher_class s' (request sz align))) \<or>
    \<not> (\<forall>s'. [(s, True)] = [(s', True)] \<longrightarrow> class_of s' = class_of (request sz align) \<longrightarrow> s' < request sz align)"
    using fits by auto
  with malloc_ok [OF ok al] show ?thesis
    by auto
qed

subsection \<open>Initialisation\<close>

lemma index_empty: "index_ok (tlsf_new m) Map.empty"
  unfolding index_ok_def
  by (intro exI [of _ "\<lambda>_ _. []"]) (simp add: lists_ok_def bitmaps_ok_def tlsf_new_def)

lemma tlsf_init_ok:
  assumes "0 < start" "8 dvd start" "8 dvd sz" "32 \<le> sz" "sz < 2 ^ 32" "start + sz < 9223372036854775808"
  shows "\<exists>t. tlsf_init start sz (tlsf_new m) = Some t \<and> tlsf_ok t [(sz, True)] \<and> heap_start t = start"
proof -
  define e where "e = start + sz"
  define t0 where "t0 = (tlsf_new m)\<lparr>heap_start := start, heap_end := e\<rparr>"
  define t1 where "t1 = put_header start 0 (enc sz True False) t0"
  define t2 where "t2 = put_header e (of_nat sz) (enc 0 False True) t1"
  have "uadd start sz = Some e"
    using assms by (simp add: checked_eqs e_def)
  moreover have "set_block start sz True False (set_prev_phys_size start 0 t0) = Some t1"
    "set_block e 0 False True (set_prev_phys_size e (of_nat sz) t1) = Some t2"
    using set_block_eq assms(5) by (simp_all add: t1_def t2_def set_prev_phys_size_def put_header_twice)
  ultimately have init: "tlsf_init start sz (tlsf_new m) = insert_block start sz t2"
    by (simp add: tlsf_init_def t0_def Let_def)
  have f: "heap_start t2 = start" "heap_end t2 = e"
    by (simp_all add: t2_def t1_def t0_def)
  have "index_ok t2 Map.empty"
    using index_empty [of m] by (rule index_ok_cong) (simp_all add: t2_def t1_def t0_def tlsf_new_def node_cells_def)
  moreover have "span t2 ([] @ (sz, True) # [])"
    using assms by (simp add: span_def f e_def)
  moreover have "hdr_ok t2 e 0 False True sz" "hdr_ok t2 start sz True False 0"
    using hdr_ok_put [of 0 True "of_nat sz" sz e False t1] hdr_ok_put [of sz False 0 0 start True t0] assms
      hdr_ok_cong [OF put_header_mem, of start e]
    by (simp_all add: t2_def t1_def e_def)
  then have "headers_ok t2 (heap_start t2) (False, 0) ([] @ (sz, True) # [] @ [sentinel])"
    by (simp add: f e_def)
  ultimately show ?thesis
    using insert_settled [of t2 "[]" sz "[]"] init f by (auto simp: no_adjacent_free_Cons)
qed

end
