(* ===== verification/Trace.thy ===== *)
theory Trace
  imports Prelude
begin

text \<open>
  \<^verbatim>\<open>kernel/src/trace.rs\<close>: the ring buffer of trace events.  \<^verbatim>\<open>write_idx\<close>
  and \<^verbatim>\<open>overflow_count\<close> are 64-bit atomics and wrap.  The time stamp counter
  (\<^verbatim>\<open>read_tsc\<close>) is an argument of \<^verbatim>\<open>record\<close>; both functions run with
  interrupts disabled, so each is one step.  \<^verbatim>\<open>dump_last\<close> returns what it logs.
\<close>

definition BUFFER_SIZE :: nat where "BUFFER_SIZE = 4096"

datatype trace_event_id = EvAlloc | EvFree | TaskSpawn | TaskComplete | EvInterrupt | EvPageFault

text \<open>The discriminants, \<^verbatim>\<open>id as u16\<close>.\<close>

fun event_code :: "trace_event_id \<Rightarrow> u16" where
  "event_code EvAlloc = 1"
| "event_code EvFree = 2"
| "event_code TaskSpawn = 10"
| "event_code TaskComplete = 11"
| "event_code EvInterrupt = 20"
| "event_code EvPageFault = 30"

record trace_entry =
  timestamp :: u64
  event_id :: u16
  arg0 :: u64
  arg1 :: u64

record trace_buffer =
  entries :: "trace_entry list"
  write_idx :: u64
  overflow_count :: u64
  initialized :: u64

definition TRACE :: trace_buffer where
  "TRACE = \<lparr>entries = replicate BUFFER_SIZE \<lparr>timestamp = 0, event_id = 0, arg0 = 0, arg1 = 0\<rparr>,
            write_idx = 0, overflow_count = 0, initialized = 0\<rparr>"

definition trace_init :: "trace_buffer \<Rightarrow> trace_buffer" where
  "trace_init t = t\<lparr>initialized := 1\<rparr>"

definition is_init :: "trace_buffer \<Rightarrow> bool" where
  "is_init t \<longleftrightarrow> initialized t \<noteq> 0"

definition trace_record :: "u64 \<Rightarrow> trace_event_id \<Rightarrow> u64 \<Rightarrow> u64 \<Rightarrow> trace_buffer \<Rightarrow> trace_buffer" where
  "trace_record tsc ev a0 a1 t =
     (if \<not> is_init t then t
      else
        (let idx = unat (write_idx t) mod BUFFER_SIZE;
             t = t\<lparr>write_idx := write_idx t + 1\<rparr>;
             t = (if idx = 0 then t\<lparr>overflow_count := overflow_count t + 1\<rparr> else t)
         in t\<lparr>entries := (entries t)[idx := \<lparr>timestamp = tsc, event_id = event_code ev, arg0 = a0, arg1 = a1\<rparr>]\<rparr>))"

definition event_name :: "u16 \<Rightarrow> string" where
  "event_name code =
     (if code = 1 then ''ALLOC''
      else if code = 2 then ''FREE''
      else if code = 10 then ''TASK_SPAWN''
      else if code = 11 then ''TASK_COMPLETE''
      else if code = 20 then ''IRQ''
      else if code = 30 then ''PAGE_FAULT''
      else ''UNKNOWN'')"

text \<open>A logged line: the time stamp, the name and the two arguments.\<close>

type_synonym trace_line = "u64 \<times> string \<times> u64 \<times> u64"

definition entry_line :: "trace_entry \<Rightarrow> trace_line" where
  "entry_line e = (timestamp e, event_name (event_id e), arg0 e, arg1 e)"

definition dump_last :: "nat \<Rightarrow> trace_buffer \<Rightarrow> (nat \<times> u64 \<times> nat) \<times> trace_line list" where
  "dump_last n t =
     (let written = unat (write_idx t);
          start = written - n
      in ((written, overflow_count t, n),
          map (\<lambda>i. entry_line (entries t ! (i mod BUFFER_SIZE))) [start..<written]))"

subsection \<open>Correctness\<close>

text \<open>An event as its caller sees it, and the buffer after a sequence of events.\<close>

type_synonym trace_event = "u64 \<times> trace_event_id \<times> u64 \<times> u64"

fun record_event :: "trace_event \<Rightarrow> trace_buffer \<Rightarrow> trace_buffer" where
  "record_event (tsc, ev, a0, a1) t = trace_record tsc ev a0 a1 t"

fun event_entry :: "trace_event \<Rightarrow> trace_entry" where
  "event_entry (tsc, ev, a0, a1) = \<lparr>timestamp = tsc, event_id = event_code ev, arg0 = a0, arg1 = a1\<rparr>"

definition record_all :: "trace_event list \<Rightarrow> trace_buffer" where
  "record_all evs = fold record_event evs (trace_init TRACE)"

lemma record_all_Nil [simp]: "record_all [] = trace_init TRACE"
  by (simp add: record_all_def)

lemma record_all_snoc [simp]: "record_all (evs @ [e]) = record_event e (record_all evs)"
  by (simp add: record_all_def)

text \<open>The buffer holds the most recent events at their position modulo its size.\<close>

definition holds_recent :: "trace_event list \<Rightarrow> trace_buffer \<Rightarrow> bool" where
  "holds_recent evs t \<longleftrightarrow>
     initialized t \<noteq> 0 \<and> length (entries t) = BUFFER_SIZE \<and> write_idx t = of_nat (length evs) \<and>
     (\<forall>i < length evs. length evs \<le> i + BUFFER_SIZE \<longrightarrow>
        entries t ! (i mod BUFFER_SIZE) = event_entry (evs ! i))"

lemma mod_near:
  assumes "i < n" "n < i + m"
  shows "i mod m \<noteq> n mod (m :: nat)"
proof
  assume "i mod m = n mod m"
  moreover have "n - i < m" "0 < m"
    using assms by linarith+
  ultimately have "n - i = 0"
    using mod_window_inj [where a = i and i = "n - i" and j = 0 and m = m] assms(1) by simp
  with assms(1) show False by simp
qed

lemma unat_mod_buffer: "unat (of_nat k :: u64) mod BUFFER_SIZE = k mod BUFFER_SIZE"
proof -
  have "(4096 :: nat) dvd 2 ^ 64"
    by simp
  then show ?thesis
    by (simp add: unsigned_of_nat take_bit_eq_mod mod_mod_cancel BUFFER_SIZE_def)
qed

lemma record_all_recent: "holds_recent evs (record_all evs)"
proof (induction evs rule: rev_induct)
  case Nil
  show ?case
    by (simp add: holds_recent_def trace_init_def TRACE_def)
next
  case (snoc e evs)
  obtain tsc ev a0 a1 where e: "e = (tsc, ev, a0, a1)"
    by (cases e)
  let ?t = "record_all evs" and ?n = "length evs"
  have IH: "is_init ?t" "length (entries ?t) = BUFFER_SIZE" "write_idx ?t = of_nat ?n"
      "\<And>i. i < ?n \<Longrightarrow> ?n \<le> i + BUFFER_SIZE \<Longrightarrow> entries ?t ! (i mod BUFFER_SIZE) = event_entry (evs ! i)"
    using snoc.IH by (auto simp: holds_recent_def is_init_def)
  have idx: "?n mod BUFFER_SIZE < BUFFER_SIZE"
    by (simp add: BUFFER_SIZE_def)
  have new: "entries (record_event e ?t) = (entries ?t)[?n mod BUFFER_SIZE := event_entry e]"
    using IH(1,3) by (simp add: e trace_record_def Let_def unat_mod_buffer)
  have "entries (record_event e ?t) ! (i mod BUFFER_SIZE) = event_entry ((evs @ [e]) ! i)"
    if "i < Suc ?n" "Suc ?n \<le> i + BUFFER_SIZE" for i
    using that IH idx mod_near [of i ?n BUFFER_SIZE] unfolding new
    by (cases "i = ?n") (auto simp: nth_append)
  moreover have "initialized (record_event e ?t) \<noteq> 0" "write_idx (record_event e ?t) = of_nat (Suc ?n)"
    using IH(1,3) by (simp_all add: e trace_record_def Let_def is_init_def)
  ultimately show ?case
    using IH(2) new by (simp add: holds_recent_def)
qed

lemma record_all_overflow:
  "overflow_count (record_all evs) = of_nat ((length evs + (BUFFER_SIZE - 1)) div BUFFER_SIZE)"
proof (induction evs rule: rev_induct)
  case Nil
  show ?case
    by (simp add: trace_init_def TRACE_def BUFFER_SIZE_def)
next
  case (snoc e evs)
  let ?t = "record_all evs" and ?n = "length evs"
  have t: "is_init ?t" "write_idx ?t = of_nat ?n"
    using record_all_recent [of evs] by (auto simp: holds_recent_def is_init_def)
  have "(Suc ?n + 4095) div 4096 = (if ?n mod 4096 = 0 then Suc ((?n + 4095) div 4096) else (?n + 4095) div 4096)"
    using div_Suc [of "?n + 4095" 4096] by simp
  then show ?case
    using snoc.IH t
      unat_mod_buffer [of ?n, unfolded BUFFER_SIZE_def]
    by (cases e) (simp add: trace_record_def Let_def BUFFER_SIZE_def add.commute)
qed

text \<open>
  C29 (Trace buffer).  After any sequence of recorded events, a dump of up to 4096 events shows exactly
  the last ones, in the order they were recorded and under the names of their kinds; the header
  line gives the number of events and the number of times the writer entered slot 0.
\<close>

theorem trace_dump_last:
  assumes "length evs < 2 ^ 64" "n \<le> BUFFER_SIZE"
  shows "dump_last n (record_all evs) =
    ((length evs, of_nat ((length evs + (BUFFER_SIZE - 1)) div BUFFER_SIZE), n),
     map (entry_line \<circ> event_entry) (drop (length evs - n) evs))"
proof -
  let ?t = "record_all evs" and ?l = "length evs"
  have t: "write_idx ?t = of_nat ?l"
    and recent: "\<And>i. i < ?l \<Longrightarrow> ?l \<le> i + BUFFER_SIZE \<Longrightarrow> entries ?t ! (i mod BUFFER_SIZE) = event_entry (evs ! i)"
    using record_all_recent [of evs] by (auto simp: holds_recent_def)
  have "unat (write_idx ?t) = ?l"
    using assms(1) by (simp add: t unsigned_of_nat take_bit_nat_eq_self)
  moreover have "map (\<lambda>i. entry_line (entries ?t ! (i mod BUFFER_SIZE))) [?l - n..<?l] =
      map (entry_line \<circ> event_entry) (drop (?l - n) evs)"
    using recent assms(2) by (intro nth_equalityI) auto
  ultimately show ?thesis
    by (simp add: dump_last_def Let_def record_all_overflow)
qed

theorem trace_dump_last_witness:
  "dump_last 2 (record_all [(5, TaskSpawn, 0, 0), (6, EvAlloc, 64, 4096), (9, EvFree, 64, 4096)]) =
     ((3, 1, 2), [(6, ''ALLOC'', 64, 4096), (9, ''FREE'', 64, 4096)])"
  using trace_dump_last [of "[(5, TaskSpawn, 0, 0), (6, EvAlloc, 64, 4096), (9, EvFree, 64, 4096)]" 2]
  by (simp add: BUFFER_SIZE_def entry_line_def event_name_def)

text \<open>A single event is already counted as an overflow.\<close>

lemma trace_first_event_overflows: "overflow_count (record_all [e]) = 1"
  by (simp add: record_all_overflow BUFFER_SIZE_def)

text \<open>
  A longer dump repeats entries that were overwritten: with more than 4096 events the line shown for
  the event \<open>length evs - 4097\<close> is the one of the last event.
\<close>

lemma trace_long_dump_repeats:
  assumes "4096 < length evs" "length evs < 2 ^ 64"
  shows "snd (dump_last 4097 (record_all evs)) ! 0 = entry_line (event_entry (last evs))"
proof -
  let ?t = "record_all evs" and ?l = "length evs"
  have t: "write_idx ?t = of_nat ?l"
    "entries ?t ! ((?l - 1) mod BUFFER_SIZE) = event_entry (evs ! (?l - 1))"
    using record_all_recent [of evs] assms(1) by (auto simp: holds_recent_def BUFFER_SIZE_def)
  have "(?l - 4097) mod 4096 = (?l - 1) mod 4096"
    using mod_add_self2 [of "?l - 4097" 4096] assms(1) by simp
  moreover have "unat (write_idx ?t) = ?l"
    using assms(2) by (simp add: t unsigned_of_nat take_bit_nat_eq_self)
  moreover have "last evs = evs ! (?l - 1)"
    using assms(1) by (intro last_conv_nth) auto
  ultimately show ?thesis
    using assms(1) t(2) by (simp add: dump_last_def Let_def BUFFER_SIZE_def)
qed

end
