(* ===== verification/Kernel_Heap.thy ===== *)
theory Kernel_Heap
  imports Tlsf_Ops Monitor Trace
begin

text \<open>
  \<^verbatim>\<open>kernel/src/allocator.rs\<close>: the global allocator of the kernel, the TLSF heap together
  with the metrics and the trace it feeds, and the set-up of its pages.  The time stamps of the trace
  and the spurious failures of the compare-and-swap loop in the metrics are arbitrary functions of
  the state.
\<close>

subsection \<open>The global allocator\<close>

definition HEAP_START :: nat where "HEAP_START = 0x444444440000"
definition HEAP_SIZE :: nat where "HEAP_SIZE = 1048576"

record kernel_heap =
  allocator :: tlsf
  metrics :: monitor_data
  trace :: trace_buffer

definition heap_alloc ::
    "(kernel_heap \<Rightarrow> u64) \<Rightarrow> (kernel_heap \<Rightarrow> bool list) \<Rightarrow> layout \<Rightarrow> kernel_heap \<Rightarrow> (nat \<times> kernel_heap) option" where
  "heap_alloc tsc spurious l h =
     do { (p, t) \<leftarrow> malloc (lsize l) (lalign l) (allocator h);
          let h = h\<lparr>allocator := t\<rparr>;
          if p \<noteq> 0 then
            do { m \<leftarrow> inc_alloc (spurious h) (of_nat (lsize l)) (metrics h);
                 Some (p, h\<lparr>metrics := m, trace := trace_record (tsc h) EvAlloc (of_nat (lsize l)) (of_nat p) (trace h)\<rparr>) }
          else Some (p, h) }"

definition heap_dealloc :: "(kernel_heap \<Rightarrow> u64) \<Rightarrow> nat \<Rightarrow> layout \<Rightarrow> kernel_heap \<Rightarrow> kernel_heap option" where
  "heap_dealloc tsc p l h =
     do { t \<leftarrow> free p (allocator h);
          let h = h\<lparr>allocator := t\<rparr>;
          let h = h\<lparr>metrics := inc_free (of_nat (lsize l)) (metrics h)\<rparr>;
          Some (h\<lparr>trace := trace_record (tsc h) EvFree (of_nat (lsize l)) (of_nat p) (trace h)\<rparr>) }"

text \<open>\<^verbatim>\<open>Dummy\<close>: the allocator that has no memory.\<close>

definition dummy_alloc :: "layout \<Rightarrow> nat" where
  "dummy_alloc l = 0"

definition dummy_dealloc :: "nat \<Rightarrow> layout \<Rightarrow> unit option" where
  "dummy_dealloc p l = None"

text \<open>A caller's write of the cell that holds the byte at \<open>a\<close>.\<close>

definition heap_store :: "nat \<Rightarrow> u64 \<Rightarrow> kernel_heap \<Rightarrow> kernel_heap" where
  "heap_store a v h = h\<lparr>allocator := (allocator h)\<lparr>mem := (mem (allocator h))(a div 8 * 8 := v)\<rparr>\<rparr>"

subsection \<open>Mapping the heap\<close>

text \<open>
  The page tables and the frame allocator belong to the \<^verbatim>\<open>x86_64\<close> crate's interfaces
  \<^verbatim>\<open>Mapper\<close> and \<^verbatim>\<open>FrameAllocator\<close>; \<open>'m\<close> is their joint state.  Pages are
  numbered.
\<close>

datatype map_to_error = FrameAllocationFailed | ParentEntryHugePage | PageAlreadyMapped nat

record 'm paging =
  frame_source :: "'m \<Rightarrow> (nat option \<times> 'm) option"
  map_to :: "nat \<Rightarrow> nat \<Rightarrow> 'm \<Rightarrow> ((map_to_error + unit) \<times> 'm) option"

fun map_pages :: "'m paging \<Rightarrow> nat list \<Rightarrow> 'm \<Rightarrow> ((map_to_error + unit) \<times> 'm) option" where
  "map_pages pg [] m = Some (Inr (), m)"
| "map_pages pg (page # pages) m =
     do { (f, m) \<leftarrow> frame_source pg m;
          case f of
            None \<Rightarrow> Some (Inl FrameAllocationFailed, m)
          | Some frm \<Rightarrow>
              do { (r, m) \<leftarrow> map_to pg page frm m;
                   case r of Inl e \<Rightarrow> Some (Inl e, m) | Inr _ \<Rightarrow> map_pages pg pages m } }"

definition containing_page :: "nat \<Rightarrow> nat" where
  "containing_page a = a div 4096"

definition init_heap :: "'m paging \<Rightarrow> 'm \<times> kernel_heap \<Rightarrow> ((map_to_error + unit) \<times> 'm \<times> kernel_heap) option" where
  "init_heap pg mh =
     (let (m, h) = mh;
          heap_start_page = containing_page HEAP_START;
          heap_end_page = containing_page (HEAP_START + HEAP_SIZE)
      in do { (r, m) \<leftarrow> map_pages pg [heap_start_page..<heap_end_page + 1] m;
              case r of
                Inl e \<Rightarrow> Some (Inl e, m, h)
              | Inr _ \<Rightarrow>
                  do { t \<leftarrow> tlsf_init HEAP_START HEAP_SIZE (allocator h);
                       Some (Inr (), m, h\<lparr>allocator := t\<rparr>) } })"

subsection \<open>Used blocks\<close>

lemma block_map_carved:
  assumes "big (xs @ (s, True) # ys)" "c \<le> s"
  shows "\<exists>s'. c \<le> s' \<and> block_map False a (carved xs s c ys) = (block_map False a (xs @ (s, True) # ys))(a + extent xs \<mapsto> s')"
proof (cases "c + 32 \<le> s")
  case True
  have "block_map False (a + extent xs + s) ys (a + extent xs) = None"
    using assms block_map_outside [of ys] by simp
  then show ?thesis
    using True by (intro exI [of _ c]) (auto simp: carved_def map_add_def fun_eq_iff add.assoc split: option.splits)
next
  case False
  then show ?thesis
    using assms block_map_release(2) [of xs s False ys False a] by (intro exI [of _ s]) (simp add: carved_def)
qed

lemma block_map_coalesced:
  assumes "big (xs @ (s, False) # ys)"
  shows "block_map False a (coalesced xs s ys) = (block_map False a (xs @ (s, False) # ys))(a + extent xs := None)"
proof -
  have rel: "(block_map False a (xs @ (s, False) # ys))(a + extent xs := None) =
      block_map False a xs ++ block_map False (a + extent xs + s) ys"
    using block_map_release(1) [of xs s False ys False a] assms by simp
  show ?thesis
    unfolding rel
    by (cases xs rule: rev_cases; cases ys) (auto simp: coalesced_def ac_simps split: prod.splits)
qed

lemma block_map_disjoint:
  assumes "big bs" "block_map g a bs b = Some s" "block_map g' a bs b' = Some s'" "b \<noteq> b'"
  shows "b + s \<le> b' \<or> b' + s' \<le> b"
proof -
  obtain xs ys where bs: "bs = xs @ (s, g) # ys" "b = a + extent xs"
    using block_map_split [OF assms(1,2)] by blast
  have big: "big xs" "big ys"
    using assms(1) by (auto simp: bs)
  show ?thesis
  proof (cases "block_map g' (b + s) ys b'")
    case None
    then have "block_map g' a xs b' = Some s'"
      using assms(3,4) by (auto simp: bs split: if_splits)
    from block_map_split [OF big(1) this] show ?thesis
      by (auto simp: bs)
  next
    case (Some s'')
    then show ?thesis
      using dom_block_map_bounds [OF big(2), of b' g' "b + s"] by auto
  qed
qed

lemma block_map_end: "big bs \<Longrightarrow> block_map g a bs b = Some s \<Longrightarrow> a \<le> b \<and> b + s \<le> a + extent bs"
  using block_map_split [of bs g a b s] by auto

lemma finite_block_map: "finite (dom (block_map g a bs))"
  by (rule finite_subset [OF dom_block_map]) simp

lemma sum_block_map: "big bs \<Longrightarrow> (\<Sum>b \<in> dom (block_map g a bs). the (block_map g a bs b)) \<le> extent bs"
proof (induction g a bs rule: block_map.induct)
  case (2 g a s f bs)
  let ?m = "block_map g (a + s) bs"
  have out: "?m a = None"
    using 2(2) block_map_outside [of bs a "a + s" g] by simp
  show ?case
  proof (cases "f = g")
    case True
    have "dom (block_map g a ((s, f) # bs)) = insert a (dom ?m)"
      using True by auto
    moreover have "the (block_map g a ((s, f) # bs) b) = (if b = a then s else the (?m b))" if "b \<in> insert a (dom ?m)" for b
      using that True out by (auto simp: map_add_def)
    ultimately have "(\<Sum>b \<in> dom (block_map g a ((s, f) # bs)). the (block_map g a ((s, f) # bs) b)) =
        (\<Sum>b \<in> insert a (dom ?m). if b = a then s else the (?m b))"
      by (intro sum.cong) (simp_all del: block_map.simps)
    also have "\<dots> = s + (\<Sum>b \<in> dom ?m. the (?m b))"
      using out finite_block_map by (subst sum.insert) (auto simp: domIff intro!: sum.cong)
    finally show ?thesis
      using 2 by simp
  qed (use 2 in simp)
qed simp

subsection \<open>The invariant\<close>

text \<open>
  Every live pointer is the payload of a used block, and every used block has one.  The pointers are
  those of requests aligned to at most 8 bytes: for these \<^verbatim>\<open>malloc\<close> puts the payload right
  behind the header, which is where \<^verbatim>\<open>free\<close> looks for it.
\<close>

definition heap_layout :: "layout \<Rightarrow> bool" where
  "heap_layout l \<longleftrightarrow> sized_layout l \<and> lalign l \<le> 8 \<and> lsize l < 2 ^ 57"

definition live_blocks :: "(nat \<rightharpoonup> nat) \<Rightarrow> (nat \<times> layout) set \<Rightarrow> bool" where
  "live_blocks used live \<longleftrightarrow>
     inj_on fst live \<and> fst ` live = (\<lambda>b. b + 8) ` dom used \<and>
     (\<forall>p \<in> live. heap_layout (snd p) \<and> lsize (snd p) + 8 \<le> the (used (fst p - 8)))"

definition heap_inv :: "nat \<Rightarrow> nat \<Rightarrow> kernel_heap \<Rightarrow> (nat \<times> layout) set \<Rightarrow> bool" where
  "heap_inv lo hi h live \<longleftrightarrow>
     (\<exists>bs. tlsf_ok (allocator h) bs \<and> heap_start (allocator h) = lo \<and> heap_end (allocator h) = hi \<and>
        live_blocks (block_map False lo bs) live) \<and>
     unat (current_allocated (metrics h)) = (\<Sum>p \<in> live. lsize (snd p))"

lemma live_blocksD:
  assumes "live_blocks used live" "(p, l) \<in> live"
  shows "\<exists>b s. p = b + 8 \<and> used b = Some s \<and> lsize l + 8 \<le> s \<and> heap_layout l"
proof -
  have "p \<in> (\<lambda>b. b + 8) ` dom used"
    using assms unfolding live_blocks_def by force
  then obtain b s where "p = b + 8" "used b = Some s"
    by auto
  then show ?thesis
    using assms by (fastforce simp: live_blocks_def)
qed

lemma live_blocks_insert:
  assumes "live_blocks used live" "b \<notin> dom used" "heap_layout l" "lsize l + 8 \<le> s"
  shows "live_blocks (used(b \<mapsto> s)) (insert (b + 8, l) live)" "(b + 8, l) \<notin> live"
proof -
  have new: "b + 8 \<notin> fst ` live"
    using assms(1,2) by (auto simp: live_blocks_def)
  then show "(b + 8, l) \<notin> live"
    by force
  have "fst p - 8 \<noteq> b" if "p \<in> live" for p
  proof -
    have "fst p \<in> fst ` live"
      using that by blast
    then have "fst p \<in> (\<lambda>b. b + 8) ` dom used"
      using assms(1) unfolding live_blocks_def by blast
    then show ?thesis
      using assms(2) by auto
  qed
  then show "live_blocks (used(b \<mapsto> s)) (insert (b + 8, l) live)"
    using assms new unfolding live_blocks_def
    by (simp add: insert_Diff_if image_iff) (use new in force)
qed

lemma live_blocks_delete:
  assumes "live_blocks used live" "(b + 8, l) \<in> live"
  shows "live_blocks (used(b := None)) (live - {(b + 8, l)})"
proof -
  have inj: "inj_on fst live"
    using assms(1) by (simp add: live_blocks_def)
  have other: "fst p \<noteq> b + 8" if "p \<in> live - {(b + 8, l)}" for p
    using inj_onD [OF inj, of p "(b + 8, l)"] assms(2) that by auto
  have "fst ` (live - {(b + 8, l)}) = fst ` live - {b + 8}"
    using other assms(2) by force
  also have "\<dots> = (\<lambda>b. b + 8) ` dom (used(b := None))"
    using assms(1) by (auto simp: live_blocks_def)
  finally have img: "fst ` (live - {(b + 8, l)}) = (\<lambda>b. b + 8) ` dom (used(b := None))" .
  have "fst p - 8 \<noteq> b" if "p \<in> live - {(b + 8, l)}" for p
  proof -
    have "fst p \<in> (\<lambda>b. b + 8) ` dom (used(b := None))"
      using that img by blast
    then show ?thesis
      by auto
  qed
  moreover have "\<forall>p \<in> live. heap_layout (snd p) \<and> lsize (snd p) + 8 \<le> the (used (fst p - 8))"
    using assms(1) by (simp add: live_blocks_def)
  ultimately show ?thesis
    unfolding live_blocks_def using inj img by (simp add: inj_on_diff)
qed

lemma live_blocks_sum:
  assumes "live_blocks (block_map False a bs) live" "big bs"
  shows "finite live" "(\<Sum>p \<in> live. lsize (snd p)) \<le> extent bs"
proof -
  let ?m = "block_map False a bs"
  have inj: "inj_on fst live" and img: "fst ` live = (\<lambda>b. b + 8) ` dom ?m"
    and le: "p \<in> live \<Longrightarrow> lsize (snd p) \<le> the (?m (fst p - 8))" for p
    using assms(1) by (auto simp: live_blocks_def)
  show "finite live"
    using inj img finite_block_map by (metis finite_imageI finite_imageD)
  have "(\<Sum>p \<in> live. lsize (snd p)) \<le> (\<Sum>p \<in> live. the (?m (fst p - 8)))"
    using le by (rule sum_mono)
  also have "\<dots> = (\<Sum>q \<in> fst ` live. the (?m (q - 8)))"
    using sum.reindex [OF inj, of "\<lambda>q. the (?m (q - 8))"] by simp
  also have "\<dots> = (\<Sum>b \<in> dom ?m. the (?m b))"
    unfolding img by (subst sum.reindex) (auto simp: inj_on_def)
  also have "\<dots> \<le> extent bs"
    by (rule sum_block_map [OF assms(2)])
  finally show "(\<Sum>p \<in> live. lsize (snd p)) \<le> extent bs" .
qed

lemma heap_layoutD:
  assumes "heap_layout l"
  shows "is_power_of_two (lalign l)" "lalign l + lsize l < 2 ^ 58" "lalign l \<le> 8" "lalign l dvd 8"
  using assms layout_okD [of l] pow2_max_8(2) [of "lalign l"] by (auto simp: heap_layout_def sized_layout_def max_def)

lemma tlsf_ok_span: "tlsf_ok t bs \<Longrightarrow> span t bs"
  by (simp add: tlsf_ok_def)

lemma tlsf_ok_end: "tlsf_ok t bs \<Longrightarrow> heap_end t = heap_start t + extent bs \<and> big bs \<and> extent bs < 2 ^ 32"
  by (simp add: tlsf_ok_def span_def)

lemma extent_carved: "c \<le> s \<Longrightarrow> extent (carved xs s c ys) = extent (xs @ (s, True) # ys)"
  by (simp add: carved_def)

lemma extent_coalesced: "extent (coalesced xs s ys) = extent (xs @ (s, False) # ys)"
  by (cases xs rule: rev_cases; cases ys) (auto simp: coalesced_def split: prod.splits)

lemma heap_alloc_inv:
  assumes inv: "heap_inv lo hi h live" and l: "heap_layout l"
  shows "\<exists>p h'. heap_alloc tsc spurious l h = Some (p, h') \<and> heap_inv lo hi h' (if p = 0 then live else insert (p, l) live) \<and>
    (p \<noteq> 0 \<longrightarrow> (p, l) \<notin> live)"
proof -
  obtain bs where ok: "tlsf_ok (allocator h) bs" and lo: "heap_start (allocator h) = lo" and hi: "heap_end (allocator h) = hi"
    and live: "live_blocks (block_map False lo bs) live"
    and sum: "unat (current_allocated (metrics h)) = (\<Sum>p \<in> live. lsize (snd p))"
    using inv by (auto simp: heap_inv_def)
  have big: "big bs"
    using tlsf_ok_end [OF ok] by simp
  from malloc_ok [OF ok heap_layoutD(1,2) [OF l]] show ?thesis
  proof (elim disjE exE conjE)
    fix xs s ys pad c t'
    assume bs: "bs = xs @ (s, True) # ys" and "lalign l \<le> 8 \<longrightarrow> pad = 0" "8 + pad + lsize l \<le> c" "c \<le> s"
      and "malloc (lsize l) (lalign l) (allocator h) = Some (heap_start (allocator h) + extent xs + 8 + pad, t')"
      and t': "tlsf_ok t' (carved xs s c ys)" "heap_start t' = heap_start (allocator h)"
    then have m: "malloc (lsize l) (lalign l) (allocator h) = Some (lo + extent xs + 8, t')" and c: "lsize l + 8 \<le> c" "c \<le> s"
      using heap_layoutD(3) [OF l] lo by auto
    obtain s' where s': "c \<le> s'" "block_map False lo (carved xs s c ys) = (block_map False lo bs)(lo + extent xs \<mapsto> s')"
      using block_map_carved [of xs s ys c lo] big c(2) by (auto simp: bs)
    have "lo + extent xs \<notin> dom (block_map False lo bs)"
      using block_map_release(1) [of xs s True ys False lo] block_map_at [of xs s True ys lo] big
        block_map_outside [of xs "lo + extent xs" lo False] block_map_outside [of ys "lo + extent xs" "lo + extent xs + s" False]
      by (simp add: bs map_add_def domIff)
    from live_blocks_insert [OF live this l, of s'] have new:
      "live_blocks (block_map False lo (carved xs s c ys)) (insert (lo + extent xs + 8, l) live)" "(lo + extent xs + 8, l) \<notin> live"
      using c(1) s' by simp_all
    have fin: "finite live"
      using live_blocks_sum(1) [OF live big] .
    have big': "big (carved xs s c ys)"
      using tlsf_ok_end [OF t'(1)] by simp
    have total: "lsize l + (\<Sum>p \<in> live. lsize (snd p)) < 2 ^ 32"
      using live_blocks_sum(2) [OF new(1) big'] new(2) fin tlsf_ok_end [OF t'(1)] by simp
    then have size: "unat (of_nat (lsize l) :: u64) = lsize l"
      by (simp add: unsigned_of_nat take_bit_nat_eq_self)
    then have "unat (current_allocated (metrics h)) + unat (of_nat (lsize l) :: u64) < 2 ^ 64"
      using total sum by simp
    note inc = inc_alloc_eq [OF this]
    have "unat (current_allocated (metrics h) + of_nat (lsize l)) = lsize l + (\<Sum>p \<in> live. lsize (snd p))"
      using total sum size by (subst unat_add_lem [THEN iffD1]) auto
    moreover have "heap_end t' = hi"
      using tlsf_ok_end [OF t'(1)] tlsf_ok_end [OF ok] extent_carved [OF c(2)] t'(2) hi bs by simp
    ultimately show ?thesis
      using m inc new fin t' lo by (auto simp: heap_alloc_def heap_inv_def Let_def)
  next
    assume "malloc (lsize l) (lalign l) (allocator h) = Some (0, allocator h)"
    then show ?thesis
      using inv by (simp add: heap_alloc_def)
  qed
qed

lemma heap_dealloc_inv:
  assumes inv: "heap_inv lo hi h live" and p: "(p, l) \<in> live"
  shows "\<exists>h'. heap_dealloc tsc p l h = Some h' \<and> heap_inv lo hi h' (live - {(p, l)})"
proof -
  obtain bs where ok: "tlsf_ok (allocator h) bs" and lo: "heap_start (allocator h) = lo" and hi: "heap_end (allocator h) = hi"
    and live: "live_blocks (block_map False lo bs) live"
    and sum: "unat (current_allocated (metrics h)) = (\<Sum>p \<in> live. lsize (snd p))"
    using inv by (auto simp: heap_inv_def)
  have big: "big bs" and ext: "extent bs < 2 ^ 32"
    using tlsf_ok_end [OF ok] by simp_all
  obtain b s where b: "p = b + 8" "block_map False lo bs b = Some s" "lsize l + 8 \<le> s"
    using live_blocksD [OF live p] by blast
  obtain xs ys where bs: "bs = xs @ (s, False) # ys" "b = lo + extent xs"
    using block_map_split [OF big b(2)] by blast
  from free_ok [OF ok [unfolded bs(1)]] obtain t' where
    t': "free p (allocator h) = Some t'" "tlsf_ok t' (coalesced xs s ys)" "heap_start t' = lo"
    by (auto simp: lo b(1) bs(2))
  have "block_map False lo (coalesced xs s ys) = (block_map False lo bs)(b := None)"
    using block_map_coalesced [of xs s ys lo] big by (simp add: bs)
  then have live': "live_blocks (block_map False lo (coalesced xs s ys)) (live - {(p, l)})"
    using live_blocks_delete [OF live p [unfolded b(1)]] b(1) by simp
  note fin = live_blocks_sum [OF live big]
  have split: "(\<Sum>p \<in> live. lsize (snd p)) = lsize l + (\<Sum>p \<in> live - {(p, l)}. lsize (snd p))"
    using sum.remove [OF fin(1) p, of "\<lambda>p. lsize (snd p)"] by simp
  have "unat (of_nat (lsize l) :: u64) = lsize l"
    using split fin(2) ext by (simp add: unsigned_of_nat take_bit_nat_eq_self)
  then have "unat (current_allocated (metrics h) - of_nat (lsize l)) = (\<Sum>p \<in> live - {(p, l)}. lsize (snd p))"
    using sum split by (simp add: unat_sub word_le_nat_alt)
  moreover have "heap_end t' = hi"
    using tlsf_ok_end [OF t'(2)] tlsf_ok_end [OF ok] extent_coalesced [of xs s ys] t'(3) lo hi bs by simp
  ultimately show ?thesis
    using t' live' by (auto simp: heap_dealloc_def heap_inv_def inc_free_def Let_def)
qed

lemma tlsf_ok_write:
  assumes ok: "tlsf_ok t bs" and b: "block_map False (heap_start t) bs b = Some s" and c: "b + 8 \<le> c" "c + 8 \<le> b + s"
  shows "tlsf_ok (t\<lparr>mem := (mem t)(c := v)\<rparr>) bs"
proof -
  define t' where "t' = t\<lparr>mem := (mem t)(c := v)\<rparr>"
  let ?a = "heap_start t"
  have big: "big bs"
    using tlsf_ok_end [OF ok] by simp
  obtain xs ys where bs: "bs = xs @ (s, False) # ys" "b = ?a + extent xs"
    using block_map_split [OF big b] by blast
  have fr: "frame {c} t t'"
    by (simp add: frame_def t'_def)
  have "x \<le> b \<or> b + s \<le> x" if "x \<in> set (heads ?a (bs @ [sentinel]))" for x
  proof -
    have "big (xs @ [(32, False)])" "big (ys @ [(32, False)])"
      using big by (auto simp: bs)
    from heads_bounds [OF this(1), of x ?a] heads_bounds [OF this(2), of x "b + s"] show ?thesis
      using that by (auto simp: bs)
  qed
  then have hd: "c \<notin> set (heads ?a (bs @ [sentinel]))"
    using c by fastforce
  have "index_ok t (block_map True ?a bs)"
    using ok by (simp add: tlsf_ok_def)
  then have "index_ok t' (block_map True ?a bs)"
  proof (rule index_ok_cong)
    fix x assume "x \<in> node_cells (dom (block_map True ?a bs))"
    then obtain b' s' where b': "block_map True ?a bs b' = Some s'" "x = b' + 8 \<or> x = b' + 16"
      by (auto simp: node_cells_def)
    have "b' \<noteq> b"
      using b b'(1) block_map_release(1) [of xs s False ys True ?a] big by (auto simp: bs)
    from block_map_disjoint [OF big b b'(1)] this block_map_size [OF big b'(1)] show "mem t' x = mem t x"
      using b'(2) c by (auto simp: t'_def)
  qed (simp_all add: t'_def)
  moreover have "headers_ok t' ?a (False, 0) (bs @ [sentinel])"
    using headers_ok_frame [OF fr] hd ok by (simp add: tlsf_ok_def del: headers_ok_append)
  ultimately show ?thesis
    using ok by (simp add: tlsf_ok_def span_def t'_def)
qed

lemma block_map_8dvd:
  assumes "tlsf_ok t bs" "block_map g (heap_start t) bs b = Some s"
  shows "8 dvd b" "8 dvd s"
proof -
  have big: "big bs" and hs: "headers_ok t (heap_start t) (False, 0) (bs @ [sentinel])" "8 dvd heap_start t"
    using assms(1) by (auto simp: tlsf_ok_def span_def)
  obtain xs ys where "bs = xs @ (s, g) # ys" "b = heap_start t + extent xs"
    using block_map_split [OF big assms(2)] by blast
  then show "8 dvd b" "8 dvd s"
    using hs headers_8dvd [of t "heap_start t" "(False, 0)" xs] by (auto simp: hdr_ok_def)
qed

lemma cell_bounds:
  assumes "8 dvd b" "8 dvd s" "b + 8 \<le> a" "a < b + s"
  shows "b + 8 \<le> a div 8 * 8 \<and> a div 8 * 8 + 8 \<le> b + (s :: nat)"
proof -
  obtain k n where "b = 8 * k" "s = 8 * n"
    using assms(1,2) by (auto elim!: dvdE)
  moreover define q r where "q = a div 8" and "r = a mod 8"
  then have "a = 8 * q + r" "r < 8"
    by simp_all
  ultimately have "k + 1 \<le> q" "q + 1 \<le> k + n"
    using assms(3,4) by linarith+
  then show ?thesis
    unfolding q_def [symmetric] using \<open>b = 8 * k\<close> \<open>s = 8 * n\<close> by linarith
qed

lemma heap_store_inv:
  assumes inv: "heap_inv lo hi h live" and p: "(p, l) \<in> live" "p \<le> a" "a + 1 \<le> p + lsize l"
  shows "heap_inv lo hi (heap_store a v h) live"
proof -
  obtain bs where ok: "tlsf_ok (allocator h) bs" and lo: "heap_start (allocator h) = lo" and hi: "heap_end (allocator h) = hi"
    and live: "live_blocks (block_map False lo bs) live"
    using inv by (auto simp: heap_inv_def)
  obtain b s where b: "p = b + 8" "block_map False lo bs b = Some s" "lsize l + 8 \<le> s"
    using live_blocksD [OF live p(1)] by blast
  have dv: "8 dvd b" "8 dvd s"
    using block_map_8dvd [OF ok, of False b s] b(2) lo by auto
  then have "b + 8 \<le> a div 8 * 8" "a div 8 * 8 + 8 \<le> b + s"
    using cell_bounds [of b s a] p b by simp_all
  from tlsf_ok_write [OF ok _ this, of v] b(2) lo
  have "tlsf_ok ((allocator h)\<lparr>mem := (mem (allocator h))(a div 8 * 8 := v)\<rparr>) bs"
    by simp
  then show ?thesis
    using inv lo hi live by (auto simp: heap_inv_def heap_store_def)
qed

lemma heap_inv_live:
  assumes inv: "heap_inv lo hi h live"
  shows "live_ok live lo hi"
proof -
  obtain bs where ok: "tlsf_ok (allocator h) bs" and lo: "heap_start (allocator h) = lo" and hi: "heap_end (allocator h) = hi"
    and live: "live_blocks (block_map False lo bs) live"
    using inv by (auto simp: heap_inv_def)
  have big: "big bs" and e: "hi = lo + extent bs"
    using tlsf_ok_end [OF ok] lo hi by auto
  show ?thesis
  proof (rule live_okI)
    fix p l assume "(p, l) \<in> live"
    from live_blocksD [OF live this] obtain b s where
      b: "p = b + 8" "block_map False lo bs b = Some s" "lsize l + 8 \<le> s" "heap_layout l"
      by blast
    have "8 dvd p"
      using block_map_8dvd(1) [OF ok, of False b s] b lo by simp
    then show "lalign l dvd p \<and> lo \<le> p \<and> p + lsize l \<le> hi"
      using heap_layoutD(4) [OF b(4)] block_map_end [OF big b(2)] b e by (auto intro: dvd_trans)
  next
    fix p l q m assume pq: "(p, l) \<in> live" "(q, m) \<in> live" "(p, l) \<noteq> (q, m)"
    from live_blocksD [OF live pq(1)] live_blocksD [OF live pq(2)] obtain b s c r where
      b: "p = b + 8" "block_map False lo bs b = Some s" "lsize l + 8 \<le> s"
      and c: "q = c + 8" "block_map False lo bs c = Some r" "lsize m + 8 \<le> r"
      by blast
    have "p \<noteq> q"
      using pq live inj_onD [of fst live "(p, l)" "(q, m)"] by (auto simp: live_blocks_def)
    then show "p + lsize l \<le> q \<or> q + lsize m \<le> p"
      using block_map_disjoint [OF big b(2) c(2)] b c by auto
  qed
qed

interpretation heap: global_alloc "heap_inv lo hi" lo hi heap_layout "heap_alloc tsc spurious" "heap_dealloc tsc" 1 heap_store
proof (unfold_locales, goal_cases)
  case (1 s live l)
  then show ?case
    using heap_alloc_inv [of lo hi s live l tsc spurious] by blast
next
  case (2 s live l s')
  then show ?case
    using heap_alloc_inv [of lo hi s live l tsc spurious] by auto
next
  case (3 s live l p s')
  then show ?case
    using heap_alloc_inv [of lo hi s live l tsc spurious] by auto
next
  case (4 s live p l)
  then show ?case
    by (rule heap_dealloc_inv)
next
  case (5 s live p l a v)
  then show ?case
    by (rule heap_store_inv)
next
  case (6 s live)
  then show ?case
    by (rule heap_inv_live)
qed

end
