(* ===== verification/Kernel_Heap_Props.thy ===== *)
theory Kernel_Heap_Props
  imports Kernel_Heap
begin

text \<open>
  The properties of the kernel's global allocator, from the mapping of its pages to the requests of
  its callers.
\<close>

subsection \<open>Set-up\<close>

text \<open>What the crate documents of a mapping: it adds the page, and no operation removes one.\<close>

definition paging_ok :: "'m paging \<Rightarrow> ('m \<Rightarrow> nat set) \<Rightarrow> bool" where
  "paging_ok pg mapped \<longleftrightarrow>
     (\<forall>m f m'. frame_source pg m = Some (f, m') \<longrightarrow> mapped m \<subseteq> mapped m') \<and>
     (\<forall>page frm m r m'. map_to pg page frm m = Some (Inr r, m') \<longrightarrow> insert page (mapped m) \<subseteq> mapped m')"

lemma map_pages_mapped:
  assumes "paging_ok pg mapped" "map_pages pg pages m = Some (Inr r, m')"
  shows "set pages \<union> mapped m \<subseteq> mapped m'"
  using assms(2)
proof (induction pages arbitrary: m)
  case (Cons page pages)
  then obtain frm m1 m2 u where "frame_source pg m = Some (Some frm, m1)" "map_to pg page frm m1 = Some (Inr u, m2)"
    "map_pages pg pages m2 = Some (Inr r, m')"
    by (auto simp: bind_eq_Some_conv split: option.splits sum.splits) (metis sum.exhaust_sel old.unit.exhaust)
  moreover from this Cons.IH [of m2] have "set pages \<union> mapped m2 \<subseteq> mapped m'"
    by blast
  moreover have "mapped m \<subseteq> mapped m1" "insert page (mapped m1) \<subseteq> mapped m2"
    using assms(1) calculation(1,2) unfolding paging_ok_def by blast+
  ultimately show ?case
    by auto
qed simp

lemma init_heap_SomeD:
  assumes "init_heap pg (m, h) = Some (r, m', h')"
  shows "(\<exists>e. r = Inl e \<and> h' = h) \<or>
    (\<exists>u t. map_pages pg [containing_page HEAP_START..<containing_page (HEAP_START + HEAP_SIZE) + 1] m = Some (Inr u, m') \<and>
       tlsf_init HEAP_START HEAP_SIZE (allocator h) = Some t \<and> r = Inr () \<and> h' = h\<lparr>allocator := t\<rparr>)"
proof -
  obtain r1 m1 where "map_pages pg [containing_page HEAP_START..<containing_page (HEAP_START + HEAP_SIZE) + 1] m = Some (r1, m1)"
    and "(case r1 of Inl e \<Rightarrow> Some (Inl e, m1, h)
      | Inr _ \<Rightarrow> do { t \<leftarrow> tlsf_init HEAP_START HEAP_SIZE (allocator h); Some (Inr (), m1, h\<lparr>allocator := t\<rparr>) }) = Some (r, m', h')"
    using assms by (auto simp: init_heap_def Let_def bind_eq_Some_conv)
  then show ?thesis
    by (cases r1) (auto simp: bind_eq_Some_conv)
qed

definition demo_paging :: "(nat \<times> nat list) paging" where
  "demo_paging = \<lparr>frame_source = (\<lambda>(n, ps). if n < 300 then Some (Some n, (n + 1, ps)) else Some (None, (n, ps))),
     map_to = (\<lambda>page frm (n, ps). Some (Inr (), (n, page # ps)))\<rparr>"

text \<open>
  C36 (Mapping the heap).  When \<^verbatim>\<open>init_heap\<close> reports success, every byte of the heap and of the
  sentinel header behind it lies in a mapped page, and the allocator is initialised; when it reports
  an error, the allocator is untouched.
\<close>

theorem init_heap_maps:
  assumes "paging_ok pg mapped" "init_heap pg (m, h) = Some (r, m', h')"
  shows "case r of
      Inl e \<Rightarrow> h' = h
    | Inr _ \<Rightarrow> (\<forall>a. HEAP_START \<le> a \<and> a < HEAP_START + HEAP_SIZE + HEADER_SIZE \<longrightarrow> containing_page a \<in> mapped m') \<and>
        tlsf_init HEAP_START HEAP_SIZE (allocator h) = Some (allocator h')"
  using init_heap_SomeD [OF assms(2)]
proof (elim disjE exE conjE)
  fix u t
  assume t: "map_pages pg [containing_page HEAP_START..<containing_page (HEAP_START + HEAP_SIZE) + 1] m = Some (Inr u, m')"
    "tlsf_init HEAP_START HEAP_SIZE (allocator h) = Some t" "r = Inr ()" "h' = h\<lparr>allocator := t\<rparr>"
  have "{containing_page HEAP_START..<containing_page (HEAP_START + HEAP_SIZE) + 1} \<subseteq> mapped m'"
    using map_pages_mapped [OF assms(1) t(1)] by (simp only: set_upt Un_subset_iff)
  moreover have "containing_page a \<in> {containing_page HEAP_START..<containing_page (HEAP_START + HEAP_SIZE) + 1}"
    if "HEAP_START \<le> a" "a < HEAP_START + HEAP_SIZE + HEADER_SIZE" for a
    using that by (simp add: containing_page_def HEAP_START_def HEAP_SIZE_def HEADER_SIZE_def div_le_mono less_Suc_eq_le)
      (auto simp: div_less_iff_less_mult)
  ultimately show ?thesis
    using t by (simp del: atLeastLessThan_iff) blast
qed simp
text \<open>The heap at boot: the static allocator before \<^verbatim>\<open>init\<close>, nothing allocated yet.\<close>

definition fresh_heap :: "kernel_heap \<Rightarrow> bool" where
  "fresh_heap h \<longleftrightarrow> (\<exists>m. allocator h = tlsf_new m) \<and> current_allocated (metrics h) = 0"

lemma init_heap_inv:
  assumes "init_heap pg (m, h) = Some (Inr r, m', h')" "fresh_heap h"
  shows "heap_inv HEAP_START (HEAP_START + HEAP_SIZE) h' {}"
proof -
  obtain m0 where m0: "allocator h = tlsf_new m0"
    using assms(2) by (auto simp: fresh_heap_def)
  have "\<exists>t. tlsf_init HEAP_START HEAP_SIZE (tlsf_new m0) = Some t \<and> tlsf_ok t [(HEAP_SIZE, True)] \<and> heap_start t = HEAP_START"
    by (rule tlsf_init_ok) (simp_all add: HEAP_START_def HEAP_SIZE_def)
  then obtain t where t: "tlsf_init HEAP_START HEAP_SIZE (allocator h) = Some t" "tlsf_ok t [(HEAP_SIZE, True)]"
    "heap_start t = HEAP_START"
    by (auto simp: m0)
  then have "h' = h\<lparr>allocator := t\<rparr>"
    using init_heap_SomeD [OF assms(1)] by auto
  moreover have "heap_end t = HEAP_START + HEAP_SIZE"
    using tlsf_ok_end [OF t(2)] t(3) by simp
  moreover have "live_blocks (block_map False HEAP_START [(HEAP_SIZE, True)]) {}"
    by (simp add: live_blocks_def)
  ultimately show ?thesis
    using t(2,3) assms(2) by (auto simp: heap_inv_def fresh_heap_def)
qed

abbreviation heap_run ::
    "(kernel_heap \<Rightarrow> u64) \<Rightarrow> (kernel_heap \<Rightarrow> bool list) \<Rightarrow> kernel_heap \<times> (nat \<times> layout) set \<Rightarrow> kernel_heap \<times> (nat \<times> layout) set \<Rightarrow> bool" where
  "heap_run tsc spurious \<equiv> (heap_step heap_layout (heap_alloc tsc spurious) (heap_dealloc tsc) 1 heap_store)\<^sup>*\<^sup>*"

subsection \<open>Requests\<close>

text \<open>
  C2 (Kernel heap).  After \<^verbatim>\<open>init_heap\<close>, over every sequence of allocations with an
  alignment of at most 8, frees of live pointers and byte writes into live regions: live regions are
  aligned, inside the heap and pairwise disjoint; the metric of allocated bytes is the sum of the live
  sizes; and no further allocation and no free of a live pointer panics, although the headers and the
  free lists share the memory with the callers.
\<close>

theorem kernel_heap_safe:
  assumes "init_heap pg (m, h0) = Some (Inr r, m', h)" "fresh_heap h0" "heap_run tsc spurious (h, {}) (h', live)"
  shows "live_ok live HEAP_START (HEAP_START + HEAP_SIZE) \<and>
    unat (current_allocated (metrics h')) = (\<Sum>p \<in> live. lsize (snd p)) \<and>
    (\<forall>l. heap_layout l \<longrightarrow> heap_alloc tsc spurious l h' \<noteq> None) \<and>
    (\<forall>p l. (p, l) \<in> live \<longrightarrow> heap_dealloc tsc p l h' \<noteq> None)"
proof -
  note inv = init_heap_inv [OF assms(1,2)]
  have "unat (current_allocated (metrics h')) = (\<Sum>p \<in> live. lsize (snd p))"
    using heap.steps_inv [OF assms(3) inv] by (simp add: heap_inv_def)
  then show ?thesis
    using heap.steps_safe [OF assms(3) inv] by blast
qed

lemma all_free_single:
  assumes "no_adjacent_free bs" "\<forall>b \<in> set bs. snd b" "bs \<noteq> []"
  shows "bs = [(extent bs, True)]"
proof (cases bs)
  case (Cons b bs')
  then have "bs' = []"
    using assms by (cases bs') (auto simp: no_adjacent_free_Cons)
  then show ?thesis
    using Cons assms(2) by (cases b) simp
qed (use assms in simp)

lemma heap_inv_empty:
  assumes "heap_inv lo (lo + n) h {}" "0 < n"
  shows "tlsf_ok (allocator h) [(n, True)]"
proof -
  obtain bs where ok: "tlsf_ok (allocator h) bs" "heap_start (allocator h) = lo" "heap_end (allocator h) = lo + n"
    and live: "dom (block_map False lo bs) = {}"
    using assms(1) by (auto simp: heap_inv_def live_blocks_def)
  have big: "big bs" and n: "extent bs = n" and adj: "no_adjacent_free bs"
    using tlsf_ok_end [OF ok(1)] ok by (auto simp: tlsf_ok_def)
  have "snd b" if b: "b \<in> set bs" for b
  proof (rule ccontr)
    assume "\<not> snd b"
    then obtain xs s ys where "bs = xs @ (s, False) # ys"
      using b split_list [OF b] by (cases b) auto
    then show False
      using block_map_at [of xs s False ys lo] big live by auto
  qed
  then have "bs = [(n, True)]"
    using all_free_single [OF adj] n assms(2) by fastforce
  then show ?thesis
    using ok(1) by simp
qed

lemma heap_alloc_single:
  assumes inv: "heap_inv HEAP_START (HEAP_START + HEAP_SIZE) h {}" and l: "heap_layout l" "lsize l + HEADER_SIZE \<le> HEAP_SIZE"
  shows "\<exists>p h'. heap_alloc tsc spurious l h = Some (p, h') \<and> p \<noteq> 0"
proof -
  have ok: "tlsf_ok (allocator h) [(HEAP_SIZE, True)]"
    by (rule heap_inv_empty [OF inv]) (simp add: HEAP_SIZE_def)
  have "request (lsize l) (lalign l) \<le> consumed HEAP_SIZE"
    using l heap_layoutD(3) [OF l(1)] unfolding request_def by (intro consumed_mono) (simp add: HEADER_SIZE_def)
  then have "request (lsize l) (lalign l) \<le> HEAP_SIZE"
    by (simp add: consumed_def round_up_def HEAP_SIZE_def)
  then obtain p t where "malloc (lsize l) (lalign l) (allocator h) = Some (p, t)" "p \<noteq> 0"
    using malloc_single [OF ok heap_layoutD(1,2) [OF l(1)]] by (auto simp: HEAP_SIZE_def)
  moreover obtain q h' where "heap_alloc tsc spurious l h = Some (q, h')"
    using heap.alloc_returns [OF inv l(1)] by blast
  ultimately show ?thesis
    by (auto simp: heap_alloc_def Let_def bind_eq_Some_conv)
qed

text \<open>
  C13 (No fragmentation remains).  Whenever all memory has been returned, the heap is one free block
  again: every request of at most \<^verbatim>\<open>HEAP_SIZE - HEADER_SIZE\<close> bytes succeeds, whatever
  happened before.
\<close>

theorem kernel_heap_coalesces:
  assumes "init_heap pg (m, h0) = Some (Inr r, m', h)" "fresh_heap h0" "heap_run tsc spurious (h, {}) (h', {})"
    and "heap_layout l" "lsize l + HEADER_SIZE \<le> HEAP_SIZE"
  shows "\<exists>p h''. heap_alloc tsc spurious l h' = Some (p, h'') \<and> p \<noteq> 0"
  using heap_alloc_single [OF heap.steps_inv [OF assms(3) init_heap_inv [OF assms(1,2)]] assms(4,5)] .

lemma not_higher_class:
  assumes "\<not> higher_class s r" "32 \<le> r" "r < 2 ^ 24" "32 \<le> s" "s < 2 ^ 24"
  shows "32 * s < 33 * r"
proof -
  have rb: "2 ^ fl_of r \<le> r" and sb: "2 ^ fl_of s \<le> s" "s < 2 * 2 ^ fl_of s"
    using fl_of_bounds [of r] fl_of_bounds [of s] assms by auto
  have fl: "5 \<le> fl_of r" "fl_of r < 24" "5 \<le> fl_of s" "fl_of s < 24"
    using fl_of_range assms by auto
  show ?thesis
  proof (cases "fl_of s < fl_of r")
    case True
    then have "(2 :: nat) ^ Suc (fl_of s) \<le> 2 ^ fl_of r"
      by (intro power_increasing) auto
    then show ?thesis
      using rb sb by simp
  next
    case False
    define d where "d = (2 :: nat) ^ fl_of s"
    have eq: "fl_of r = fl_of s"
      using assms(1) fl False by (auto simp: higher_class_def class_of_def)
    have le: "(s - d) * 32 div d \<le> (r - d) * 32 div d"
      using assms(1) by (simp add: higher_class_def class_of_def d_def eq)
    have "(s - d) * 32 < d + (s - d) * 32 div d * d"
      by (rule dividend_less_div_times) (simp add: d_def)
    also have "\<dots> \<le> d + (r - d) * 32 div d * d"
      using le by simp
    also have "\<dots> \<le> d + (r - d) * 32"
      by simp
    finally show ?thesis
      using rb sb eq by (simp add: d_def)
  qed
qed


subsection \<open>Stricter alignments\<close>

text \<open>
  For an alignment above 8 the payload may start behind a padding, but \<^verbatim>\<open>free\<close> still takes
  the 8 bytes before the pointer for the header.
\<close>

lemma free_zero_header:
  assumes "mem t a = 0" "a < heap_end t" "a + 8 < usize_bound"
  shows "free (a + 8) t = None"
proof -
  have z: "size_and_flags t a = enc 0 False False"
    using assms(1) by (simp add: size_and_flags_def enc_def)
  then have h: "hdr_ok t a 0 False False 0"
    by (simp add: hdr_ok_def)
  have h': "hdr_ok (mark_free a True t) a 0 True False 0"
    unfolding mark_block_free_eq [OF h, of True] by (rule hdr_ok_put) auto
  have m: "remove_block a (mark_free a True t) = None"
    using hdr_read(1) [OF h'] by (simp add: remove_block_def mapping_def leading_zeros64_def usub_def)
  show ?thesis
    using assms(2,3) hdr_read(1) [OF h] hdr_read(2) [OF h'] m
    by (simp add: free_def HEADER_SIZE_def checked_eqs Let_def mark_free_def header_ops)
qed

lemma single_node:
  assumes ok: "tlsf_ok t [(s, True)]"
  shows "mem t (heap_start t + 8) = 0" "remove_block (heap_start t) t = Some t1 \<Longrightarrow> mem t1 = mem t"
proof -
  let ?F = "block_map True (heap_start t) [(s, True)]"
  have sp: "spaced ?F" and idx: "index_ok t ?F" and b: "?F (heap_start t) = Some s"
    using ok span_spaced [of t "[(s, True)]" True] by (simp_all add: tlsf_ok_def)
  obtain L where L: "lists_ok t ?F L"
    using idx by (auto simp: index_ok_def)
  note cls = spaced_class(1-3) [OF sp b]
  note Lij = lists_okD [OF L cls(2,3)]
  have "set (L (fst (class_of s)) (snd (class_of s))) = {heap_start t}"
    using Lij(3) by (auto split: if_splits)
  then have "L (fst (class_of s)) (snd (class_of s)) = [heap_start t]"
    using Lij(2) by (cases "L (fst (class_of s)) (snd (class_of s))" rule: remdups_adj.cases) auto
  then have n: "node_prev t (heap_start t) = 0" "node_next t (heap_start t) = 0"
    using Lij(1) by auto
  then show "mem t (heap_start t + 8) = 0"
    by (simp add: node_prev_def unat_eq_zero)
  have "block_size t (heap_start t) = s"
    using ok hdr_read(1) by (auto simp: tlsf_ok_def)
  then show "mem t1 = mem t" if "remove_block (heap_start t) t = Some t1"
    using that remove_block_eq [of t "heap_start t" "fst (class_of s)" "snd (class_of s)"] cls n by (auto simp: unlink_def)
qed

lemma empty_index: "index_ok t Map.empty \<Longrightarrow> i < 19 \<Longrightarrow> j < 32 \<Longrightarrow> free_lists t i j = 0"
  unfolding index_ok_def using lists_okD(1,3) [of t Map.empty _ i j] by fastforce

lemma header_mem:
  assumes "x \<noteq> a"
  shows "mem (set_prev_phys_size a v t) x = mem t x" "mem (mark_free a g t) x = mem t x" "mem (mark_prev_free a g t) x = mem t x"
    "set_block a s f pf t = Some t' \<Longrightarrow> mem t' x = mem t x"
  using assms by (auto simp: header_ops put_header_mem set_block_def bind_eq_Some_conv)

lemma header_lists:
  "free_lists (set_prev_phys_size a v t) = free_lists t" "free_lists (mark_free a g t) = free_lists t"
  "free_lists (mark_prev_free a g t) = free_lists t" "set_block a s f pf t = Some t' \<Longrightarrow> free_lists t' = free_lists t"
  by (auto simp: header_ops set_block_def bind_eq_Some_conv)

lemma insert_block_mem:
  assumes "insert_block a s t = Some t'" "\<And>i j. i < 19 \<Longrightarrow> j < 32 \<Longrightarrow> free_lists t i j = 0" "x \<noteq> a + 8" "x \<noteq> a + 16"
  shows "mem t' x = mem t x"
  using assms
  by (auto simp: insert_block_def get_list_def set_list_def get_sl_def set_sl_def bind_eq_Some_conv require_def Let_def
      FL_COUNT_def SL_COUNT_def set_node_prev_def set_node_next_def split: if_splits)

lemma alloc_from_keeps:
  assumes "index_ok t Map.empty" "alloc_from b sz al t = Some (p, t')" "p \<noteq> 0" "b < x" "x < b + 32"
  shows "mem t' x = mem t x"
proof -
  note empty = empty_index [OF assms(1)]
  consider (whole) nxt where "nxt = b + block_size t b" "32 \<le> block_size t b" "t' = mark_prev_free nxt False (mark_free b False t)"
    | (front) d r v w t1 t2 where "max d 32 + 32 \<le> block_size t b" "set_block b (max d 32) False (prev_is_free t b) t = Some t1"
      "set_block (b + max d 32) r True False (set_prev_phys_size (b + max d 32) v t1) = Some t2"
      "insert_block (b + max d 32) r (mark_prev_free (b + block_size t b) True (set_prev_phys_size (b + block_size t b) w t2)) = Some t'"
    using assms(2,3)
    by (auto simp: alloc_from_def Let_def bind_eq_Some_conv uadd_def MIN_BLOCK_SIZE_def split: if_splits)
  then show ?thesis
  proof cases
    case whole
    then show ?thesis
      using assms(4,5) header_mem by simp
  next
    case front
    define c nxt where "c = max d 32" and "nxt = b + block_size t b"
    have c: "32 \<le> c" "b + 32 \<le> nxt"
      using front(1) by (auto simp: c_def nxt_def)
    note front = front(2-4) [folded c_def nxt_def]
    have "mem t' x = mem (mark_prev_free nxt True (set_prev_phys_size nxt w t2)) x"
      by (rule insert_block_mem [OF front(3)]) (use front(1,2) c empty assms(4,5) header_lists in auto)
    also have "\<dots> = mem t1 x"
      using header_mem(4) [OF _ front(2), of x] c assms(4,5) header_mem by simp
    also have "\<dots> = mem t x"
      using header_mem(4) [OF _ front(1), of x] assms(4) by simp
    finally show ?thesis .
  qed
qed

lemma alloc_from_ptr:
  "alloc_from b sz al t = Some (p, t') \<Longrightarrow> p \<noteq> 0 \<Longrightarrow> align_up (b + 8) al = Some p"
  by (auto simp: alloc_from_def Let_def bind_eq_Some_conv uadd_def HEADER_SIZE_def split: if_splits)

lemma round_up_16: "16 dvd a \<Longrightarrow> round_up (a + 8) 16 = a + 16"
proof -
  assume "16 dvd a"
  then obtain k where "a = 16 * k"
    by (auto elim: dvdE)
  moreover have "(16 * k + 23) div 16 = k + 1"
    by simp
  ultimately show ?thesis
    by (simp add: round_up_def)
qed

lemma malloc_16_free:
  assumes ok: "tlsf_ok t [(s, True)]" and fits: "request n 16 \<le> s" "s < 2 ^ 24" and al: "16 dvd heap_start t"
  shows "\<exists>t'. malloc n 16 t = Some (heap_start t + 16, t') \<and> free (heap_start t + 16) t' = None"
proof -
  let ?a = "heap_start t" and ?F = "block_map True (heap_start t) [(s, True)]"
  have pow: "is_power_of_two 16"
    unfolding is_power_of_two_iff by (intro exI [of _ 4]) simp
  have n: "16 + n \<le> request n 16"
    using consumed_props(3) [of "16 + n"] by (simp add: request_def)
  then have small: "16 + n < 2 ^ 58"
    using fits by simp
  obtain p t' where m: "malloc n 16 t = Some (p, t')" "p \<noteq> 0"
    using malloc_single [OF ok pow small fits] by blast
  have sp: "span t [(s, True)]" and idx: "index_ok t ?F" and h: "hdr_ok t ?a s True False 0"
    using ok by (auto simp: tlsf_ok_def)
  have "sizes_ok t ?F"
    using hdr_read(1) [OF h] by (auto simp: sizes_ok_def split: if_splits)
  moreover have "32 \<le> request n 16"
    using consumed_props(2) by (simp add: request_def)
  ultimately have "\<exists>r t1. find_block (fst (class_of (request n 16))) (snd (class_of (request n 16))) (request n 16) t = Some (r, t1) \<and>
      find_result (request n 16) ?F t r t1"
    by (rule find_block_ok [OF idx span_spaced [OF sp]])
  then obtain r t1 where
    f: "find_block (fst (class_of (request n 16))) (snd (class_of (request n 16))) (request n 16) t = Some (r, t1)"
    "find_result (request n 16) ?F t r t1"
    by blast
  have "r \<noteq> None"
    using m f malloc_start [OF pow small, of t] by (cases r) auto
  then obtain b where r: "r = Some b"
    by blast
  then have t1: "b = ?a" "remove_block ?a t = Some t1" "index_ok t1 Map.empty" "heap_end t1 = heap_end t"
    using f(2) by (auto simp: find_result_def taken_def frame_def split: if_splits)
  have a: "alloc_from ?a n 16 t1 = Some (p, t')"
    using m(1) f(1) r t1(1) malloc_start [OF pow small, of t] by simp
  have bound: "?a + 16 \<le> heap_end t" "heap_end t < 9223372036854775808"
    using sp fits n by (auto simp: span_def)
  then have p: "p = ?a + 16"
    using alloc_from_ptr [OF a m(2)] align_up_eq [OF pow, of "?a + 8"] round_up_16 [OF al] by simp
  have "mem t' (?a + 8) = 0"
    using alloc_from_keeps [OF t1(3) a m(2), of "?a + 8"] single_node [OF ok] t1(2) by simp
  moreover obtain xs c ys s' where "[(s, True)] = xs @ (s', True) # ys" "c \<le> s'" "tlsf_ok t' (carved xs s' c ys)" "heap_start t' = ?a"
    using malloc_ok [OF ok pow small] m by (auto simp del: append_eq_Cons_conv)
  then have "heap_end t' = heap_end t"
    using tlsf_ok_end [OF ok] tlsf_ok_end [of t' "carved xs s' c ys"] extent_carved [of c s' xs ys] by (metis (no_types))
  ultimately have "free (?a + 8 + 8) t' = None"
    using bound by (intro free_zero_header) auto
  then show ?thesis
    using m(1) p by (simp add: ac_simps)
qed

text \<open>
  C37 (Alignment above 8).  Whenever no memory is allocated, a request aligned to 16 bytes that fits is
  served with the pointer 16 bytes behind the start of the heap, and freeing that pointer panics:
  \<^verbatim>\<open>free\<close> reads the header from the padding.
\<close>

theorem kernel_heap_aligned_free_panics:
  assumes "init_heap pg (m, h0) = Some (Inr r, m', h)" "fresh_heap h0" "heap_run tsc spurious (h, {}) (h', {})"
    and "n + 16 \<le> HEAP_SIZE"
  shows "\<exists>h''. heap_alloc tsc spurious \<lparr>lsize = n, lalign = 16\<rparr> h' = Some (HEAP_START + 16, h'') \<and>
    heap_dealloc tsc (HEAP_START + 16) \<lparr>lsize = n, lalign = 16\<rparr> h'' = None"
proof -
  note inv = heap.steps_inv [OF assms(3) init_heap_inv [OF assms(1,2)]]
  have ok: "tlsf_ok (allocator h') [(HEAP_SIZE, True)]"
    by (rule heap_inv_empty [OF inv]) (simp add: HEAP_SIZE_def)
  have start: "heap_start (allocator h') = HEAP_START" and zero: "unat (current_allocated (metrics h')) = 0"
    using inv by (auto simp: heap_inv_def)
  have "request n 16 \<le> consumed HEAP_SIZE"
    using assms(4) unfolding request_def by (intro consumed_mono) simp
  then have "request n 16 \<le> HEAP_SIZE" "HEAP_SIZE < 2 ^ 24"
    by (simp_all add: consumed_def round_up_def HEAP_SIZE_def)
  from malloc_16_free [OF ok this] obtain t' where
    "malloc n 16 (allocator h') = Some (HEAP_START + 16, t')" "free (HEAP_START + 16) t' = None"
    by (auto simp: start HEAP_START_def)
  moreover have "unat (of_nat n :: u64) = n"
    using assms(4) by (simp add: HEAP_SIZE_def unsigned_of_nat take_bit_nat_eq_self)
  then have "unat (current_allocated (metrics h')) + unat (of_nat n :: u64) < 2 ^ 64"
    using assms(4) zero by (simp add: HEAP_SIZE_def)
  note inc_alloc_eq [OF this]
  ultimately show ?thesis
    by (simp add: heap_alloc_def heap_dealloc_def Let_def)
qed

subsection \<open>Huge requests\<close>

text \<open>
  A size that \<^verbatim>\<open>Layout\<close> accepts can overflow the multiplication in \<^verbatim>\<open>mapping\<close>, so that
  \<^verbatim>\<open>malloc\<close> panics where it should return the null pointer.
\<close>

lemma mapping_overflow:
  assumes "2 ^ 62 + 2 ^ 59 \<le> n" "n < 2 ^ 63"
  shows "mapping n = None"
proof -
  have "bit_len n \<le> 63"
    using bit_len_le [OF assms(2)] .
  moreover have "62 < bit_len n"
  proof (rule ccontr)
    assume "\<not> 62 < bit_len n"
    then have "(2 :: nat) ^ bit_len n \<le> 2 ^ 62"
      by (intro power_increasing) auto
    with bit_len_bounds [of n] assms(1) show False
      by simp
  qed
  ultimately have "bit_len n = 63"
    by simp
  moreover have "n XOR push_bit 62 1 = n - 2 ^ 62"
    using assms by (intro xor_top) auto
  moreover have "umul (n - 2 ^ 62) 32 = None"
    using assms(1) by (simp add: umul_def)
  ultimately show ?thesis
    by (simp add: mapping_def leading_zeros64_def checked_eqs SL_COUNT_def del: push_bit_of_1)
qed

text \<open>A request far beyond the heap is refused, or the size computation overflows.\<close>

lemma malloc_large:
  assumes ok: "tlsf_ok t bs" and n: "2 ^ 57 \<le> n" "n \<le> 2 ^ 63 - 8"
  shows "malloc n 8 t = Some (0, t) \<or> malloc n 8 t = None \<and> 2 ^ 59 \<le> n"
proof -
  let ?F = "block_map True (heap_start t) bs"
  have sp: "span t bs" and hs: "headers_ok t (heap_start t) (False, 0) (bs @ [sentinel])" and idx: "index_ok t ?F"
    using ok by (auto simp: tlsf_ok_def)
  have sizes: "sizes_ok t ?F"
    using headers_sizes [of bs] sp hs unfolding headers_ok_append span_def by blast
  define r where "r = max (round_up (8 + n) 8) 32"
  have "align_up (8 + n) 8 = Some (round_up (8 + n) 8)"
    using n by (intro align_up_eq pow2_8) simp
  moreover have r: "2 ^ 57 \<le> r" "r < usize_bound"
    using round_up_props [of 8 "8 + n"] n by (auto simp: r_def)
  then have fl: "min (fst (class_of r)) (FL_COUNT - 1) = fst (class_of r)"
    using class_bounds(1) [of r] by (simp add: FL_COUNT_def)
  ultimately have m: "malloc n 8 t = do { (fli, sl) \<leftarrow> mapping r; (found, t) \<leftarrow> find_block (min fli (FL_COUNT - 1)) sl r t;
      case found of None \<Rightarrow> Some (0, t) | Some b \<Rightarrow> alloc_from b n 8 t }"
    using n by (simp add: malloc_def HEADER_SIZE_def MIN_BLOCK_SIZE_def checked_eqs r_def Let_def)
  from find_block_ok [OF idx span_spaced [OF sp] sizes, of r] r(1) obtain found t' where
    f: "find_block (fst (class_of r)) (snd (class_of r)) r t = Some (found, t')" "find_result r ?F t found t'"
    by auto
  have "found = None"
  proof (cases found)
    case (Some b)
    then obtain s where "?F b = Some s" "r \<le> s"
      using f(2) by (auto simp: find_result_def taken_def)
    moreover from this(1) have "s < 2 ^ 32"
      using span_spaced [OF sp, of True] by (fastforce simp: spaced_def dom_def)
    ultimately show ?thesis
      using r(1) by simp
  qed
  then have "malloc n 8 t = map_option (\<lambda>_. (0, t)) (umul (r - 2 ^ fl_of r) 32)"
    using f m fl mapping_eq [of r] r by (cases "umul (r - 2 ^ fl_of r) 32") (auto simp: find_result_def case_prod_beta)
  moreover have "umul (r - 2 ^ fl_of r) 32 \<noteq> None" if "n < 2 ^ 59"
  proof -
    have "r < 2 ^ 60" "r < 2 * 2 ^ fl_of r"
      using that round_up_props [of 8 "8 + n"] n fl_of_bounds [of r] r(1) by (auto simp: r_def)
    then have "2 * (r - 2 ^ fl_of r) < 2 ^ 60"
      by linarith
    then show ?thesis
      by (simp add: umul_def)
  qed
  ultimately show ?thesis
    by (cases "umul (r - 2 ^ fl_of r) 32"; cases "n < 2 ^ 59") auto
qed

lemma heap_alloc_large:
  assumes inv: "heap_inv lo hi h live" and l: "lalign l = 8" "2 ^ 57 \<le> lsize l" "lsize l \<le> 2 ^ 63 - 8"
  shows "heap_alloc tsc spurious l h = Some (0, h) \<or> heap_alloc tsc spurious l h = None \<and> 2 ^ 59 \<le> lsize l"
proof -
  obtain bs where "tlsf_ok (allocator h) bs"
    using inv by (auto simp: heap_inv_def)
  from malloc_large [OF this l(2,3)] show ?thesis
    using l(1) by (auto simp: heap_alloc_def)
qed

lemma malloc_huge_panics:
  assumes "2 ^ 62 + 2 ^ 59 \<le> n" "n + 16 < 2 ^ 63"
  shows "malloc n 8 t = None"
proof -
  have "align_up (8 + n) 8 = Some (round_up (8 + n) 8)"
    using assms by (intro align_up_eq pow2_8) simp
  moreover have "8 + n \<le> round_up (8 + n) 8" "round_up (8 + n) 8 < 16 + n"
    using round_up_props [of 8 "8 + n"] by simp_all
  then have "mapping (max (round_up (8 + n) 8) 32) = None"
    using assms by (intro mapping_overflow) (auto simp: max_def)
  ultimately show ?thesis
    using assms by (simp add: malloc_def HEADER_SIZE_def MIN_BLOCK_SIZE_def checked_eqs)
qed

subsection \<open>A concrete run\<close>

definition boot_heap :: kernel_heap where
  "boot_heap = \<lparr>allocator = tlsf_new (\<lambda>_. 0), metrics = monitor_new, trace = TRACE\<rparr>"

lemma demo_map_pages:
  "n + length pages \<le> 300 \<Longrightarrow> map_pages demo_paging pages (n, ps) = Some (Inr (), (n + length pages, rev pages @ ps))"
  by (induction pages arbitrary: n ps) (auto simp: demo_paging_def)

lemma demo_init:
  "\<exists>m h. init_heap demo_paging ((0, []), boot_heap) = Some (Inr (), m, h) \<and> allocator h = the (tlsf_init HEAP_START HEAP_SIZE (tlsf_new (\<lambda>_. 0)))"
  "fresh_heap boot_heap"
proof -
  let ?pages = "[containing_page HEAP_START..<containing_page (HEAP_START + HEAP_SIZE) + 1]"
  have "0 + length ?pages \<le> 300"
    by (simp add: containing_page_def HEAP_START_def HEAP_SIZE_def)
  from demo_map_pages [OF this] obtain m where "map_pages demo_paging ?pages (0, []) = Some (Inr (), m)"
    by blast
  moreover obtain t where "tlsf_init HEAP_START HEAP_SIZE (tlsf_new (\<lambda>_. 0)) = Some t"
    using tlsf_init_ok [of HEAP_START HEAP_SIZE "\<lambda>_. 0"] by (auto simp: HEAP_START_def HEAP_SIZE_def)
  ultimately show "\<exists>m h. init_heap demo_paging ((0, []), boot_heap) = Some (Inr (), m, h) \<and>
      allocator h = the (tlsf_init HEAP_START HEAP_SIZE (tlsf_new (\<lambda>_. 0)))"
    by (simp add: init_heap_def boot_heap_def)
  show "fresh_heap boot_heap"
    by (auto simp: fresh_heap_def boot_heap_def monitor_new_def)
qed

abbreviation demo_layout :: "nat \<Rightarrow> layout" where
  "demo_layout n \<equiv> \<lparr>lsize = n, lalign = 8\<rparr>"

lemma demo_layout: "0 < n \<Longrightarrow> n \<le> HEAP_SIZE \<Longrightarrow> heap_layout (demo_layout n)"
  using pow2_8 by (simp add: heap_layout_def sized_layout_def layout_ok_def HEAP_SIZE_def)

text \<open>One allocation and its return on the fresh heap.\<close>

lemma demo_steps:
  assumes "init_heap demo_paging ((0, []), boot_heap) = Some (Inr (), m, h)" "0 < n" "n + HEADER_SIZE \<le> HEAP_SIZE"
  shows "\<exists>p h1 h2. p \<noteq> 0 \<and> heap_alloc tsc spurious (demo_layout n) h = Some (p, h1) \<and>
    heap_run tsc spurious (h, {}) (h1, {(p, demo_layout n)}) \<and> heap_run tsc spurious (h, {}) (h2, {})"
proof -
  have l: "heap_layout (demo_layout n)"
    using assms(2,3) by (intro demo_layout) simp_all
  note inv = init_heap_inv [OF assms(1) demo_init(2)]
  obtain p h1 where a: "heap_alloc tsc spurious (demo_layout n) h = Some (p, h1)" "p \<noteq> 0"
    using heap_alloc_single [OF inv l, of tsc spurious] assms(3) by auto
  have run: "heap_run tsc spurious (h, {}) (h1, {(p, demo_layout n)})"
    using heap_step.heap_alloc [where admissible = heap_layout and alloc = "heap_alloc tsc spurious", OF l a(1), of "heap_dealloc tsc" 1 heap_store "{}"] a(2)
    by auto
  obtain h2 where "heap_dealloc tsc p (demo_layout n) h1 = Some h2"
    using heap.dealloc_returns [OF heap.steps_inv [OF run inv]] by blast
  from heap_step.heap_dealloc [where dealloc = "heap_dealloc tsc", OF _ this, of "{(p, demo_layout n)}" heap_layout "heap_alloc tsc spurious" 1 heap_store] run
  have "heap_run tsc spurious (h, {}) (h2, {})"
    by (auto intro: rtranclp.rtrancl_into_rtrancl)
  then show ?thesis
    using a run by blast
qed

theorem init_heap_maps_witness:
  "\<exists>m h. init_heap demo_paging ((0, []), boot_heap) = Some (Inr (), m, h) \<and>
     (\<forall>a. HEAP_START \<le> a \<and> a < HEAP_START + HEAP_SIZE + HEADER_SIZE \<longrightarrow> containing_page a \<in> set (snd m))"
proof -
  obtain m h where i: "init_heap demo_paging ((0, []), boot_heap) = Some (Inr (), m, h)"
    using demo_init(1) by blast
  have "paging_ok demo_paging (\<lambda>m. set (snd m))"
    by (auto simp: paging_ok_def demo_paging_def split: if_splits)
  from init_heap_maps [OF this i] i show ?thesis
    by auto
qed

theorem kernel_heap_safe_witness:
  "\<exists>m h p h'. init_heap demo_paging ((0, []), boot_heap) = Some (Inr (), m, h) \<and>
     heap_alloc (\<lambda>_. 0) (\<lambda>_. [True]) (demo_layout 100) h = Some (p, h') \<and> p \<noteq> 0 \<and>
     live_ok {(p, demo_layout 100)} HEAP_START (HEAP_START + HEAP_SIZE) \<and> unat (current_allocated (metrics h')) = 100 \<and>
     heap_dealloc (\<lambda>_. 0) p (demo_layout 100) h' \<noteq> None"
proof -
  obtain m h where i: "init_heap demo_paging ((0, []), boot_heap) = Some (Inr (), m, h)"
    using demo_init(1) by blast
  obtain p h1 where p: "p \<noteq> 0" "heap_alloc (\<lambda>_. 0) (\<lambda>_. [True]) (demo_layout 100) h = Some (p, h1)"
    "heap_run (\<lambda>_. 0) (\<lambda>_. [True]) (h, {}) (h1, {(p, demo_layout 100)})"
    using demo_steps [OF i, of 100 "\<lambda>_. 0" "\<lambda>_. [True]"] by (auto simp: HEADER_SIZE_def HEAP_SIZE_def)
  from kernel_heap_safe [OF i demo_init(2) p(3)] show ?thesis
    using i p(1,2) by auto
qed

theorem kernel_heap_coalesces_witness:
  "\<exists>m h h' p h''. init_heap demo_paging ((0, []), boot_heap) = Some (Inr (), m, h) \<and>
     heap_run (\<lambda>_. 0) (\<lambda>_. [True]) (h, {}) (h', {}) \<and>
     heap_alloc (\<lambda>_. 0) (\<lambda>_. [True]) (demo_layout 1048568) h' = Some (p, h'') \<and> p \<noteq> 0"
proof -
  obtain m h where i: "init_heap demo_paging ((0, []), boot_heap) = Some (Inr (), m, h)"
    using demo_init(1) by blast
  obtain h2 where run: "heap_run (\<lambda>_. 0) (\<lambda>_. [True]) (h, {}) (h2, {})"
    using demo_steps [OF i, of 100 "\<lambda>_. 0" "\<lambda>_. [True]"] by (auto simp: HEADER_SIZE_def HEAP_SIZE_def)
  have "heap_layout (demo_layout 1048568)"
    by (rule demo_layout) (simp_all add: HEAP_SIZE_def)
  from kernel_heap_coalesces [OF i demo_init(2) run this] i run show ?thesis
    by (auto simp: HEADER_SIZE_def HEAP_SIZE_def)
qed

text \<open>With the whole heap in one live block, the next request is refused.\<close>

lemma heap_exhausted:
  assumes inv: "heap_inv HEAP_START (HEAP_START + HEAP_SIZE) h {(p, demo_layout 1048568)}"
  shows "heap_alloc tsc spurious (demo_layout 100) h = Some (0, h)"
proof -
  obtain bs where ok: "tlsf_ok (allocator h) bs" "heap_start (allocator h) = HEAP_START" "heap_end (allocator h) = HEAP_START + HEAP_SIZE"
    and live: "live_blocks (block_map False HEAP_START bs) {(p, demo_layout 1048568)}"
    using inv by (auto simp: heap_inv_def)
  have e: "extent bs = HEAP_SIZE" "big bs"
    using tlsf_ok_end [OF ok(1)] ok by auto
  obtain b s where b: "block_map False HEAP_START bs b = Some s" "1048576 \<le> s"
    using live_blocksD [OF live, of p "demo_layout 1048568"] by auto
  obtain xs ys where bs: "bs = xs @ (s, False) # ys"
    using block_map_split [OF e(2) b(1)] by blast
  have "extent xs + (s + extent ys) = 1048576"
    using e(1) by (simp add: bs HEAP_SIZE_def)
  then have "xs = []" "ys = []"
    using e(2) b(2) by (cases xs; auto simp: bs; fail | cases ys; auto simp: bs)+
  then have none: "\<not> (\<exists>xs s ys. bs = xs @ (s, True) # ys)"
    by (auto simp: bs Cons_eq_append_conv)
  have "heap_layout (demo_layout 100)"
    by (rule demo_layout) (simp_all add: HEAP_SIZE_def)
  from malloc_ok [OF ok(1) heap_layoutD(1,2) [OF this]] none
  have "malloc 100 8 (allocator h) = Some (0, allocator h)"
    by auto
  then show ?thesis
    by (simp add: heap_alloc_def)
qed


theorem kernel_heap_aligned_free_panics_witness:
  "\<exists>m h h'. init_heap demo_paging ((0, []), boot_heap) = Some (Inr (), m, h) \<and>
     heap_alloc (\<lambda>_. 0) (\<lambda>_. [True]) \<lparr>lsize = 64, lalign = 16\<rparr> h = Some (HEAP_START + 16, h') \<and>
     heap_dealloc (\<lambda>_. 0) (HEAP_START + 16) \<lparr>lsize = 64, lalign = 16\<rparr> h' = None"
proof -
  obtain m h where i: "init_heap demo_paging ((0, []), boot_heap) = Some (Inr (), m, h)"
    using demo_init(1) by blast
  from kernel_heap_aligned_free_panics [OF i demo_init(2) rtranclp.rtrancl_refl, of 64] i show ?thesis
    by (auto simp: HEAP_SIZE_def)
qed

end
