(* ===== verification/Acpi.thy ===== *)
theory Acpi
  imports Prelude "HOL-Library.Code_Target_Nat"
begin

text \<open>
  \<^verbatim>\<open>kernel/src/apic/mod.rs\<close>, first part: the walk over the ACPI tables, from the RSDP over
  the RSDT or XSDT to the MADT, and the parsing of the MADT.

  Memory maps a virtual address to a byte; a pointer is its address, and the tables lie in mapped
  memory, so offsets from a pointer do not wrap.  Reading a \<^verbatim>\<open>u32\<close> through a
  \<^verbatim>\<open>*const u32\<close> requires an aligned address: a build with debug assertions panics on a
  misaligned one, a build without them reads the bytes.  The parameter \<open>chk\<close> says which;
  fields of the packed structs are read without that requirement.
\<close>

type_synonym bytes = "nat \<Rightarrow> u8"

definition MAX_IOAPICS :: nat where "MAX_IOAPICS = 4"
definition MAX_OVERRIDES :: nat where "MAX_OVERRIDES = 16"

record irq_override =
  source :: u8
  gsi :: u32
  flags :: u16

record apic_info =
  lapic_phys_base :: u64
  ioapic_count :: nat
  ioapic_addrs :: "u64 list"
  ioapic_gsi_bases :: "u32 list"
  override_count :: nat
  overrides :: "irq_override list"

subsection \<open>Reading memory\<close>

definition le_word :: "u8 list \<Rightarrow> 'a :: len word" where
  "le_word bs = foldr (\<lambda>b w. ucast b OR push_bit 8 w) bs 0"

definition field :: "bytes \<Rightarrow> nat \<Rightarrow> nat \<Rightarrow> 'a :: len word" where
  "field mem a n = le_word (map (\<lambda>i. mem (a + i)) [0..<n])"

definition deref :: "bool \<Rightarrow> bytes \<Rightarrow> nat \<Rightarrow> nat \<Rightarrow> 'a :: len word option" where
  "deref chk mem a n = do { require (\<not> chk \<or> a mod n = 0); Some (field mem a n) }"

definition phys_to_virt :: "nat \<Rightarrow> nat \<Rightarrow> nat option" where
  "phys_to_virt phys off = uadd off phys"

definition SDT_HEADER_SIZE :: nat where "SDT_HEADER_SIZE = 36"

text \<open>The field \<^verbatim>\<open>length\<close> of \<^verbatim>\<open>SdtHeader\<close>.\<close>

definition sdt_length :: "bytes \<Rightarrow> nat \<Rightarrow> nat" where
  "sdt_length mem p = unat (field mem (p + 4) 4 :: u32)"

definition check_signature :: "bytes \<Rightarrow> nat \<Rightarrow> u8 list \<Rightarrow> bool" where
  "check_signature mem p expected \<longleftrightarrow> p \<noteq> 0 \<and> map (\<lambda>i. mem (p + i)) [0..<4] = expected"

text \<open>The signatures \<^verbatim>\<open>RSDT\<close>, \<^verbatim>\<open>XSDT\<close>, \<^verbatim>\<open>APIC\<close> and \<^verbatim>\<open>"RSD PTR "\<close>.\<close>

definition SIG_RSDT :: "u8 list" where "SIG_RSDT = [0x52, 0x53, 0x44, 0x54]"
definition SIG_XSDT :: "u8 list" where "SIG_XSDT = [0x58, 0x53, 0x44, 0x54]"
definition SIG_APIC :: "u8 list" where "SIG_APIC = [0x41, 0x50, 0x49, 0x43]"
definition SIG_RSDP :: "u8 list" where "SIG_RSDP = [0x52, 0x53, 0x44, 0x20, 0x50, 0x54, 0x52, 0x20]"

subsection \<open>Finding the MADT\<close>

text \<open>The loop over the entries, of \<open>w\<close> bytes each; the inner option is the function's result.\<close>

fun find_apic_entry :: "bool \<Rightarrow> bytes \<Rightarrow> nat \<Rightarrow> nat \<Rightarrow> nat \<Rightarrow> nat list \<Rightarrow> nat option option" where
  "find_apic_entry chk mem phys_offset w entries [] = Some None"
| "find_apic_entry chk mem phys_offset w entries (i # is) =
     do { entry_phys \<leftarrow> deref chk mem (entries + i * w) w;
          entry_ptr \<leftarrow> phys_to_virt (unat (entry_phys :: u64)) phys_offset;
          if check_signature mem entry_ptr SIG_APIC then Some (Some entry_ptr)
          else find_apic_entry chk mem phys_offset w entries is }"

definition find_madt_rsdt :: "bool \<Rightarrow> bytes \<Rightarrow> nat \<Rightarrow> nat \<Rightarrow> nat option option" where
  "find_madt_rsdt chk mem rsdt_ptr phys_offset =
     (if \<not> check_signature mem rsdt_ptr SIG_RSDT then Some None
      else do { body \<leftarrow> usub (sdt_length mem rsdt_ptr) SDT_HEADER_SIZE;
                find_apic_entry chk mem phys_offset 4 (rsdt_ptr + SDT_HEADER_SIZE) [0..<body div 4] })"

definition find_madt_xsdt :: "bool \<Rightarrow> bytes \<Rightarrow> nat \<Rightarrow> nat \<Rightarrow> nat option option" where
  "find_madt_xsdt chk mem xsdt_ptr phys_offset =
     (if \<not> check_signature mem xsdt_ptr SIG_XSDT then Some None
      else do { body \<leftarrow> usub (sdt_length mem xsdt_ptr) SDT_HEADER_SIZE;
                find_apic_entry chk mem phys_offset 8 (xsdt_ptr + SDT_HEADER_SIZE) [0..<body div 8] })"

text \<open>\<^verbatim>\<open>RsdpV1\<close>: revision at 15, \<^verbatim>\<open>rsdt_address\<close> at 16; \<^verbatim>\<open>xsdt_address\<close> of \<^verbatim>\<open>RsdpV2\<close> at 24.\<close>

definition parse_rsdp :: "bool \<Rightarrow> bytes \<Rightarrow> nat \<Rightarrow> nat \<Rightarrow> nat option option" where
  "parse_rsdp chk mem rsdp_phys phys_offset =
     do { p \<leftarrow> phys_to_virt rsdp_phys phys_offset;
          if map (\<lambda>i. mem (p + i)) [0..<8] \<noteq> SIG_RSDP then Some None
          else
            (let xsdt_address = field mem (p + 24) 8 :: u64 in
             if mem (p + 15) \<ge> 2 \<and> xsdt_address \<noteq> 0 then
               do { xsdt \<leftarrow> phys_to_virt (unat xsdt_address) phys_offset;
                    find_madt_xsdt chk mem xsdt phys_offset }
             else
               do { rsdt \<leftarrow> phys_to_virt (unat (field mem (p + 16) 4 :: u32)) phys_offset;
                    find_madt_rsdt chk mem rsdt phys_offset }) }"

subsection \<open>Parsing the MADT\<close>

definition apic_info_new :: "u64 \<Rightarrow> apic_info" where
  "apic_info_new lapic =
     \<lparr>lapic_phys_base = lapic, ioapic_count = 0,
      ioapic_addrs = replicate MAX_IOAPICS 0, ioapic_gsi_bases = replicate MAX_IOAPICS 0,
      override_count = 0, overrides = replicate MAX_OVERRIDES \<lparr>source = 0, gsi = 0, flags = 0\<rparr>\<rparr>"

definition add_ioapic :: "u64 \<Rightarrow> u32 \<Rightarrow> apic_info \<Rightarrow> apic_info" where
  "add_ioapic addr gsi_base info =
     info\<lparr>ioapic_addrs := (ioapic_addrs info)[ioapic_count info := addr],
          ioapic_gsi_bases := (ioapic_gsi_bases info)[ioapic_count info := gsi_base],
          ioapic_count := ioapic_count info + 1\<rparr>"

definition add_override :: "irq_override \<Rightarrow> apic_info \<Rightarrow> apic_info" where
  "add_override ov info =
     info\<lparr>overrides := (overrides info)[override_count info := ov], override_count := override_count info + 1\<rparr>"

text \<open>The \<^verbatim>\<open>match\<close> on the type of the entry at \<open>e\<close>.\<close>

definition parse_entry :: "bool \<Rightarrow> bytes \<Rightarrow> nat \<Rightarrow> apic_info \<Rightarrow> apic_info option" where
  "parse_entry chk mem e info =
     (if mem e = 1 \<and> ioapic_count info < MAX_IOAPICS then
        do { ioapic_addr \<leftarrow> deref chk mem (e + 4) 4;
             gsi_base \<leftarrow> deref chk mem (e + 8) 4;
             Some (add_ioapic (ucast (ioapic_addr :: u32)) gsi_base info) }
      else if mem e = 2 \<and> override_count info < MAX_OVERRIDES then
        do { g \<leftarrow> deref chk mem (e + 4) 4;
             f \<leftarrow> deref chk mem (e + 8) 2;
             Some (add_override \<lparr>source = mem (e + 3), gsi = g, flags = f\<rparr> info) }
      else Some info)"

text \<open>The \<^verbatim>\<open>while\<close> loop, with the size of the table and the current offset.\<close>

function (sequential) parse_loop :: "bool \<Rightarrow> bytes \<Rightarrow> nat \<Rightarrow> nat \<Rightarrow> nat \<Rightarrow> apic_info \<Rightarrow> apic_info option" where
  "parse_loop chk mem madt_ptr table_size offset info =
     (if offset + 2 \<le> table_size then
        (let entry_len = unat (mem (madt_ptr + offset + 1)) in
         if entry_len < 2 \<or> offset + entry_len > table_size then Some info
         else do { info \<leftarrow> parse_entry chk mem (madt_ptr + offset) info;
                   parse_loop chk mem madt_ptr table_size (offset + entry_len) info })
      else Some info)"
  by pat_completeness auto
termination
  by (relation "measure (\<lambda>(chk, mem, p, table_size, offset, info). table_size - offset)") auto

declare parse_loop.simps [simp del]

definition parse_madt :: "bool \<Rightarrow> bytes \<Rightarrow> nat \<Rightarrow> apic_info option" where
  "parse_madt chk mem madt_ptr =
     do { table_end \<leftarrow> uadd madt_ptr (sdt_length mem madt_ptr);
          lapic \<leftarrow> deref chk mem (madt_ptr + 36) 4;
          parse_loop chk mem madt_ptr (table_end - madt_ptr) 44 (apic_info_new (ucast (lapic :: u32))) }"

definition detect :: "bool \<Rightarrow> bytes \<Rightarrow> nat \<Rightarrow> nat \<Rightarrow> apic_info option option" where
  "detect chk mem rsdp_addr phys_offset =
     do { require (rsdp_addr \<noteq> 0);
          require (phys_offset > 0);
          r \<leftarrow> parse_rsdp chk mem rsdp_addr phys_offset;
          case r of
            None \<Rightarrow> Some None
          | Some madt \<Rightarrow>
              do { info \<leftarrow> parse_madt chk mem madt;
                   require (lapic_phys_base info \<noteq> 0);
                   Some (if ioapic_count info = 0 then None else Some info) } }"

end
