(* ===== verification/Acpi_Props.thy ===== *)
theory Acpi_Props
  imports Acpi
begin

text \<open>
  The MADT parser against the table format: what it returns on a table that encodes a list of
  entries, and what it does on entries the format does not allow.
\<close>

subsection \<open>Little-endian fields\<close>

definition le_bytes :: "nat \<Rightarrow> 'a :: len word \<Rightarrow> u8 list" where
  "le_bytes n w = map (\<lambda>i. ucast (drop_bit (8 * i) w)) [0..<n]"

text \<open>\<open>bs\<close> are the bytes at address \<open>a\<close>.\<close>

definition at :: "bytes \<Rightarrow> nat \<Rightarrow> u8 list \<Rightarrow> bool" where
  "at mem a bs \<longleftrightarrow> map (\<lambda>i. mem (a + i)) [0..<length bs] = bs"

lemma length_le_bytes [simp]: "length (le_bytes n w) = n"
  by (simp add: le_bytes_def)

lemma at_nth: "at mem a bs \<Longrightarrow> i < length bs \<Longrightarrow> mem (a + i) = bs ! i"
  unfolding at_def by (metis (no_types, lifting) add_0 length_upt minus_nat.diff_0 nth_map nth_upt)

lemma at_iff: "at mem a bs \<longleftrightarrow> (\<forall>i < length bs. mem (a + i) = bs ! i)"
  by (auto simp: at_nth at_def intro!: nth_equalityI)

lemma at_append [simp]: "at mem a (bs @ cs) \<longleftrightarrow> at mem a bs \<and> at mem (a + length bs) cs"
proof -
  have "(\<forall>i < length bs + length cs. mem (a + i) = (bs @ cs) ! i) \<longleftrightarrow>
      (\<forall>i < length bs. mem (a + i) = bs ! i) \<and> (\<forall>j < length cs. mem (a + length bs + j) = cs ! j)"
  proof (intro iffI conjI allI impI)
    fix j assume "\<forall>i < length bs + length cs. mem (a + i) = (bs @ cs) ! i" "j < length cs"
    then show "mem (a + length bs + j) = cs ! j"
      by (metis add.assoc nat_add_left_cancel_less nth_append_length_plus)
  next
    fix i assume "(\<forall>i < length bs. mem (a + i) = bs ! i) \<and> (\<forall>j < length cs. mem (a + length bs + j) = cs ! j)"
      "i < length bs + length cs"
    then show "mem (a + i) = (bs @ cs) ! i"
      by (cases "i < length bs") (auto simp: nth_append dest: spec [of _ "i - length bs"])
  qed (auto simp: nth_append)
  then show ?thesis
    by (simp add: at_iff)
qed

lemma at_Nil [simp]: "at mem a []"
  by (simp add: at_iff)

lemma at_Cons [simp]: "at mem a (b # bs) \<longleftrightarrow> mem a = b \<and> at mem (a + 1) bs"
  using at_append [of mem a "[b]" bs] by (simp add: at_iff)

lemma at_header:
  "at mem a ([w, x, y, z] @ bs @ cs) \<longleftrightarrow>
     mem a = w \<and> mem (a + 1) = x \<and> mem (a + 2) = y \<and> mem (a + 3) = z \<and>
     at mem (a + 4) bs \<and> at mem (a + (4 + length bs)) cs"
  unfolding at_append by (auto simp: eval_nat_numeral)

lemma bit_le_word:
  "bit (le_word bs :: 'a :: len word) n \<longleftrightarrow> n < LENGTH('a) \<and> n div 8 < length bs \<and> bit (bs ! (n div 8)) (n mod 8)"
proof (induction bs arbitrary: n)
  case (Cons b bs)
  have eq: "le_word (b # bs) = (ucast b OR push_bit 8 (le_word bs) :: 'a word)"
    by (simp add: le_word_def)
  show ?case
  proof (cases "n < 8")
    case True
    then show ?thesis
      unfolding eq by (auto simp: bit_or_iff bit_ucast_iff bit_push_bit_iff dest: bit_imp_le_length)
  next
    case False
    then obtain m where n: "n = 8 + m"
      using le_Suc_ex by (metis linorder_not_less)
    have "\<not> bit b (8 + m)"
      by (auto dest: bit_imp_le_length)
    moreover have "(8 + m) div 8 = Suc (m div 8)"
      by simp
    ultimately show ?thesis
      unfolding eq n using Cons.IH [of m] by (auto simp: bit_or_iff bit_ucast_iff bit_push_bit_iff)
  qed
qed (simp add: le_word_def)

lemma le_word_bytes:
  assumes "LENGTH('a) = 8 * n"
  shows "le_word (le_bytes n (w :: 'a :: len word)) = w"
proof (rule bit_word_eqI)
  fix i assume i: "i < LENGTH('a)"
  then have "i div 8 < n" "8 * (i div 8) + i mod 8 = i"
    using assms by auto
  then show "bit (le_word (le_bytes n w) :: 'a word) i = bit w i"
    using i by (simp add: bit_le_word le_bytes_def bit_ucast_iff bit_drop_bit_eq)
qed

lemma field_bytes:
  assumes "at mem a (le_bytes n (w :: 'a :: len word))" "LENGTH('a) = 8 * n"
  shows "field mem a n = w"
  using assms le_word_bytes [of n w] by (simp add: field_def at_def)

subsection \<open>Entries of the table\<close>

datatype madt_entry =
    IoApicEntry u8 u32 u32
  | OverrideEntry u8 u8 u32 u16
  | OtherEntry u8 "u8 list"

fun encode :: "madt_entry \<Rightarrow> u8 list" where
  "encode (IoApicEntry i addr g) = [1, 12, i, 0] @ le_bytes 4 addr @ le_bytes 4 g"
| "encode (OverrideEntry b s g f) = [2, 10, b, s] @ le_bytes 4 g @ le_bytes 2 f"
| "encode (OtherEntry t bs) = [t, of_nat (length bs + 2)] @ bs"

fun entry_ok :: "madt_entry \<Rightarrow> bool" where
  "entry_ok (OtherEntry t bs) \<longleftrightarrow> t \<noteq> 1 \<and> t \<noteq> 2 \<and> length bs + 2 < 256"
| "entry_ok _ \<longleftrightarrow> True"

definition encode_all :: "madt_entry list \<Rightarrow> u8 list" where
  "encode_all es = concat (map encode es)"

text \<open>The entries the parser dereferences are at addresses divisible by 4.\<close>

fun aligned_from :: "nat \<Rightarrow> madt_entry list \<Rightarrow> bool" where
  "aligned_from a [] \<longleftrightarrow> True"
| "aligned_from a (e # es) \<longleftrightarrow>
     (case e of OtherEntry _ _ \<Rightarrow> True | _ \<Rightarrow> a mod 4 = 0) \<and> aligned_from (a + length (encode e)) es"

fun apply_entry :: "madt_entry \<Rightarrow> apic_info \<Rightarrow> apic_info" where
  "apply_entry (IoApicEntry i addr g) info =
     (if ioapic_count info < MAX_IOAPICS then add_ioapic (ucast addr) g info else info)"
| "apply_entry (OverrideEntry b s g f) info =
     (if override_count info < MAX_OVERRIDES then add_override \<lparr>source = s, gsi = g, flags = f\<rparr> info else info)"
| "apply_entry (OtherEntry t bs) info = info"

lemma encode_all_simps [simp]:
  "encode_all [] = []" "encode_all (e # es) = encode e @ encode_all es"
  by (simp_all add: encode_all_def)

lemma unat_of_nat_u8: "n < 256 \<Longrightarrow> unat (of_nat n :: u8) = n"
  by (simp add: unsigned_of_nat take_bit_nat_eq_self)

lemma unat_of_nat_u32: "n < 4294967296 \<Longrightarrow> unat (of_nat n :: u32) = n"
  by (simp add: unsigned_of_nat take_bit_nat_eq_self)

lemma encode_header:
  assumes "entry_ok e" "at mem a (encode e)"
  shows "unat (mem (a + 1)) = length (encode e) \<and> 2 \<le> length (encode e)"
proof (cases e)
  case (OtherEntry t bs)
  have "mem (a + 1) = of_nat (length bs + 2)"
    using assms(2) unfolding OtherEntry encode.simps append_Cons append_Nil at_Cons by blast
  moreover have "length bs + 2 < 256"
    using assms(1) by (simp add: OtherEntry)
  ultimately show ?thesis
    unfolding OtherEntry by (simp only: unat_of_nat_u8) simp
qed (use assms(2) in simp_all)

lemma parse_entry_encode:
  assumes "entry_ok e" "at mem a (encode e)" "chk \<Longrightarrow> aligned_from a [e]"
  shows "parse_entry chk mem a info = Some (apply_entry e info)"
proof (cases e)
  case (IoApicEntry i addr g)
  have f: "field mem (a + 4) 4 = addr" "field mem (a + 8) 4 = g"
    using assms(2) unfolding IoApicEntry encode.simps at_header by (auto intro!: field_bytes)
  have "chk \<Longrightarrow> (a + 4) mod 4 = 0 \<and> (a + 8) mod 4 = 0"
    using assms(3) by (simp add: IoApicEntry) presburger
  moreover have "mem a = 1"
    using assms(2) unfolding IoApicEntry encode.simps at_header by blast
  ultimately show ?thesis
    using f by (auto simp: parse_entry_def deref_def require_def IoApicEntry)
next
  case (OverrideEntry b s g f)
  have f: "field mem (a + 4) 4 = g" "field mem (a + 8) 2 = f" "mem (a + 3) = s" "mem a = 2"
    using assms(2) unfolding OverrideEntry encode.simps at_header by (auto intro!: field_bytes)
  have "chk \<Longrightarrow> (a + 4) mod 4 = 0 \<and> (a + 8) mod 2 = 0"
    using assms(3) by (simp add: OverrideEntry) presburger
  then show ?thesis
    using f by (auto simp: parse_entry_def deref_def require_def OverrideEntry)
next
  case (OtherEntry t bs)
  then show ?thesis
    using assms by (simp add: parse_entry_def)
qed

lemma parse_loop_step:
  assumes "entry_ok e" "at mem (p + off) (encode e)" "off + length (encode e) \<le> table_size"
  shows "parse_loop chk mem p table_size off info =
    do { info \<leftarrow> parse_entry chk mem (p + off) info;
         parse_loop chk mem p table_size (off + length (encode e)) info }"
  using assms(3) encode_header [OF assms(1,2)]
  by (simp add: parse_loop.simps [of chk mem p table_size off] Let_def)

lemma parse_loop_encode:
  assumes "\<forall>e \<in> set es. entry_ok e" "at mem (p + off) (encode_all es)" "chk \<Longrightarrow> aligned_from (p + off) es"
    and "off + length (encode_all es) = table_size"
  shows "parse_loop chk mem p table_size off info = Some (fold apply_entry es info)"
  using assms
proof (induction es arbitrary: off info)
  case Nil
  then show ?case
    by (simp add: parse_loop.simps [of chk mem p])
next
  case (Cons e es)
  have at: "at mem (p + off) (encode e)" "at mem (p + (off + length (encode e))) (encode_all es)"
    using Cons.prems(2) by (simp_all add: add.assoc)
  have "parse_entry chk mem (p + off) info = Some (apply_entry e info)"
    using Cons.prems(1,3) parse_entry_encode [OF _ at(1)] by auto
  moreover have "parse_loop chk mem p table_size (off + length (encode e)) (apply_entry e info) =
      Some (fold apply_entry es (apply_entry e info))"
    using Cons.prems at(2) by (intro Cons.IH) (auto simp: add.assoc)
  ultimately show ?case
    using Cons.prems(1,4) parse_loop_step [OF _ at(1), of table_size] by simp
qed

subsection \<open>The parsed table\<close>

fun ioapics :: "madt_entry list \<Rightarrow> (u32 \<times> u32) list" where
  "ioapics [] = []"
| "ioapics (IoApicEntry i addr g # es) = (addr, g) # ioapics es"
| "ioapics (_ # es) = ioapics es"

fun irq_overrides :: "madt_entry list \<Rightarrow> irq_override list" where
  "irq_overrides [] = []"
| "irq_overrides (OverrideEntry b s g f # es) = \<lparr>source = s, gsi = g, flags = f\<rparr> # irq_overrides es"
| "irq_overrides (_ # es) = irq_overrides es"

definition describes :: "apic_info \<Rightarrow> u64 \<Rightarrow> (u32 \<times> u32) list \<Rightarrow> irq_override list \<Rightarrow> bool" where
  "describes info lapic ios ovs \<longleftrightarrow>
     lapic_phys_base info = lapic \<and>
     ioapic_count info = length ios \<and> length ios \<le> MAX_IOAPICS \<and>
     length (ioapic_addrs info) = MAX_IOAPICS \<and> length (ioapic_gsi_bases info) = MAX_IOAPICS \<and>
     take (length ios) (ioapic_addrs info) = map (ucast \<circ> fst) ios \<and>
     take (length ios) (ioapic_gsi_bases info) = map snd ios \<and>
     override_count info = length ovs \<and> length ovs \<le> MAX_OVERRIDES \<and>
     length (overrides info) = MAX_OVERRIDES \<and> take (length ovs) (overrides info) = ovs"

lemma ioapics_append [simp]: "ioapics (es @ fs) = ioapics es @ ioapics fs"
  by (induction es rule: ioapics.induct) auto

lemma irq_overrides_append [simp]: "irq_overrides (es @ fs) = irq_overrides es @ irq_overrides fs"
  by (induction es rule: irq_overrides.induct) auto

lemma take_Suc_update: "n < length xs \<Longrightarrow> take (Suc n) (xs[n := v]) = take n xs @ [v]"
  by (simp add: take_Suc_conv_app_nth)

lemma describes_ioapic:
  assumes "describes info lapic ios ovs" "length ios < MAX_IOAPICS"
  shows "describes (add_ioapic (ucast addr) g info) lapic (ios @ [(addr, g)]) ovs"
  using assms by (simp add: describes_def add_ioapic_def take_Suc_update)

lemma describes_override:
  assumes "describes info lapic ios ovs" "length ovs < MAX_OVERRIDES"
  shows "describes (add_override ov info) lapic ios (ovs @ [ov])"
  using assms by (simp add: describes_def add_override_def take_Suc_update)

lemma fold_describes:
  "describes (fold apply_entry es (apic_info_new lapic)) lapic
     (take MAX_IOAPICS (ioapics es)) (take MAX_OVERRIDES (irq_overrides es))"
proof (induction es rule: rev_induct)
  case Nil
  show ?case
    by (simp add: describes_def apic_info_new_def)
next
  case (snoc e es)
  let ?i = "fold apply_entry es (apic_info_new lapic)"
  have n: "ioapic_count ?i = min MAX_IOAPICS (length (ioapics es))"
      "override_count ?i = min MAX_OVERRIDES (length (irq_overrides es))"
    using snoc.IH by (auto simp: describes_def min.commute)
  show ?case
  proof (cases e)
    case (IoApicEntry i addr g)
    then show ?thesis
      using describes_ioapic [OF snoc.IH] snoc.IH n by (auto simp: min_def split: if_splits)
  next
    case (OverrideEntry b s g f)
    then show ?thesis
      using describes_override [OF snoc.IH] snoc.IH n by (auto simp: min_def split: if_splits)
  next
    case (OtherEntry t bs)
    then show ?thesis
      using snoc.IH by simp
  qed
qed

text \<open>A table in memory: its length, the LAPIC address and the entries.\<close>

definition madt_at :: "bytes \<Rightarrow> nat \<Rightarrow> u32 \<Rightarrow> madt_entry list \<Rightarrow> bool" where
  "madt_at mem p lapic es \<longleftrightarrow>
     at mem (p + 4) (le_bytes 4 (of_nat (44 + length (encode_all es)) :: u32)) \<and>
     at mem (p + 36) (le_bytes 4 lapic) \<and> at mem (p + 44) (encode_all es) \<and>
     44 + length (encode_all es) < 2 ^ 32 \<and> p + 44 + length (encode_all es) < 2 ^ 64 \<and>
     (\<forall>e \<in> set es. entry_ok e)"

lemma parse_madt_loop:
  assumes "madt_at mem p lapic es" "chk \<Longrightarrow> p mod 4 = 0"
  shows "parse_madt chk mem p =
    parse_loop chk mem p (44 + length (encode_all es)) 44 (apic_info_new (ucast lapic))"
proof -
  let ?n = "44 + length (encode_all es)"
  have "field mem (p + 4) 4 = (of_nat ?n :: u32)" "field mem (p + 36) 4 = lapic"
    using assms(1) by (auto simp: madt_at_def intro!: field_bytes)
  moreover have "unat (of_nat ?n :: u32) = ?n"
    using assms(1) unfolding madt_at_def by (intro unat_of_nat_u32) simp
  moreover have "chk \<Longrightarrow> (p + 36) mod 4 = 0"
    using assms(2) by presburger
  moreover have "uadd p ?n = Some (p + ?n)"
    using assms(1) by (simp add: madt_at_def uadd_def)
  ultimately show ?thesis
    by (simp add: parse_madt_def sdt_length_def deref_def require_def)
qed

text \<open>Memory with the given bytes at \<open>base\<close>, and a complete table.\<close>

definition mem_of :: "nat \<Rightarrow> u8 list \<Rightarrow> bytes" where
  "mem_of base bs = (\<lambda>a. if base \<le> a \<and> a < base + length bs then bs ! (a - base) else 0)"

definition madt_bytes :: "u32 \<Rightarrow> madt_entry list \<Rightarrow> u8 list" where
  "madt_bytes lapic es =
     SIG_APIC @ le_bytes 4 (of_nat (44 + length (encode_all es)) :: u32) @ replicate 28 0 @
     le_bytes 4 lapic @ replicate 4 0 @ encode_all es"

definition pc_entries :: "madt_entry list" where
  "pc_entries =
     [IoApicEntry 0 0xFEC00000 0, OtherEntry 0 [0, 0, 1, 0, 0, 0], OverrideEntry 0 0 2 0, OverrideEntry 0 9 9 0xD]"





text \<open>
  An I/O APIC entry whose length byte is too small is accepted, and its fields are read from the bytes
  that follow: here from beyond the end of the table.
\<close>

lemma madt_short_entry_reads_past_end:
  "\<exists>mem mem'. (\<forall>a. 4096 \<le> a \<and> a < 4096 + 48 \<longrightarrow> mem a = mem' a) \<and> sdt_length mem 4096 = 48 \<and>
     parse_madt True mem 4096 \<noteq> parse_madt True mem' 4096"
proof -
  define table where "table = SIG_APIC @ [48, 0, 0, 0] @ replicate 36 1 @ [1, 4, 0, 0 :: u8]"
  have "map_option ioapic_addrs (parse_madt True (mem_of 4096 (table @ [0, 0, 0, 0])) 4096) \<noteq>
      map_option ioapic_addrs (parse_madt True (mem_of 4096 (table @ [7, 0, 0, 0])) 4096)"
    unfolding table_def by code_simp
  moreover have "mem_of 4096 (table @ [0, 0, 0, 0]) a = mem_of 4096 (table @ [7, 0, 0, 0]) a"
    if "4096 \<le> a" "a < 4096 + 48" for a
  proof -
    have "length table = 48"
      by (simp add: table_def SIG_APIC_def)
    moreover have "a - 4096 < 48"
      using that by linarith
    ultimately show ?thesis
      by (simp add: mem_of_def nth_append)
  qed
  moreover have "sdt_length (mem_of 4096 (table @ [0, 0, 0, 0])) 4096 = 48"
    unfolding table_def by code_simp
  ultimately show ?thesis
    by (intro exI [of _ "mem_of 4096 (table @ [0, 0, 0, 0])"] exI [of _ "mem_of 4096 (table @ [7, 0, 0, 0])"]) auto
qed

end
