(* ===== verification/Port_IO.thy ===== *)
theory Port_IO
  imports Prelude
begin

text \<open>
  Access to devices.  The hardware behind the I/O ports and behind memory-mapped registers is not
  part of the repository: its state has an arbitrary type \<open>'d\<close>, and the drivers take the
  operations of the bus as a parameter.  \<^verbatim>\<open>Port<u8>\<close> is the port number.
\<close>

record 'd port_bus =
  port_in :: "u16 \<Rightarrow> 'd \<Rightarrow> u8 \<times> 'd"
  port_out :: "u16 \<Rightarrow> u8 \<Rightarrow> 'd \<Rightarrow> 'd"

record 'd mmio_bus =
  read_volatile :: "nat \<Rightarrow> 'd \<Rightarrow> u32 \<times> 'd"
  write_volatile :: "nat \<Rightarrow> u32 \<Rightarrow> 'd \<Rightarrow> 'd"

text \<open>Overflow-checked arithmetic on \<^verbatim>\<open>u8\<close> and \<^verbatim>\<open>u16\<close>.\<close>

definition u8_add :: "u8 \<Rightarrow> u8 \<Rightarrow> u8 option" where
  "u8_add a b = (if unat a + unat b < 256 then Some (a + b) else None)"

definition u8_mul :: "u8 \<Rightarrow> u8 \<Rightarrow> u8 option" where
  "u8_mul a b = (if unat a * unat b < 256 then Some (a * b) else None)"

definition u16_add :: "u16 \<Rightarrow> u16 \<Rightarrow> u16 option" where
  "u16_add a b = (if unat a + unat b < 65536 then Some (a + b) else None)"

end
