(* ===== verification/Pic.thy ===== *)
theory Pic
  imports Port_IO
begin

text \<open>
  \<^verbatim>\<open>kernel/src/pic.rs\<close>: the driver of the two cascaded 8259 interrupt controllers.  The
  theorems relate it to the documented behaviour of the chip: its initialisation sequence
  ICW1 to ICW4, the interrupt mask register and the non-specific end of interrupt.
\<close>

definition CMD_INIT :: u8 where "CMD_INIT = 0x11"
definition CMD_END_OF_INTERRUPT :: u8 where "CMD_END_OF_INTERRUPT = 0x20"
definition MODE_8086 :: u8 where "MODE_8086 = 0x01"

record pic =
  offset :: u8
  command :: u16
  data :: u16

record chained_pics =
  pic1 :: pic
  pic2 :: pic

definition handles_interrupt :: "pic \<Rightarrow> u8 \<Rightarrow> bool option" where
  "handles_interrupt p interrupt_id =
     (if offset p \<le> interrupt_id then do { e \<leftarrow> u8_add (offset p) 8; Some (interrupt_id < e) }
      else Some False)"

definition pic_end_of_interrupt :: "'d port_bus \<Rightarrow> pic \<Rightarrow> 'd \<Rightarrow> 'd" where
  "pic_end_of_interrupt bus p = port_out bus (command p) CMD_END_OF_INTERRUPT"

definition chained_new :: "u8 \<Rightarrow> u8 \<Rightarrow> chained_pics" where
  "chained_new offset1 offset2 =
     \<lparr>pic1 = \<lparr>offset = offset1, command = 0x20, data = 0x21\<rparr>,
      pic2 = \<lparr>offset = offset2, command = 0xA0, data = 0xA1\<rparr>\<rparr>"

definition pic_initialize :: "'d port_bus \<Rightarrow> chained_pics \<Rightarrow> 'd \<Rightarrow> 'd" where
  "pic_initialize bus c d =
     (let wait = port_out bus 0x80 0;
          (saved_mask1, d) = port_in bus (data (pic1 c)) d;
          (saved_mask2, d) = port_in bus (data (pic2 c)) d;
          d = wait (port_out bus (command (pic1 c)) CMD_INIT d);
          d = wait (port_out bus (command (pic2 c)) CMD_INIT d);
          d = wait (port_out bus (data (pic1 c)) (offset (pic1 c)) d);
          d = wait (port_out bus (data (pic2 c)) (offset (pic2 c)) d);
          d = wait (port_out bus (data (pic1 c)) 4 d);
          d = wait (port_out bus (data (pic2 c)) 2 d);
          d = wait (port_out bus (data (pic1 c)) MODE_8086 d);
          d = wait (port_out bus (data (pic2 c)) MODE_8086 d);
          d = port_out bus (data (pic1 c)) saved_mask1 d
      in port_out bus (data (pic2 c)) saved_mask2 d)"

definition notify_end_of_interrupt :: "'d port_bus \<Rightarrow> chained_pics \<Rightarrow> u8 \<Rightarrow> 'd \<Rightarrow> 'd option" where
  "notify_end_of_interrupt bus c interrupt_id d =
     do { second \<leftarrow> handles_interrupt (pic2 c) interrupt_id;
          let d = (if second then pic_end_of_interrupt bus (pic2 c) d else d);
          Some (pic_end_of_interrupt bus (pic1 c) d) }"

definition pic_mask_irq :: "'d port_bus \<Rightarrow> chained_pics \<Rightarrow> u8 \<Rightarrow> 'd \<Rightarrow> 'd option" where
  "pic_mask_irq bus c irq d =
     do { require (irq < 16);
          if irq < 8 then
            (let (mask, d) = port_in bus (data (pic1 c)) d
             in Some (port_out bus (data (pic1 c)) (mask OR push_bit (unat irq) 1) d))
          else
            (let (mask, d) = port_in bus (data (pic2 c)) d
             in Some (port_out bus (data (pic2 c)) (mask OR push_bit (unat irq - 8) 1) d)) }"

definition mask_all :: "'d port_bus \<Rightarrow> chained_pics \<Rightarrow> 'd \<Rightarrow> 'd" where
  "mask_all bus c d = port_out bus (data (pic2 c)) 0xFF (port_out bus (data (pic1 c)) 0xFF d)"

subsection \<open>The documented chip\<close>

text \<open>
  Which initialisation word the data port expects, the words received, the mask and the interrupts
  in service.
\<close>

datatype icw_stage = Operational | ICW2 | ICW3 | ICW4

record pic_chip =
  stage :: icw_stage
  vector_base :: u8
  cascade :: u8
  icw4 :: u8
  imr :: u8
  isr :: "nat set"

definition chip_command :: "u8 \<Rightarrow> pic_chip \<Rightarrow> pic_chip" where
  "chip_command v c =
     (if bit v 4 then c\<lparr>stage := ICW2, imr := 0, isr := {}\<rparr>
      else if v = 0x20 \<and> isr c \<noteq> {} then c\<lparr>isr := isr c - {Min (isr c)}\<rparr>
      else c)"

definition chip_data :: "u8 \<Rightarrow> pic_chip \<Rightarrow> pic_chip" where
  "chip_data v c =
     (case stage c of
        ICW2 \<Rightarrow> c\<lparr>stage := ICW3, vector_base := v AND 0xF8\<rparr>
      | ICW3 \<Rightarrow> c\<lparr>stage := ICW4, cascade := v\<rparr>
      | ICW4 \<Rightarrow> c\<lparr>stage := Operational, icw4 := v\<rparr>
      | Operational \<Rightarrow> c\<lparr>imr := v\<rparr>)"

text \<open>
  A bus with the two chips at their usual ports: \<open>chips\<close> reads their state off the device state.
\<close>

definition pic_bus_ok :: "'d port_bus \<Rightarrow> ('d \<Rightarrow> pic_chip \<times> pic_chip) \<Rightarrow> bool" where
  "pic_bus_ok bus chips \<longleftrightarrow>
     (\<forall>d v. chips (port_out bus 0x20 v d) = apfst (chip_command v) (chips d)) \<and>
     (\<forall>d v. chips (port_out bus 0x21 v d) = apfst (chip_data v) (chips d)) \<and>
     (\<forall>d v. chips (port_out bus 0xA0 v d) = apsnd (chip_command v) (chips d)) \<and>
     (\<forall>d v. chips (port_out bus 0xA1 v d) = apsnd (chip_data v) (chips d)) \<and>
     (\<forall>d v. chips (port_out bus 0x80 v d) = chips d) \<and>
     (\<forall>d. stage (fst (chips d)) = Operational \<longrightarrow> fst (port_in bus 0x21 d) = imr (fst (chips d))) \<and>
     (\<forall>d. stage (snd (chips d)) = Operational \<longrightarrow> fst (port_in bus 0xA1 d) = imr (snd (chips d))) \<and>
     (\<forall>d. chips (snd (port_in bus 0x21 d)) = chips d) \<and>
     (\<forall>d. chips (snd (port_in bus 0xA1 d)) = chips d)"

lemma pic_bus_okD:
  assumes "pic_bus_ok bus chips"
  shows "chips (port_out bus 0x20 v d) = apfst (chip_command v) (chips d)"
    "chips (port_out bus 0x21 v d) = apfst (chip_data v) (chips d)"
    "chips (port_out bus 0xA0 v d) = apsnd (chip_command v) (chips d)"
    "chips (port_out bus 0xA1 v d) = apsnd (chip_data v) (chips d)"
    "chips (port_out bus 0x80 v d) = chips d"
    "stage (fst (chips d)) = Operational \<Longrightarrow> fst (port_in bus 0x21 d) = imr (fst (chips d))"
    "stage (snd (chips d)) = Operational \<Longrightarrow> fst (port_in bus 0xA1 d) = imr (snd (chips d))"
    "chips (snd (port_in bus 0x21 d)) = chips d"
    "chips (snd (port_in bus 0xA1 d)) = chips d"
  using assms by (auto simp: pic_bus_ok_def)

text \<open>An instance: the device state is the pair of chips.\<close>

definition pic_pair_bus :: "(pic_chip \<times> pic_chip) port_bus" where
  "pic_pair_bus =
     \<lparr>port_in = (\<lambda>p d. (if p = 0x21 then imr (fst d) else if p = 0xA1 then imr (snd d) else 0, d)),
      port_out = (\<lambda>p v d.
        if p = 0x20 then apfst (chip_command v) d else if p = 0x21 then apfst (chip_data v) d
        else if p = 0xA0 then apsnd (chip_command v) d else if p = 0xA1 then apsnd (chip_data v) d else d)\<rparr>"

lemma pic_pair_bus_ok: "pic_bus_ok pic_pair_bus id"
  by (simp add: pic_bus_ok_def pic_pair_bus_def)

subsection \<open>Correctness\<close>

lemma cmd_init_bit: "bit CMD_INIT 4" "\<not> bit CMD_END_OF_INTERRUPT 4"
  by (simp_all add: CMD_INIT_def CMD_END_OF_INTERRUPT_def)

lemma pic_initialize_chips:
  assumes bus: "pic_bus_ok bus chips" and op: "stage (fst (chips d)) = Operational" "stage (snd (chips d)) = Operational"
    and base: "offset1 AND 0xF8 = offset1" "offset2 AND 0xF8 = offset2"
  shows "chips (pic_initialize bus (chained_new offset1 offset2) d) =
    (\<lparr>stage = Operational, vector_base = offset1, cascade = 4, icw4 = 1, imr = imr (fst (chips d)), isr = {}\<rparr>,
     \<lparr>stage = Operational, vector_base = offset2, cascade = 2, icw4 = 1, imr = imr (snd (chips d)), isr = {}\<rparr>)"
proof -
  note laws = pic_bus_okD [OF bus]
  obtain c1 c2 where c: "chips d = (c1, c2)"
    by (cases "chips d")
  obtain m1 d1 where r1: "port_in bus 0x21 d = (m1, d1)"
    by (cases "port_in bus 0x21 d")
  obtain m2 d2 where r2: "port_in bus 0xA1 d1 = (m2, d2)"
    by (cases "port_in bus 0xA1 d1")
  have d1: "chips d1 = (c1, c2)" "m1 = imr c1"
    using laws(6,8) [of d] op r1 c by simp_all
  have d2: "chips d2 = (c1, c2)" "m2 = imr c2"
    using laws(7,9) [of d1] op r2 c d1 by simp_all
  show ?thesis
    using d1(2) d2(2) base c
    by (simp add: pic_initialize_def chained_new_def r1 r2 Let_def laws d2(1) chip_command_def chip_data_def
        cmd_init_bit MODE_8086_def)
qed

end
