(* ===== verification/Apic.thy ===== *)
theory Apic
  imports Acpi Port_IO
begin

text \<open>
  \<^verbatim>\<open>kernel/src/apic/mod.rs\<close>, second part, with \<^verbatim>\<open>lapic.rs\<close> and
  \<^verbatim>\<open>ioapic.rs\<close>: programming the local APIC and the first I/O APIC.

  The registers are memory mapped; \<^verbatim>\<open>read_volatile\<close> and \<^verbatim>\<open>write_volatile\<close> are the
  operations of the bus, with the same alignment requirement as any other access.  The driver's
  globals are the base address of the active local APIC and the pointer used to signal the end of an
  interrupt, 0 for null.  Log output is left out.
\<close>

definition mmio_read :: "bool \<Rightarrow> 'd mmio_bus \<Rightarrow> nat \<Rightarrow> 'd \<Rightarrow> (u32 \<times> 'd) option" where
  "mmio_read chk bus a d = do { require (\<not> chk \<or> a mod 4 = 0); Some (read_volatile bus a d) }"

definition mmio_write :: "bool \<Rightarrow> 'd mmio_bus \<Rightarrow> nat \<Rightarrow> u32 \<Rightarrow> 'd \<Rightarrow> 'd option" where
  "mmio_write chk bus a v d = do { require (\<not> chk \<or> a mod 4 = 0); Some (write_volatile bus a v d) }"

subsection \<open>The local APIC\<close>

definition LAPIC_ID :: nat where "LAPIC_ID = 0x020"
definition LAPIC_VERSION :: nat where "LAPIC_VERSION = 0x030"
definition LAPIC_EOI :: nat where "LAPIC_EOI = 0x0B0"
definition LAPIC_SVR :: nat where "LAPIC_SVR = 0x0F0"
definition SVR_ENABLE :: u32 where "SVR_ENABLE = push_bit 8 1"

definition lapic_new :: "nat \<Rightarrow> nat option" where
  "lapic_new base = do { require (base \<noteq> 0); Some base }"

definition lapic_read :: "bool \<Rightarrow> 'd mmio_bus \<Rightarrow> nat \<Rightarrow> nat \<Rightarrow> 'd \<Rightarrow> (u32 \<times> 'd) option" where
  "lapic_read chk bus base off d = do { require (off mod 4 = 0); mmio_read chk bus (base + off) d }"

definition lapic_write :: "bool \<Rightarrow> 'd mmio_bus \<Rightarrow> nat \<Rightarrow> nat \<Rightarrow> u32 \<Rightarrow> 'd \<Rightarrow> 'd option" where
  "lapic_write chk bus base off v d = do { require (off mod 4 = 0); mmio_write chk bus (base + off) v d }"

definition lapic_id :: "bool \<Rightarrow> 'd mmio_bus \<Rightarrow> nat \<Rightarrow> 'd \<Rightarrow> (u32 \<times> 'd) option" where
  "lapic_id chk bus base d =
     do { (v, d) \<leftarrow> lapic_read chk bus base LAPIC_ID d;
          let i = drop_bit 24 v AND 0xFF;
          require (i < 16);
          Some (i, d) }"

definition lapic_version :: "bool \<Rightarrow> 'd mmio_bus \<Rightarrow> nat \<Rightarrow> 'd \<Rightarrow> (u32 \<times> 'd) option" where
  "lapic_version chk bus base d =
     do { (v, d) \<leftarrow> lapic_read chk bus base LAPIC_VERSION d;
          let v = v AND 0xFF;
          require (v > 0);
          Some (v, d) }"

definition lapic_enable :: "bool \<Rightarrow> 'd mmio_bus \<Rightarrow> nat \<Rightarrow> u8 \<Rightarrow> 'd \<Rightarrow> 'd option" where
  "lapic_enable chk bus base spurious_vector d =
     do { let v = ucast spurious_vector OR SVR_ENABLE;
          d \<leftarrow> lapic_write chk bus base LAPIC_SVR v d;
          (svr, d) \<leftarrow> lapic_read chk bus base LAPIC_SVR d;
          require (svr AND SVR_ENABLE \<noteq> 0);
          Some d }"

definition lapic_end_of_interrupt :: "bool \<Rightarrow> 'd mmio_bus \<Rightarrow> nat \<Rightarrow> 'd \<Rightarrow> 'd option" where
  "lapic_end_of_interrupt chk bus base d = lapic_write chk bus base LAPIC_EOI 0 d"

subsection \<open>The I/O APIC\<close>

definition IOREGSEL :: nat where "IOREGSEL = 0x00"
definition IOWIN :: nat where "IOWIN = 0x10"
definition IOAPICVER :: u8 where "IOAPICVER = 0x01"
definition IOREDTBL_BASE :: u8 where "IOREDTBL_BASE = 0x10"
definition REDIR_FLAGS :: u32 where "REDIR_FLAGS = 0"
definition REDIR_MASKED :: u32 where "REDIR_MASKED = push_bit 16 1"

record io_apic =
  io_base :: nat
  gsi_base :: u32
  max_redirs :: u8

definition read_reg :: "bool \<Rightarrow> 'd mmio_bus \<Rightarrow> nat \<Rightarrow> u8 \<Rightarrow> 'd \<Rightarrow> (u32 \<times> 'd) option" where
  "read_reg chk bus base index d =
     do { d \<leftarrow> mmio_write chk bus (base + IOREGSEL) (ucast index) d;
          mmio_read chk bus (base + IOWIN) d }"

definition write_reg :: "bool \<Rightarrow> 'd mmio_bus \<Rightarrow> nat \<Rightarrow> u8 \<Rightarrow> u32 \<Rightarrow> 'd \<Rightarrow> 'd option" where
  "write_reg chk bus base index v d =
     do { d \<leftarrow> mmio_write chk bus (base + IOREGSEL) (ucast index) d;
          mmio_write chk bus (base + IOWIN) v d }"

definition ioapic_new :: "bool \<Rightarrow> 'd mmio_bus \<Rightarrow> nat \<Rightarrow> u32 \<Rightarrow> 'd \<Rightarrow> (io_apic \<times> 'd) option" where
  "ioapic_new chk bus base gbase d =
     do { require (base \<noteq> 0);
          (version, d) \<leftarrow> read_reg chk bus base IOAPICVER d;
          let max = (ucast (drop_bit 16 version AND 0xFF) :: u8);
          require (max > 0);
          Some (\<lparr>io_base = base, gsi_base = gbase, max_redirs = max\<rparr>, d) }"

definition set_irq :: "bool \<Rightarrow> 'd mmio_bus \<Rightarrow> io_apic \<Rightarrow> u8 \<Rightarrow> u8 \<Rightarrow> 'd \<Rightarrow> 'd option" where
  "set_irq chk bus io irq vector d =
     do { require (irq \<le> max_redirs io);
          require (vector \<ge> 32);
          m \<leftarrow> u8_mul irq 2;
          idx \<leftarrow> u8_add IOREDTBL_BASE m;
          let lo = ucast vector OR REDIR_FLAGS;
          let hi = 0;
          d \<leftarrow> write_reg chk bus (io_base io) idx lo d;
          idx1 \<leftarrow> u8_add idx 1;
          write_reg chk bus (io_base io) idx1 hi d }"

definition ioapic_mask_irq :: "bool \<Rightarrow> 'd mmio_bus \<Rightarrow> io_apic \<Rightarrow> u8 \<Rightarrow> 'd \<Rightarrow> 'd option" where
  "ioapic_mask_irq chk bus io irq d =
     do { require (irq \<le> max_redirs io);
          m \<leftarrow> u8_mul irq 2;
          idx \<leftarrow> u8_add IOREDTBL_BASE m;
          (lo, d) \<leftarrow> read_reg chk bus (io_base io) idx d;
          write_reg chk bus (io_base io) idx (lo OR REDIR_MASKED) d }"

subsection \<open>Initialisation\<close>

record apic_globals =
  APIC :: "nat option"
  LAPIC_EOI_PTR :: nat

definition apic_globals_new :: apic_globals where
  "apic_globals_new = \<lparr>APIC = None, LAPIC_EOI_PTR = 0\<rparr>"

definition build_irq_gsi_map :: "irq_override list \<Rightarrow> nat \<Rightarrow> u32 list" where
  "build_irq_gsi_map ovs count =
     fold (\<lambda>ov irq_to_gsi. if unat (source ov) < 16 then irq_to_gsi[unat (source ov) := gsi ov] else irq_to_gsi)
       (take count ovs) (map of_nat [0..<16])"

text \<open>The vectors of \<^verbatim>\<open>InterruptIndex\<close> in \<^verbatim>\<open>kernel/src/interrupts.rs\<close>.\<close>

datatype interrupt_index = Timer | Keyboard

definition PIC_1_OFFSET :: u8 where "PIC_1_OFFSET = 32"
definition PIC_2_OFFSET :: u8 where "PIC_2_OFFSET = PIC_1_OFFSET + 8"

fun as_u8 :: "interrupt_index \<Rightarrow> u8" where
  "as_u8 Timer = PIC_1_OFFSET"
| "as_u8 Keyboard = PIC_1_OFFSET + 1"

definition apic_init :: "bool \<Rightarrow> 'd mmio_bus \<Rightarrow> apic_info \<Rightarrow> nat \<Rightarrow> apic_globals \<times> 'd \<Rightarrow> (bool \<times> apic_globals \<times> 'd) option" where
  "apic_init chk bus info phys_offset gd =
     (let (g, d) = gd in
      do { require (lapic_phys_base info \<noteq> 0);
           require (ioapic_count info \<ge> 1);
           require (ioapic_addrs info ! 0 \<noteq> 0);
           lapic_virt \<leftarrow> uadd phys_offset (unat (lapic_phys_base info));
           lapic \<leftarrow> lapic_new lapic_virt;
           (_, d) \<leftarrow> lapic_id chk bus lapic d;
           (_, d) \<leftarrow> lapic_version chk bus lapic d;
           d \<leftarrow> lapic_enable chk bus lapic 0xFF d;
           let irq_to_gsi = build_irq_gsi_map (overrides info) (override_count info);
           ioapic_virt \<leftarrow> uadd phys_offset (unat (ioapic_addrs info ! 0));
           (ioapic, d) \<leftarrow> ioapic_new chk bus ioapic_virt (ioapic_gsi_bases info ! 0) d;
           require (gsi_base ioapic \<le> 256);
           let timer_gsi = irq_to_gsi ! 0;
           require (timer_gsi \<ge> gsi_base ioapic);
           d \<leftarrow> set_irq chk bus ioapic (ucast (timer_gsi - gsi_base ioapic)) (as_u8 Timer) d;
           let kbd_gsi = irq_to_gsi ! 1;
           require (kbd_gsi \<ge> gsi_base ioapic);
           d \<leftarrow> set_irq chk bus ioapic (ucast (kbd_gsi - gsi_base ioapic)) (as_u8 Keyboard) d;
           require (lapic_virt + LAPIC_EOI \<noteq> 0);
           Some (True, \<lparr>APIC = Some lapic, LAPIC_EOI_PTR = lapic_virt + LAPIC_EOI\<rparr>, d) })"

definition is_active :: "apic_globals \<Rightarrow> bool" where
  "is_active g \<longleftrightarrow> APIC g \<noteq> None"

definition apic_end_of_interrupt :: "bool \<Rightarrow> 'd mmio_bus \<Rightarrow> apic_globals \<Rightarrow> 'd \<Rightarrow> 'd option" where
  "apic_end_of_interrupt chk bus g d =
     do { require (LAPIC_EOI_PTR g \<noteq> 0);
          mmio_write chk bus (LAPIC_EOI_PTR g) 0 d }"

subsection \<open>The documented devices\<close>

text \<open>
  The I/O APIC's register selector and registers, the local APIC's registers by offset and the
  number of end-of-interrupt signals it received.
\<close>

record apic_dev =
  regsel :: u32
  io_regs :: "u32 \<Rightarrow> u32"
  lapic_regs :: "nat \<Rightarrow> u32"
  eois :: nat

definition apic_bus_ok :: "'d mmio_bus \<Rightarrow> nat \<Rightarrow> nat \<Rightarrow> ('d \<Rightarrow> apic_dev) \<Rightarrow> bool" where
  "apic_bus_ok bus lbase iobase dev \<longleftrightarrow>
     (\<forall>d v. dev (write_volatile bus iobase v d) = (dev d)\<lparr>regsel := v\<rparr>) \<and>
     (\<forall>d v. dev (write_volatile bus (iobase + 0x10) v d) =
        (dev d)\<lparr>io_regs := (io_regs (dev d))(regsel (dev d) := v)\<rparr>) \<and>
     (\<forall>d. fst (read_volatile bus (iobase + 0x10) d) = io_regs (dev d) (regsel (dev d)) \<and>
        dev (snd (read_volatile bus (iobase + 0x10) d)) = dev d) \<and>
     (\<forall>d off. off \<in> {0x20, 0x30, 0xF0} \<longrightarrow>
        fst (read_volatile bus (lbase + off) d) = lapic_regs (dev d) off \<and>
        dev (snd (read_volatile bus (lbase + off) d)) = dev d) \<and>
     (\<forall>d v. dev (write_volatile bus (lbase + 0xF0) v d) =
        (dev d)\<lparr>lapic_regs := (lapic_regs (dev d))(0xF0 := v)\<rparr>) \<and>
     (\<forall>d v. dev (write_volatile bus (lbase + 0xB0) v d) = (dev d)\<lparr>eois := eois (dev d) + 1\<rparr>)"

end
