(* ===== verification/Interrupts.thy ===== *)
theory Interrupts
  imports Keyboard Trace Pic Apic
begin

text \<open>
  \<^verbatim>\<open>kernel/src/interrupts.rs\<close>: the interrupt handlers and the table that selects them,
  and \<^verbatim>\<open>init_apic\<close> of \<^verbatim>\<open>kernel/src/main.rs\<close>, which decides which interrupt
  controller the handlers answer to.

  The machine consists of the keyboard and executor state, the trace buffer, the APIC globals, the
  processor's interrupt flag and the devices.  The contents of the stack frame only reach the
  console.
\<close>

record 'd machine =
  kio :: kernel_io
  trace :: trace_buffer
  apic :: apic_globals
  if_flag :: bool
  devices :: 'd

record 'd hardware =
  ports :: "'d port_bus"
  mmio :: "'d mmio_bus"
  chk_align :: bool

definition PICS :: chained_pics where
  "PICS = chained_new PIC_1_OFFSET PIC_2_OFFSET"

definition send_eoi :: "'d hardware \<Rightarrow> interrupt_index \<Rightarrow> 'd machine \<Rightarrow> 'd machine option" where
  "send_eoi hw idx m =
     (if is_active (apic m) then
        do { d \<leftarrow> apic_end_of_interrupt (chk_align hw) (mmio hw) (apic m) (devices m);
             Some (m\<lparr>devices := d\<rparr>) }
      else
        do { d \<leftarrow> notify_end_of_interrupt (ports hw) PICS (as_u8 idx) (devices m);
             Some (m\<lparr>devices := d\<rparr>) })"

definition keyboard_interrupt_handler :: "'d hardware \<Rightarrow> 'd machine \<Rightarrow> 'd machine option" where
  "keyboard_interrupt_handler hw m =
     (let (scancode, d) = port_in (ports hw) 0x60 (devices m);
          m = m\<lparr>devices := d\<rparr>;
          k = (kio m)\<lparr>metrics := inc_interrupt (as_u8 Keyboard) (metrics (kio m))\<rparr>
      in do { k \<leftarrow> add_scancode scancode k;
              send_eoi hw Keyboard (m\<lparr>kio := k\<rparr>) })"

definition timer_interrupt_handler :: "'d hardware \<Rightarrow> u64 \<Rightarrow> 'd machine \<Rightarrow> 'd machine option" where
  "timer_interrupt_handler hw tsc m =
     (let k = (kio m)\<lparr>metrics := inc_timer_tick (inc_interrupt (as_u8 Timer) (metrics (kio m)))\<rparr>;
          t = trace_record tsc EvInterrupt (ucast (as_u8 Timer)) 0 (trace m)
      in send_eoi hw Timer (m\<lparr>kio := k, trace := t\<rparr>))"

definition breakpoint_handler :: "string \<Rightarrow> 'd machine \<Rightarrow> 'd machine option" where
  "breakpoint_handler frame m =
     Some (m\<lparr>kio := (kio m)\<lparr>console := console (kio m) @ [''EXCEPTION: BREAKPOINT'' @ [CHR 0x0A] @ frame]\<rparr>\<rparr>)"

definition double_fault_handler :: "'d machine \<Rightarrow> 'd machine option" where
  "double_fault_handler m = None"

definition page_fault_handler :: "'d machine \<Rightarrow> 'd machine option" where
  "page_fault_handler m = None"

text \<open>
  The table: the handler of a vector, where one is installed.  Vectors 3, 8 and 14 are the
  exceptions breakpoint, double fault and page fault.
\<close>

definition IDT :: "'d hardware \<Rightarrow> u64 \<Rightarrow> string \<Rightarrow> u8 \<Rightarrow> ('d machine \<Rightarrow> 'd machine option) option" where
  "IDT hw tsc frame v =
     (if v = 3 then Some (breakpoint_handler frame)
      else if v = 14 then Some page_fault_handler
      else if v = 8 then Some double_fault_handler
      else if v = as_u8 Timer then Some (timer_interrupt_handler hw tsc)
      else if v = as_u8 Keyboard then Some (keyboard_interrupt_handler hw)
      else None)"

text \<open>
  \<^verbatim>\<open>init_apic\<close>; \<open>rsdp\<close> is the address the boot loader found, \<open>mem\<close> the
  memory holding the tables.
\<close>

definition init_apic :: "'d hardware \<Rightarrow> bytes \<Rightarrow> nat option \<Rightarrow> nat \<Rightarrow> 'd machine \<Rightarrow> 'd machine option" where
  "init_apic hw mem rsdp phys_offset m =
     (case rsdp of
        None \<Rightarrow> Some (m\<lparr>if_flag := True\<rparr>)
      | Some rsdp_addr \<Rightarrow>
          do { found \<leftarrow> detect (chk_align hw) mem rsdp_addr phys_offset;
               case found of
                 None \<Rightarrow> Some (m\<lparr>if_flag := True\<rparr>)
               | Some info \<Rightarrow>
                   do { let m = m\<lparr>if_flag := False\<rparr>;
                        (ok, g, d) \<leftarrow> apic_init (chk_align hw) (mmio hw) info phys_offset (apic m, devices m);
                        let m = m\<lparr>apic := g, devices := d\<rparr>;
                        let m = (if ok then m\<lparr>devices := mask_all (ports hw) PICS (devices m)\<rparr> else m);
                        Some (m\<lparr>if_flag := True\<rparr>) } })"

end
