(* ===== verification/Apic_Props.thy ===== *)
theory Apic_Props
  imports Apic
begin

text \<open>
  The APIC driver on the documented devices: the legacy IRQ to GSI map follows the overrides, and
  initialisation routes the timer and the keyboard through the I/O APIC.
\<close>

subsection \<open>The IRQ map\<close>

text \<open>The last override of an IRQ counts; without one the IRQ is the GSI of the same number.\<close>

definition gsi_of :: "irq_override list \<Rightarrow> nat \<Rightarrow> u32" where
  "gsi_of ovs i =
     (case filter (\<lambda>ov. unat (source ov) = i) ovs of [] \<Rightarrow> of_nat i | xs \<Rightarrow> gsi (last xs))"

lemma build_irq_gsi_map_nth:
  assumes "i < 16"
  shows "build_irq_gsi_map ovs n ! i = gsi_of (take n ovs) i \<and> length (build_irq_gsi_map ovs n) = 16"
proof -
  define step where "step = (\<lambda>(ov :: irq_override) (irq_to_gsi :: u32 list).
    if unat (source ov) < 16 then irq_to_gsi[unat (source ov) := gsi ov] else irq_to_gsi)"
  have "fold step xs (map of_nat [0..<16]) ! i = gsi_of xs i \<and> length (fold step xs (map of_nat [0..<16])) = 16" for xs
    using assms
  proof (induction xs rule: rev_induct)
    case Nil
    then show ?case
      by (simp add: gsi_of_def)
  next
    case (snoc ov xs)
    then show ?case
      by (auto simp: step_def gsi_of_def nth_list_update split: list.splits)
  qed
  then show ?thesis
    by (simp add: build_irq_gsi_map_def step_def)
qed

subsection \<open>Registers\<close>

lemma apic_bus_okD:
  assumes "apic_bus_ok bus lbase iobase dev"
  shows "dev (write_volatile bus iobase v d) = (dev d)\<lparr>regsel := v\<rparr>"
    "dev (write_volatile bus (iobase + 0x10) v d) = (dev d)\<lparr>io_regs := (io_regs (dev d))(regsel (dev d) := v)\<rparr>"
    "fst (read_volatile bus (iobase + 0x10) d) = io_regs (dev d) (regsel (dev d))"
    "dev (snd (read_volatile bus (iobase + 0x10) d)) = dev d"
    "off \<in> {0x20, 0x30, 0xF0} \<Longrightarrow> fst (read_volatile bus (lbase + off) d) = lapic_regs (dev d) off"
    "off \<in> {0x20, 0x30, 0xF0} \<Longrightarrow> dev (snd (read_volatile bus (lbase + off) d)) = dev d"
    "dev (write_volatile bus (lbase + 0xF0) v d) = (dev d)\<lparr>lapic_regs := (lapic_regs (dev d))(0xF0 := v)\<rparr>"
    "dev (write_volatile bus (lbase + 0xB0) v d) = (dev d)\<lparr>eois := eois (dev d) + 1\<rparr>"
  using assms unfolding apic_bus_ok_def by blast+

lemma mod4_add: "a mod 4 = 0 \<Longrightarrow> b mod 4 = 0 \<Longrightarrow> (a + b) mod 4 = (0 :: nat)"
  by presburger

lemma write_reg_dev:
  assumes bus: "apic_bus_ok bus lbase iobase dev" and "chk \<longrightarrow> iobase mod 4 = 0"
  shows "\<exists>d'. write_reg chk bus iobase index v d = Some d' \<and>
    dev d' = (dev d)\<lparr>regsel := ucast index, io_regs := (io_regs (dev d))(ucast index := v)\<rparr>"
proof -
  have "chk \<longrightarrow> (iobase + 0x10) mod 4 = 0"
    using assms(2) by (auto intro: mod4_add)
  then show ?thesis
    using assms(2) by (simp add: write_reg_def mmio_write_def require_eq IOREGSEL_def IOWIN_def apic_bus_okD [OF bus])
qed

lemma read_reg_dev:
  assumes bus: "apic_bus_ok bus lbase iobase dev" and "chk \<longrightarrow> iobase mod 4 = 0"
  shows "\<exists>d'. read_reg chk bus iobase index d = Some (io_regs (dev d) (ucast index), d') \<and>
    dev d' = (dev d)\<lparr>regsel := ucast index\<rparr>"
proof -
  have "chk \<longrightarrow> (iobase + 0x10) mod 4 = 0"
    using assms(2) by (auto intro: mod4_add)
  moreover define d1 where "d1 = write_volatile bus iobase (ucast index) d"
  moreover obtain v d' where r: "read_volatile bus (iobase + 0x10) d1 = (v, d')"
    by (cases "read_volatile bus (iobase + 0x10) d1")
  moreover have "dev d1 = (dev d)\<lparr>regsel := ucast index\<rparr>" "v = io_regs (dev d1) (regsel (dev d1))" "dev d' = dev d1"
    using apic_bus_okD(1) [OF bus] apic_bus_okD(3,4) [OF bus, of d1] r by (simp_all add: d1_def)
  ultimately show ?thesis
    using assms(2)
    by (simp add: read_reg_def mmio_write_def mmio_read_def require_eq IOREGSEL_def IOWIN_def)
qed

lemma lapic_read_dev:
  assumes bus: "apic_bus_ok bus lbase iobase dev" and "chk \<longrightarrow> lbase mod 4 = 0" "off \<in> {0x20, 0x30, 0xF0}"
  shows "\<exists>d'. lapic_read chk bus lbase off d = Some (lapic_regs (dev d) off, d') \<and> dev d' = dev d"
proof -
  obtain v d' where r: "read_volatile bus (lbase + off) d = (v, d')"
    by (cases "read_volatile bus (lbase + off) d")
  then have "v = lapic_regs (dev d) off" "dev d' = dev d"
    using apic_bus_okD(5,6) [OF bus assms(3), of d] by simp_all
  moreover have "off mod 4 = 0"
    using assms(3) by auto
  moreover from this have "chk \<longrightarrow> (lbase + off) mod 4 = 0"
    using assms(2) by (auto intro: mod4_add)
  ultimately show ?thesis
    using r by (simp add: lapic_read_def mmio_read_def require_eq)
qed

text \<open>The two registers of the redirection entry of a pin.\<close>

definition redir_lo :: "nat \<Rightarrow> u32" where "redir_lo pin = of_nat (16 + 2 * pin)"
definition redir_hi :: "nat \<Rightarrow> u32" where "redir_hi pin = of_nat (17 + 2 * pin)"

lemma redir_index:
  assumes "unat pin \<le> 119"
  shows "\<exists>m idx idx1. u8_mul pin 2 = Some m \<and> u8_add IOREDTBL_BASE m = Some idx \<and> u8_add idx 1 = Some idx1 \<and>
    (ucast idx :: u32) = redir_lo (unat pin) \<and> (ucast idx1 :: u32) = redir_hi (unat pin)"
proof -
  have m: "unat (pin * 2) = 2 * unat pin"
    using assms by (subst unat_mult_lem [THEN iffD1]) auto
  have i: "unat (0x10 + pin * 2) = 16 + 2 * unat pin"
    using assms m by (subst unat_add_lem [THEN iffD1]) auto
  have j: "unat (0x10 + pin * 2 + 1) = 17 + 2 * unat pin"
    using assms i by (subst unat_add_lem [THEN iffD1]) auto
  have "(ucast (0x10 + pin * 2) :: u32) = of_nat (unat (0x10 + pin * 2))"
       "(ucast (0x10 + pin * 2 + 1) :: u32) = of_nat (unat (0x10 + pin * 2 + 1))"
    by (simp_all only: of_nat_unat)
  then show ?thesis
    using assms unfolding i j by (auto simp: u8_mul_def u8_add_def IOREDTBL_BASE_def m i redir_lo_def redir_hi_def)
qed


lemma set_irq_dev:
  assumes bus: "apic_bus_ok bus lbase iobase dev" and "chk \<longrightarrow> iobase mod 4 = 0"
    and io: "io_base io = iobase" "pin \<le> max_redirs io" "unat pin \<le> 119" "32 \<le> vector"
  shows "\<exists>d'. set_irq chk bus io pin vector d = Some d' \<and> lapic_regs (dev d') = lapic_regs (dev d) \<and>
    eois (dev d') = eois (dev d) \<and>
    io_regs (dev d') = (io_regs (dev d))(redir_lo (unat pin) := ucast vector, redir_hi (unat pin) := 0)"
proof -
  obtain m idx idx1 where idx: "u8_mul pin 2 = Some m" "u8_add IOREDTBL_BASE m = Some idx" "u8_add idx 1 = Some idx1"
      "(ucast idx :: u32) = redir_lo (unat pin)" "(ucast idx1 :: u32) = redir_hi (unat pin)"
    using redir_index [OF io(3)] by blast
  obtain d1 where d1: "write_reg chk bus iobase idx (ucast vector) d = Some d1"
      "dev d1 = (dev d)\<lparr>regsel := ucast idx, io_regs := (io_regs (dev d))(ucast idx := ucast vector)\<rparr>"
    using write_reg_dev [OF bus assms(2)] by blast
  obtain d2 where d2: "write_reg chk bus iobase idx1 0 d1 = Some d2"
      "dev d2 = (dev d1)\<lparr>regsel := ucast idx1, io_regs := (io_regs (dev d1))(ucast idx1 := 0)\<rparr>"
    using write_reg_dev [OF bus assms(2)] by blast
  have "set_irq chk bus io pin vector d = Some d2"
    using io by (simp add: set_irq_def require_eq idx REDIR_FLAGS_def d1(1) d2(1))
  then show ?thesis
    using d1(2) d2(2) idx(4,5) by simp
qed

lemma lapic_start_dev:
  assumes bus: "apic_bus_ok bus lbase iobase dev" and "chk \<longrightarrow> lbase mod 4 = 0"
    and "drop_bit 24 (lapic_regs (dev d) 0x20) AND 0xFF < 16" "lapic_regs (dev d) 0x30 AND 0xFF \<noteq> 0"
  shows "\<exists>i v d1 d2 d3. lapic_id chk bus lbase d = Some (i, d1) \<and> lapic_version chk bus lbase d1 = Some (v, d2) \<and>
    lapic_enable chk bus lbase 0xFF d2 = Some d3 \<and>
    dev d3 = (dev d)\<lparr>lapic_regs := (lapic_regs (dev d))(0xF0 := 0x1FF)\<rparr>"
proof -
  obtain d1 where d1: "lapic_read chk bus lbase 0x20 d = Some (lapic_regs (dev d) 0x20, d1)" "dev d1 = dev d"
    using lapic_read_dev [OF bus assms(2), of "0x20"] by blast
  obtain d2 where d2: "lapic_read chk bus lbase 0x30 d1 = Some (lapic_regs (dev d1) 0x30, d2)" "dev d2 = dev d1"
    using lapic_read_dev [OF bus assms(2), of "0x30"] by blast
  define d2' where "d2' = write_volatile bus (lbase + 0xF0) 0x1FF d2"
  have d2': "dev d2' = (dev d2)\<lparr>lapic_regs := (lapic_regs (dev d2))(0xF0 := 0x1FF)\<rparr>"
    unfolding d2'_def by (rule apic_bus_okD(7) [OF bus])
  obtain d3 where d3: "lapic_read chk bus lbase 0xF0 d2' = Some (lapic_regs (dev d2') 0xF0, d3)" "dev d3 = dev d2'"
    using lapic_read_dev [OF bus assms(2), of "0xF0"] by blast
  have "chk \<longrightarrow> (lbase + 0xF0) mod 4 = 0"
    using assms(2) by (auto intro: mod4_add)
  then have "lapic_enable chk bus lbase 0xFF d2 = Some d3"
    using d3(1) d2' by (simp add: lapic_enable_def LAPIC_SVR_def SVR_ENABLE_def lapic_write_def mmio_write_def
        require_eq d2'_def)
  moreover have "lapic_id chk bus lbase d = Some (drop_bit 24 (lapic_regs (dev d) 0x20) AND 0xFF, d1)"
    using d1(1) assms(3) by (simp add: lapic_id_def LAPIC_ID_def require_eq)
  moreover have "lapic_version chk bus lbase d1 = Some (lapic_regs (dev d) 0x30 AND 0xFF, d2)"
    using d2(1) d1(2) assms(4) by (simp add: lapic_version_def LAPIC_VERSION_def require_eq word_gt_0)
  ultimately show ?thesis
    using d2' d3(2) d2(2) d1(2) by auto
qed


text \<open>What initialisation needs of the tables and the hardware.\<close>

definition apic_ready :: "bool \<Rightarrow> apic_info \<Rightarrow> nat \<Rightarrow> nat \<Rightarrow> nat \<Rightarrow> apic_dev \<Rightarrow> bool" where
  "apic_ready chk info phys_offset lbase iobase dev \<longleftrightarrow>
     lapic_phys_base info \<noteq> 0 \<and> ioapic_count info \<ge> 1 \<and> ioapic_addrs info ! 0 \<noteq> 0 \<and>
     lbase = phys_offset + unat (lapic_phys_base info) \<and> lbase < 2 ^ 64 \<and>
     iobase = phys_offset + unat (ioapic_addrs info ! 0) \<and> iobase < 2 ^ 64 \<and>
     (chk \<longrightarrow> lbase mod 4 = 0 \<and> iobase mod 4 = 0) \<and>
     drop_bit 24 (lapic_regs dev 0x20) AND 0xFF < 16 \<and> lapic_regs dev 0x30 AND 0xFF \<noteq> 0 \<and>
     ioapic_gsi_bases info ! 0 \<le> 256"

definition max_pin :: "apic_dev \<Rightarrow> nat" where
  "max_pin dev = unat (ucast (drop_bit 16 (io_regs dev 1) AND 0xFF) :: u8)"

text \<open>The pin of an IRQ on the first I/O APIC.\<close>

definition irq_pin :: "apic_info \<Rightarrow> nat \<Rightarrow> nat" where
  "irq_pin info irq = unat (gsi_of (take (override_count info) (overrides info)) irq) - unat (ioapic_gsi_bases info ! 0)"

definition pin_ok :: "apic_info \<Rightarrow> nat \<Rightarrow> apic_dev \<Rightarrow> bool" where
  "pin_ok info irq dev \<longleftrightarrow>
     ioapic_gsi_bases info ! 0 \<le> gsi_of (take (override_count info) (overrides info)) irq \<and>
     irq_pin info irq \<le> max_pin dev \<and> irq_pin info irq \<le> 119"

lemma pin_ok_ucast:
  assumes "pin_ok info irq dev"
  shows "unat (ucast (gsi_of (take (override_count info) (overrides info)) irq - ioapic_gsi_bases info ! 0) :: u8) =
    irq_pin info irq"
proof -
  let ?g = "gsi_of (take (override_count info) (overrides info)) irq" and ?b = "ioapic_gsi_bases info ! 0"
  have "unat (?g - ?b) = irq_pin info irq"
    using assms by (simp add: pin_ok_def irq_pin_def unat_sub)
  moreover have "irq_pin info irq < 256"
    using assms by (simp add: pin_ok_def)
  ultimately show ?thesis
    by (simp add: unsigned_ucast_eq take_bit_nat_eq_self)
qed

text \<open>
  C31 (APIC routing).  On hardware that answers as documented, initialisation succeeds, enables the local
  APIC with spurious vector 255, routes the timer and keyboard IRQs, through their overrides, to
  vectors 32 and 33 on their own pins, leaves every other I/O APIC register but the selector alone,
  and makes the end-of-interrupt pointer that of the local APIC.
\<close>

theorem apic_init_routes:
  assumes bus: "apic_bus_ok bus lbase iobase dev"
    and ready: "apic_ready chk info phys_offset lbase iobase (dev d)" "0 < phys_offset"
    and pins: "pin_ok info 0 (dev d)" "pin_ok info 1 (dev d)" "0 < max_pin (dev d)"
  shows "\<exists>g' d'. apic_init chk bus info phys_offset (g, d) = Some (True, g', d') \<and>
    is_active g' \<and> LAPIC_EOI_PTR g' = lbase + 0xB0 \<and>
    lapic_regs (dev d') = (lapic_regs (dev d))(0xF0 := 0x1FF) \<and>
    io_regs (dev d') =
      (io_regs (dev d))(redir_lo (irq_pin info 0) := 32, redir_hi (irq_pin info 0) := 0,
                        redir_lo (irq_pin info 1) := 33, redir_hi (irq_pin info 1) := 0)"
proof -
  note r = ready [unfolded apic_ready_def]
  have al: "chk \<longrightarrow> lbase mod 4 = 0" "chk \<longrightarrow> iobase mod 4 = 0"
    using r by blast+
  obtain i v d1 d2 d3 where lapic: "lapic_id chk bus lbase d = Some (i, d1)"
      "lapic_version chk bus lbase d1 = Some (v, d2)" "lapic_enable chk bus lbase 0xFF d2 = Some d3"
      "dev d3 = (dev d)\<lparr>lapic_regs := (lapic_regs (dev d))(0xF0 := 0x1FF)\<rparr>"
    using lapic_start_dev [OF bus al(1), of d] r by blast
  obtain d4 where d4: "read_reg chk bus iobase 1 d3 = Some (io_regs (dev d3) 1, d4)" "dev d4 = (dev d3)\<lparr>regsel := 1\<rparr>"
    using read_reg_dev [OF bus al(2), of 1 d3] by auto
  define io where "io = \<lparr>io_base = iobase, gsi_base = ioapic_gsi_bases info ! 0,
    max_redirs = ucast (drop_bit 16 (io_regs (dev d) 1) AND 0xFF)\<rparr>"
  have new: "ioapic_new chk bus iobase (ioapic_gsi_bases info ! 0) d3 = Some (io, d4)"
    using d4(1) r pins(3) lapic(4)
    by (simp add: ioapic_new_def require_eq IOAPICVER_def io_def max_pin_def unat_gt_0 word_gt_0)
  let ?gsi = "gsi_of (take (override_count info) (overrides info))"
  define t k where "t = (ucast (?gsi 0 - gsi_base io) :: u8)" and "k = (ucast (?gsi 1 - gsi_base io) :: u8)"
  have tk: "unat t = irq_pin info 0" "unat k = irq_pin info 1"
    using pins pin_ok_ucast by (simp_all add: t_def k_def io_def)
  have le: "t \<le> max_redirs io" "k \<le> max_redirs io" "unat t \<le> 119" "unat k \<le> 119"
    using pins tk by (auto simp: pin_ok_def max_pin_def word_le_nat_alt io_def)
  obtain d5 where d5: "set_irq chk bus io t 32 d4 = Some d5" "lapic_regs (dev d5) = lapic_regs (dev d4)"
      "io_regs (dev d5) = (io_regs (dev d4))(redir_lo (unat t) := ucast (32 :: u8), redir_hi (unat t) := 0)"
    using set_irq_dev [OF bus al(2), of io t 32 d4] le by (auto simp: io_def)
  obtain d6 where d6: "set_irq chk bus io k 33 d5 = Some d6" "lapic_regs (dev d6) = lapic_regs (dev d5)"
      "io_regs (dev d6) = (io_regs (dev d5))(redir_lo (unat k) := ucast (33 :: u8), redir_hi (unat k) := 0)"
    using set_irq_dev [OF bus al(2), of io k 33 d5] le by (auto simp: io_def)
  have gsi: "build_irq_gsi_map (overrides info) (override_count info) ! 0 = ?gsi 0"
      "build_irq_gsi_map (overrides info) (override_count info) ! 1 = ?gsi 1"
    using build_irq_gsi_map_nth by simp_all
  have virt: "uadd phys_offset (unat (lapic_phys_base info)) = Some lbase"
      "uadd phys_offset (unat (ioapic_addrs info ! 0)) = Some iobase" "lapic_new lbase = Some lbase"
    using r by (auto simp: uadd_def lapic_new_def require_eq)
  have req: "lapic_phys_base info \<noteq> 0" "1 \<le> ioapic_count info" "ioapic_addrs info ! 0 \<noteq> 0" "gsi_base io \<le> 256"
      "gsi_base io \<le> ?gsi 0" "gsi_base io \<le> ?gsi 1"
    using r pins by (auto simp: io_def pin_ok_def)
  have "apic_init chk bus info phys_offset (g, d) =
      Some (True, \<lparr>APIC = Some lbase, LAPIC_EOI_PTR = lbase + LAPIC_EOI\<rparr>, d6)"
    unfolding apic_init_def using req d5(1) d6(1) unfolding t_def k_def
    by (simp add: virt lapic new gsi [simplified] require_eq PIC_1_OFFSET_def LAPIC_EOI_def)
  then show ?thesis
    using d6 d5 d4(2) lapic(4) tk by (simp add: is_active_def LAPIC_EOI_def)
qed


text \<open>A PC: the timer's IRQ 0 is overridden to GSI 2.\<close>

definition pc_info :: apic_info where
  "pc_info = add_override \<lparr>source = 0, gsi = 2, flags = 0\<rparr> (add_ioapic 0xFEC00000 0 (apic_info_new 0xFEE00000))"

definition pc_lapic :: nat where "pc_lapic = 0xFEE01000"
definition pc_ioapic :: nat where "pc_ioapic = 0xFEC01000"

definition pc_bus :: "apic_dev mmio_bus" where
  "pc_bus =
     \<lparr>read_volatile = (\<lambda>a d.
        (if a = pc_ioapic + 0x10 then io_regs d (regsel d) else lapic_regs d (a - pc_lapic), d)),
      write_volatile = (\<lambda>a v d.
        if a = pc_ioapic then d\<lparr>regsel := v\<rparr>
        else if a = pc_ioapic + 0x10 then d\<lparr>io_regs := (io_regs d)(regsel d := v)\<rparr>
        else if a = pc_lapic + 0xF0 then d\<lparr>lapic_regs := (lapic_regs d)(0xF0 := v)\<rparr>
        else if a = pc_lapic + 0xB0 then d\<lparr>eois := eois d + 1\<rparr>
        else d)\<rparr>"

definition pc_dev :: apic_dev where
  "pc_dev = \<lparr>regsel = 0, io_regs = (\<lambda>r. if r = 1 then 0x170011 else 0x10000),
     lapic_regs = (\<lambda>r. if r = 0x30 then 0x50014 else 0), eois = 0\<rparr>"

lemma pc_bus_ok: "apic_bus_ok pc_bus pc_lapic pc_ioapic id"
  by (auto simp: apic_bus_ok_def pc_bus_def pc_lapic_def pc_ioapic_def)

theorem apic_init_routes_witness:
  "\<exists>g' d'. apic_init True pc_bus pc_info 0x1000 (apic_globals_new, pc_dev) = Some (True, g', d') \<and> is_active g' \<and>
     io_regs d' (redir_lo 2) = 32 \<and> io_regs d' (redir_lo 1) = 33 \<and> io_regs d' (redir_lo 0) = 0x10000"
proof -
  have "apic_ready True pc_info 0x1000 pc_lapic pc_ioapic (id pc_dev)" "pin_ok pc_info 0 (id pc_dev)"
      "pin_ok pc_info 1 (id pc_dev)" "0 < max_pin (id pc_dev)"
    by code_simp+
  moreover have "irq_pin pc_info 0 = 2" "irq_pin pc_info 1 = 1"
    by code_simp+
  ultimately show ?thesis
    using apic_init_routes [OF pc_bus_ok, of True pc_info "0x1000" pc_dev apic_globals_new]
    by (auto simp: redir_lo_def redir_hi_def pc_dev_def)
qed

end
