(* ===== verification/Interrupts_Props.thy ===== *)
theory Interrupts_Props
  imports Interrupts Apic_Props
begin

text \<open>
  The interrupt path across its components: which vectors the legacy controllers deliver, that every
  handled interrupt is acknowledged at the controller in charge, and that switching to the APIC
  leaves exactly one controller in charge.
\<close>

subsection \<open>Hardware\<close>

text \<open>
  Both controllers behave as documented, and an access to one leaves the other alone; so does reading
  the keyboard's data port.
\<close>

definition hw_ok :: "'d hardware \<Rightarrow> ('d \<Rightarrow> pic_chip \<times> pic_chip) \<Rightarrow> nat \<Rightarrow> nat \<Rightarrow> ('d \<Rightarrow> apic_dev) \<Rightarrow> bool" where
  "hw_ok hw chips lbase iobase dev \<longleftrightarrow>
     pic_bus_ok (ports hw) chips \<and> apic_bus_ok (mmio hw) lbase iobase dev \<and>
     (\<forall>a v d. chips (write_volatile (mmio hw) a v d) = chips d) \<and>
     (\<forall>a d. chips (snd (read_volatile (mmio hw) a d)) = chips d) \<and>
     (\<forall>p v d. dev (port_out (ports hw) p v d) = dev d) \<and>
     (\<forall>p d. dev (snd (port_in (ports hw) p d)) = dev d) \<and>
     (\<forall>d. chips (snd (port_in (ports hw) 0x60 d)) = chips d)"

lemma hw_okD:
  assumes "hw_ok hw chips lbase iobase dev"
  shows "pic_bus_ok (ports hw) chips" "apic_bus_ok (mmio hw) lbase iobase dev"
    "chips (write_volatile (mmio hw) a v d) = chips d" "chips (snd (read_volatile (mmio hw) a d)) = chips d"
    "dev (port_out (ports hw) p w d) = dev d" "dev (snd (port_in (ports hw) p d)) = dev d"
    "chips (snd (port_in (ports hw) 0x60 d)) = chips d"
  using assms by (simp_all add: hw_ok_def)

subsection \<open>Acknowledging interrupts\<close>

text \<open>The pointer the APIC path writes to is the end-of-interrupt register.\<close>

definition eoi_ok :: "'d hardware \<Rightarrow> nat \<Rightarrow> 'd machine \<Rightarrow> bool" where
  "eoi_ok hw lbase m \<longleftrightarrow>
     (is_active (apic m) \<longrightarrow> LAPIC_EOI_PTR (apic m) = lbase + 0xB0 \<and> (chk_align hw \<longrightarrow> lbase mod 4 = 0))"

text \<open>
  One end of interrupt at the controller in charge, nothing at the other one.  The master 8259 takes
  its highest-priority interrupt out of service.
\<close>

definition acknowledged :: "('d \<Rightarrow> pic_chip \<times> pic_chip) \<Rightarrow> ('d \<Rightarrow> apic_dev) \<Rightarrow> 'd machine \<Rightarrow> 'd machine \<Rightarrow> bool" where
  "acknowledged chips dev m m' \<longleftrightarrow>
     (if is_active (apic m)
      then eois (dev (devices m')) = eois (dev (devices m)) + 1 \<and> chips (devices m') = chips (devices m)
      else dev (devices m') = dev (devices m) \<and>
           chips (devices m') = apfst (\<lambda>c. c\<lparr>isr := isr c - {Min (isr c)}\<rparr>) (chips (devices m)))"

lemma chip_eoi: "isr c \<noteq> {} \<Longrightarrow> chip_command CMD_END_OF_INTERRUPT c = c\<lparr>isr := isr c - {Min (isr c)}\<rparr>"
  using cmd_init_bit(2) by (auto simp: chip_command_def CMD_END_OF_INTERRUPT_def)

lemma send_eoi_acknowledged:
  assumes hw: "hw_ok hw chips lbase iobase dev" and eoi: "eoi_ok hw lbase m"
    and isr: "isr (fst (chips (devices m))) \<noteq> {}"
  shows "\<exists>d. send_eoi hw idx m = Some (m\<lparr>devices := d\<rparr>) \<and> acknowledged chips dev m (m\<lparr>devices := d\<rparr>)"
proof (cases "is_active (apic m)")
  case True
  then have ptr: "LAPIC_EOI_PTR (apic m) = lbase + 0xB0" "chk_align hw \<longrightarrow> (lbase + 0xB0) mod 4 = 0"
    using eoi by (auto simp: eoi_ok_def intro: mod4_add)
  then have "send_eoi hw idx m = Some (m\<lparr>devices := write_volatile (mmio hw) (lbase + 0xB0) 0 (devices m)\<rparr>)"
    using True by (simp add: send_eoi_def apic_end_of_interrupt_def mmio_write_def require_eq)
  then show ?thesis
    using True hw_okD(3) [OF hw] apic_bus_okD(8) [OF hw_okD(2) [OF hw]]
    by (intro exI [of _ "write_volatile (mmio hw) (lbase + 0xB0) 0 (devices m)"]) (simp add: acknowledged_def)
next
  case False
  have "handles_interrupt (pic2 PICS) (as_u8 idx) = Some False"
    by (cases idx) (simp_all add: handles_interrupt_def PICS_def chained_new_def PIC_1_OFFSET_def PIC_2_OFFSET_def)
  then have "send_eoi hw idx m =
      Some (m\<lparr>devices := port_out (ports hw) 0x20 CMD_END_OF_INTERRUPT (devices m)\<rparr>)"
    using False by (simp add: send_eoi_def notify_end_of_interrupt_def pic_end_of_interrupt_def PICS_def chained_new_def)
  moreover have "apfst (chip_command CMD_END_OF_INTERRUPT) (chips (devices m)) =
      apfst (\<lambda>c. c\<lparr>isr := isr c - {Min (isr c)}\<rparr>) (chips (devices m))"
    using chip_eoi [OF isr] by (cases "chips (devices m)") simp
  ultimately show ?thesis
    using False hw_okD(5) [OF hw] pic_bus_okD(1) [OF hw_okD(1) [OF hw]]
    by (intro exI [of _ "port_out (ports hw) 0x20 CMD_END_OF_INTERRUPT (devices m)"]) (simp add: acknowledged_def)
qed

lemma acknowledged_cong:
  "apic m = apic n \<Longrightarrow> dev (devices m) = dev (devices n) \<Longrightarrow> chips (devices m) = chips (devices n) \<Longrightarrow>
     acknowledged chips dev m m' = acknowledged chips dev n m'"
  by (simp add: acknowledged_def)

lemma add_scancode_returns: "once_ok (scancode_queue k) \<Longrightarrow> \<exists>k'. add_scancode sc k = Some k'"
  by (auto simp: add_scancode_def try_get_def once_ok_def split: sum.splits prod.splits)



text \<open>A machine with both controllers and a key in the keyboard's buffer.\<close>

type_synonym pc_devices = "(pic_chip \<times> pic_chip) \<times> apic_dev \<times> u8"

definition pc_hw :: "pc_devices hardware" where
  "pc_hw =
     \<lparr>ports =
        \<lparr>port_in = (\<lambda>p (c, a, key). if p = 0x60 then (key, c, a, key)
                     else (case port_in pic_pair_bus p c of (v, c) \<Rightarrow> (v, c, a, key))),
         port_out = (\<lambda>p v (c, a, key). (port_out pic_pair_bus p v c, a, key))\<rparr>,
      mmio =
        \<lparr>read_volatile = (\<lambda>x (c, a, key). case read_volatile pc_bus x a of (v, a) \<Rightarrow> (v, c, a, key)),
         write_volatile = (\<lambda>x v (c, a, key). (c, write_volatile pc_bus x v a, key))\<rparr>,
      chk_align = True\<rparr>"

lemma pc_hw_ok: "hw_ok pc_hw fst pc_lapic pc_ioapic (\<lambda>d. fst (snd d))"
proof -
  have "pic_bus_ok (ports pc_hw) fst"
    using pic_pair_bus_ok by (auto simp: pic_bus_ok_def pc_hw_def split: prod.splits) (metis fst_conv snd_conv)+
  moreover have "apic_bus_ok (mmio pc_hw) pc_lapic pc_ioapic (\<lambda>d. fst (snd d))"
    using pc_bus_ok by (auto simp: apic_bus_ok_def pc_hw_def split: prod.splits) (metis fst_conv snd_conv)+
  ultimately show ?thesis
    by (auto simp: hw_ok_def pc_hw_def split: prod.splits)
qed


definition quiet_chip :: pic_chip where
  "quiet_chip = \<lparr>stage = Operational, vector_base = 0, cascade = 0, icw4 = 0, imr = 0xB8, isr = {}\<rparr>"

definition pc_machine :: "pc_devices machine" where
  "pc_machine =
     \<lparr>kio = \<lparr>scancode_queue = once_uninit, kb_waker = aw_new,
             ready_queue = \<lparr>head = 0, tail = 0, buffer = [None]\<rparr>, metrics = monitor_new, console = []\<rparr>,
      trace = trace_init TRACE, apic = apic_globals_new, if_flag = True,
      devices = ((quiet_chip\<lparr>isr := {1}\<rparr>, quiet_chip), pc_dev, 0x1E)\<rparr>"


subsection \<open>The legacy vectors\<close>

text \<open>
  Legacy vectors.  After the kernel has initialised the two 8259 chips, each of their sixteen lines
  has its own vector from 32 to 47, above those of the processor's exceptions; line 0 reaches the
  timer handler and line 1 the keyboard handler, and the interrupt masks are what they were.
\<close>

lemma pic_initialize_vectors:
  assumes bus: "pic_bus_ok bus chips" and op: "stage (fst (chips d)) = Operational" "stage (snd (chips d)) = Operational"
  shows "\<exists>c1 c2. chips (pic_initialize bus PICS d) = (c1, c2) \<and> stage c1 = Operational \<and> stage c2 = Operational \<and>
    imr c1 = imr (fst (chips d)) \<and> imr c2 = imr (snd (chips d)) \<and> cascade c1 = 4 \<and> cascade c2 = 2 \<and>
    map (\<lambda>i. unat (vector_base c1 + of_nat i)) [0..<8] @ map (\<lambda>i. unat (vector_base c2 + of_nat i)) [0..<8] = [32..<48] \<and>
    IDT hw tsc frame (vector_base c1) = Some (timer_interrupt_handler hw tsc) \<and>
    IDT hw tsc frame (vector_base c1 + 1) = Some (keyboard_interrupt_handler hw)"
proof -
  have "chips (pic_initialize bus PICS d) =
    (\<lparr>stage = Operational, vector_base = 32, cascade = 4, icw4 = 1, imr = imr (fst (chips d)), isr = {}\<rparr>,
     \<lparr>stage = Operational, vector_base = 40, cascade = 2, icw4 = 1, imr = imr (snd (chips d)), isr = {}\<rparr>)"
    using pic_initialize_chips [OF bus op, of 32 40] by (simp add: PICS_def PIC_1_OFFSET_def PIC_2_OFFSET_def)
  moreover have "map (\<lambda>i. unat ((32 :: u8) + of_nat i)) [0..<8] @ map (\<lambda>i. unat ((40 :: u8) + of_nat i)) [0..<8] = [32..<48]"
    by code_simp
  ultimately show ?thesis
    by (simp add: IDT_def PIC_1_OFFSET_def)
qed

lemma pic_initialize_vectors_witness:
  "\<exists>c1 c2. pic_initialize pic_pair_bus PICS (quiet_chip, quiet_chip) = (c1, c2) \<and> imr c1 = 0xB8 \<and>
     IDT pc_hw 0 [] (vector_base c1 + 1) = Some (keyboard_interrupt_handler pc_hw)"
  using pic_initialize_vectors [OF pic_pair_bus_ok, of "(quiet_chip, quiet_chip)" pc_hw 0 "[]"]
  by (auto simp: quiet_chip_def)

text \<open>
  No handler is installed for the spurious vector 255 given to the local APIC, nor for those of the
  spurious lines 7 and 15 of the 8259 chips.
\<close>

lemma spurious_vectors_unhandled:
  "IDT hw tsc frame 0xFF = None \<and> IDT hw tsc frame (PIC_1_OFFSET + 7) = None \<and> IDT hw tsc frame (PIC_2_OFFSET + 7) = None"
  by (simp add: IDT_def PIC_1_OFFSET_def PIC_2_OFFSET_def)

subsection \<open>Switching controllers\<close>

lemma mmio_chips:
  assumes "hw_ok hw chips lbase iobase dev"
  shows "mmio_read chk (mmio hw) a d = Some (v, d') \<Longrightarrow> chips d' = chips d"
    and "mmio_write chk (mmio hw) a v d = Some d' \<Longrightarrow> chips d' = chips d"
  using hw_okD(3,4) [OF assms] by (auto simp: mmio_read_def mmio_write_def split: bind_splits) (metis snd_conv)+

lemma apic_ops_chips:
  assumes hw: "hw_ok hw chips lbase iobase dev"
  shows "lapic_read chk (mmio hw) b off d = Some (v, d') \<Longrightarrow> chips d' = chips d"
    and "lapic_write chk (mmio hw) b off v d = Some d' \<Longrightarrow> chips d' = chips d"
    and "read_reg chk (mmio hw) b i d = Some (v, d') \<Longrightarrow> chips d' = chips d"
    and "write_reg chk (mmio hw) b i v d = Some d' \<Longrightarrow> chips d' = chips d"
  using mmio_chips [OF hw]
  by (auto simp: lapic_read_def lapic_write_def read_reg_def write_reg_def bind_eq_Some_conv)

lemma apic_parts_chips:
  assumes hw: "hw_ok hw chips lbase iobase dev"
  shows "lapic_id chk (mmio hw) b d = Some (v, d') \<Longrightarrow> chips d' = chips d"
    and "lapic_version chk (mmio hw) b d = Some (v, d') \<Longrightarrow> chips d' = chips d"
    and "lapic_enable chk (mmio hw) b w d = Some d' \<Longrightarrow> chips d' = chips d"
    and "ioapic_new chk (mmio hw) b gb d = Some (ioa, d') \<Longrightarrow> chips d' = chips d"
    and "set_irq chk (mmio hw) ioa pin vec d = Some d' \<Longrightarrow> chips d' = chips d"
  using apic_ops_chips [OF hw]
  by (auto simp: lapic_id_def lapic_version_def lapic_enable_def ioapic_new_def set_irq_def Let_def bind_eq_Some_conv)

lemma apic_init_chips:
  assumes hw: "hw_ok hw chips lbase iobase dev"
    and init: "apic_init chk (mmio hw) info phys_offset (g, d) = Some (ok, g', d')"
  shows "chips d' = chips d" "ok" "is_active g'" "LAPIC_EOI_PTR g' \<noteq> 0"
  using init
  by (auto simp: apic_init_def Let_def is_active_def LAPIC_EOI_def bind_eq_Some_conv dest!: apic_parts_chips [OF hw])




end
