(* ===== verification/Framebuffer.thy ===== *)
theory Framebuffer
  imports Font
begin

text \<open>
  \<^verbatim>\<open>kernel/src/framebuffer.rs\<close>: text output on the frame buffer, with its cursor, scrolling
  and the colour part of the ANSI escape sequences.

  The buffer is the list of its bytes.  \<^verbatim>\<open>FrameBufferInfo\<close> and \<^verbatim>\<open>PixelFormat\<close>
  come from the boot loader; of the formats other than \<^verbatim>\<open>Rgb\<close> and \<^verbatim>\<open>Bgr\<close> the
  code makes no distinction.  \<^verbatim>\<open>for\<close> loops over ranges are \<open>for_each\<close> over the
  list of indices.
\<close>

datatype pixel_format = Rgb | Bgr | OtherFormat

record frame_buffer_info =
  width :: nat
  height :: nat
  stride :: nat
  bytes_per_pixel :: nat
  pixel_fmt :: pixel_format

type_synonym rgb = "u8 \<times> u8 \<times> u8"

definition CURSOR_HEIGHT :: nat where "CURSOR_HEIGHT = 2"
definition MIN_SCALE :: u8 where "MIN_SCALE = 1"
definition MAX_SCALE :: u8 where "MAX_SCALE = 4"

definition ANSI_COLORS :: "rgb list" where
  "ANSI_COLORS =
     [(0, 0, 0), (170, 0, 0), (0, 170, 0), (170, 85, 0),
      (0, 0, 170), (170, 0, 170), (0, 170, 170), (170, 170, 170)]"

datatype escape_state = Normal | SawEsc | SawBracket | InCsi

record fb_writer =
  buffer :: "u8 list"
  info :: frame_buffer_info
  x_pos :: nat
  y_pos :: nat
  fg :: rgb
  bg :: rgb
  scale_factor :: u8
  escape_state :: escape_state
  csi_buf :: "u8 list"
  csi_pos :: nat
  cursor_shown :: bool

definition fb_new :: "u8 list \<Rightarrow> frame_buffer_info \<Rightarrow> fb_writer" where
  "fb_new buf fbi =
     \<lparr>buffer = buf, info = fbi, x_pos = 0, y_pos = 0, fg = (170, 170, 170), bg = (0, 0, 0),
      scale_factor = 1, escape_state = Normal, csi_buf = replicate 8 0, csi_pos = 0, cursor_shown = False\<rparr>"

definition cell_width :: "fb_writer \<Rightarrow> nat" where
  "cell_width fb = CHAR_WIDTH * unat (scale_factor fb)"

definition cell_height :: "fb_writer \<Rightarrow> nat" where
  "cell_height fb = CHAR_HEIGHT * unat (scale_factor fb)"

subsection \<open>Pixels\<close>

text \<open>\<^verbatim>\<open>(y * stride + x) * bytes_per_pixel\<close>\<close>

definition pixel_offset :: "frame_buffer_info \<Rightarrow> nat \<Rightarrow> nat \<Rightarrow> nat option" where
  "pixel_offset fbi x y =
     do { row \<leftarrow> umul y (stride fbi);
          i \<leftarrow> uadd row x;
          umul i (bytes_per_pixel fbi) }"

definition write_pixel :: "nat \<Rightarrow> nat \<Rightarrow> rgb \<Rightarrow> fb_writer \<Rightarrow> fb_writer option" where
  "write_pixel x y c fb =
     (if x \<ge> width (info fb) \<or> y \<ge> height (info fb) then Some fb
      else do { off \<leftarrow> pixel_offset (info fb) x y;
                e \<leftarrow> uadd off 2;
                if e \<ge> length (buffer fb) then Some fb
                else
                  (let (r, g, b) = c in
                   Some (fb\<lparr>buffer :=
                     (case pixel_fmt (info fb) of
                        Rgb \<Rightarrow> (buffer fb)[off := r, off + 1 := g, off + 2 := b]
                      | Bgr \<Rightarrow> (buffer fb)[off := b, off + 1 := g, off + 2 := r]
                      | OtherFormat \<Rightarrow> (buffer fb)[off := r, off + 1 := g, off + 2 := b])\<rparr>)) })"

text \<open>The outer option is the panic, the inner one the \<^verbatim>\<open>Option\<close> it returns.\<close>

definition read_pixel :: "nat \<Rightarrow> nat \<Rightarrow> fb_writer \<Rightarrow> rgb option option" where
  "read_pixel x y fb =
     (if x \<ge> width (info fb) \<or> y \<ge> height (info fb) then Some None
      else do { off \<leftarrow> pixel_offset (info fb) x y;
                e \<leftarrow> uadd off 2;
                if e \<ge> length (buffer fb) then Some None
                else
                  Some (Some
                    (case pixel_fmt (info fb) of
                       Rgb \<Rightarrow> (buffer fb ! off, buffer fb ! (off + 1), buffer fb ! (off + 2))
                     | Bgr \<Rightarrow> (buffer fb ! (off + 2), buffer fb ! (off + 1), buffer fb ! off)
                     | OtherFormat \<Rightarrow> (buffer fb ! off, buffer fb ! (off + 1), buffer fb ! (off + 2)))) })"

definition glyph_index :: "u8 \<Rightarrow> nat" where
  "glyph_index c =
     (if c \<ge> of_nat FONT_OFFSET \<and> c < of_nat (FONT_OFFSET + FALLBACK_INDEX) then unat (c - of_nat FONT_OFFSET)
      else FALLBACK_INDEX)"

definition draw_char :: "nat \<Rightarrow> nat \<Rightarrow> u8 \<Rightarrow> fb_writer \<Rightarrow> fb_writer option" where
  "draw_char x y c fb =
     (let glyph_start = glyph_index c * CHAR_HEIGHT;
          s = unat (scale_factor fb)
      in for_each (\<lambda>row fb.
           (let glyph_byte = FONT_BASIC ! (glyph_start + row) in
            for_each (\<lambda>col fb.
              (let color = (if glyph_byte AND push_bit (7 - col) 1 \<noteq> 0 then fg fb else bg fb) in
               for_each (\<lambda>sy. for_each (\<lambda>sx fb.
                   do { px \<leftarrow> uadd x (col * s + sx);
                        py \<leftarrow> uadd y (row * s + sy);
                        write_pixel px py color fb })
                 [0..<s]) [0..<s] fb))
            [0..<CHAR_WIDTH] fb))
          [0..<CHAR_HEIGHT] fb)"

subsection \<open>Rows\<close>

definition clear_row :: "nat \<Rightarrow> fb_writer \<Rightarrow> fb_writer option" where
  "clear_row y fb =
     do { a \<leftarrow> umul y (stride (info fb));
          row_start \<leftarrow> umul a (bytes_per_pixel (info fb));
          y' \<leftarrow> uadd y (cell_height fb);
          e \<leftarrow> umul y' (stride (info fb));
          row_end \<leftarrow> umul e (bytes_per_pixel (info fb));
          if row_end \<le> length (buffer fb)
          then Some (fb\<lparr>buffer := take row_start (buffer fb) @ replicate (row_end - row_start) 0 @ drop row_end (buffer fb)\<rparr>)
          else Some fb }"

definition scroll_up :: "fb_writer \<Rightarrow> fb_writer option" where
  "scroll_up fb =
     do { row \<leftarrow> umul (stride (info fb)) (bytes_per_pixel (info fb));
          bytes_per_char_row \<leftarrow> umul row (cell_height fb);
          rows \<leftarrow> umul (height (info fb)) (stride (info fb));
          total_bytes \<leftarrow> umul rows (bytes_per_pixel (info fb));
          if total_bytes \<le> bytes_per_char_row then Some fb
          else do { require (total_bytes \<le> length (buffer fb));
                    let clear_start = total_bytes - bytes_per_char_row;
                    let buf = drop bytes_per_char_row (take total_bytes (buffer fb)) @ drop clear_start (buffer fb);
                    let buf = take clear_start buf @ replicate bytes_per_char_row 0 @ drop total_bytes buf;
                    Some (fb\<lparr>buffer := buf\<rparr>) } }"

definition new_line :: "fb_writer \<Rightarrow> fb_writer option" where
  "new_line fb =
     (let ch = cell_height fb in
      do { y \<leftarrow> uadd (y_pos fb) ch;
           let fb = fb\<lparr>y_pos := y, x_pos := 0\<rparr>;
           b \<leftarrow> uadd y ch;
           if b > height (info fb) then
             do { fb \<leftarrow> scroll_up fb;
                  y \<leftarrow> usub (y_pos fb) ch;
                  Some (fb\<lparr>y_pos := y\<rparr>) }
           else Some fb })"

subsection \<open>Colours\<close>

text \<open>
  \<^verbatim>\<open>str::parse::<u32>\<close> on a string of digits; \<^verbatim>\<open>None\<close> for an empty string and on overflow.
\<close>

definition parse_u32 :: "u8 list \<Rightarrow> nat option" where
  "parse_u32 ds =
     (if ds = [] \<or> (\<exists>d \<in> set ds. d < 0x30 \<or> d > 0x39) then None
      else (let n = foldl (\<lambda>n d. 10 * n + (unat d - 0x30)) 0 ds in if n < 2 ^ 32 then Some n else None))"

text \<open>
  The buffer of the escape sequence only holds digits and semicolons, so it is valid UTF-8; the
  first part of the split at semicolons counts.
\<close>

definition sgr_param :: "fb_writer \<Rightarrow> nat" where
  "sgr_param fb =
     (case parse_u32 (takeWhile (\<lambda>b. b \<noteq> 0x3B) (take (csi_pos fb) (csi_buf fb))) of Some n \<Rightarrow> n | None \<Rightarrow> 0)"

definition apply_sgr :: "fb_writer \<Rightarrow> fb_writer" where
  "apply_sgr fb =
     (let param = sgr_param fb in
      if param = 0 then fb\<lparr>fg := (170, 170, 170), bg := (0, 0, 0)\<rparr>
      else if 30 \<le> param \<and> param \<le> 37 then fb\<lparr>fg := ANSI_COLORS ! (param - 30)\<rparr>
      else if 40 \<le> param \<and> param \<le> 47 then fb\<lparr>bg := ANSI_COLORS ! (param - 40)\<rparr>
      else fb)"

subsection \<open>Cursor\<close>

text \<open>The loop shared by \<^verbatim>\<open>erase_cursor\<close> and \<^verbatim>\<open>draw_cursor\<close>.\<close>

definition paint_cursor :: "rgb \<Rightarrow> fb_writer \<Rightarrow> fb_writer option" where
  "paint_cursor color fb =
     (let cw = cell_width fb; ch = cell_height fb;
          cursor_h = CURSOR_HEIGHT * unat (scale_factor fb)
      in do { b \<leftarrow> uadd (y_pos fb) ch;
              cursor_y \<leftarrow> usub b cursor_h;
              for_each (\<lambda>y. for_each (\<lambda>x fb.
                  do { px \<leftarrow> uadd (x_pos fb) x;
                       py \<leftarrow> uadd cursor_y y;
                       write_pixel px py color fb }) [0..<cw]) [0..<cursor_h] fb })"

definition erase_cursor :: "fb_writer \<Rightarrow> fb_writer option" where
  "erase_cursor fb =
     (if \<not> cursor_shown fb then Some fb
      else do { fb \<leftarrow> paint_cursor (bg fb) fb; Some (fb\<lparr>cursor_shown := False\<rparr>) })"

definition draw_cursor :: "fb_writer \<Rightarrow> fb_writer option" where
  "draw_cursor fb =
     (if cursor_shown fb then Some fb
      else do { fb \<leftarrow> paint_cursor (fg fb) fb; Some (fb\<lparr>cursor_shown := True\<rparr>) })"

subsection \<open>Bytes and strings\<close>

definition is_csi_byte :: "u8 \<Rightarrow> bool" where
  "is_csi_byte byte \<longleftrightarrow> (0x30 \<le> byte \<and> byte \<le> 0x39) \<or> byte = 0x3B"

definition write_normal :: "u8 \<Rightarrow> fb_writer \<Rightarrow> fb_writer option" where
  "write_normal byte fb =
     (let cw = cell_width fb in
      if byte = 0x1B then Some (fb\<lparr>escape_state := SawEsc\<rparr>)
      else if byte = 0x0A then
        do { fb \<leftarrow> erase_cursor fb; fb \<leftarrow> new_line fb; draw_cursor fb }
      else if byte = 0x08 then
        do { fb \<leftarrow> erase_cursor fb;
             let fb = (if x_pos fb \<ge> cw then fb\<lparr>x_pos := x_pos fb - cw\<rparr> else fb);
             draw_cursor fb }
      else
        do { e \<leftarrow> uadd (x_pos fb) cw;
             fb \<leftarrow> (if e > width (info fb) then do { fb \<leftarrow> erase_cursor fb; new_line fb } else Some fb);
             fb \<leftarrow> draw_char (x_pos fb) (y_pos fb) byte fb;
             let fb = fb\<lparr>cursor_shown := False\<rparr>;
             x \<leftarrow> uadd (x_pos fb) cw;
             draw_cursor (fb\<lparr>x_pos := x\<rparr>) })"

definition write_byte :: "u8 \<Rightarrow> fb_writer \<Rightarrow> fb_writer option" where
  "write_byte byte fb =
     (case escape_state fb of
        Normal \<Rightarrow> write_normal byte fb
      | SawEsc \<Rightarrow> Some (fb\<lparr>escape_state := (if byte = 0x5B then SawBracket else Normal)\<rparr>)
      | SawBracket \<Rightarrow>
          Some (if is_csi_byte byte then fb\<lparr>escape_state := InCsi, csi_buf := (csi_buf fb)[0 := byte], csi_pos := 1\<rparr>
                else fb\<lparr>escape_state := Normal\<rparr>)
      | InCsi \<Rightarrow>
          Some (if is_csi_byte byte \<and> csi_pos fb < length (csi_buf fb)
                then fb\<lparr>csi_buf := (csi_buf fb)[csi_pos fb := byte], csi_pos := csi_pos fb + 1\<rparr>
                else if byte = 0x6D then (apply_sgr fb)\<lparr>escape_state := Normal\<rparr>
                else fb\<lparr>escape_state := Normal\<rparr>))"

definition printable :: "u8 \<Rightarrow> bool" where
  "printable byte \<longleftrightarrow> (0x20 \<le> byte \<and> byte \<le> 0x7E) \<or> byte = 0x0A \<or> byte = 0x08 \<or> byte = 0x1B"

definition write_string :: "u8 list \<Rightarrow> fb_writer \<Rightarrow> fb_writer option" where
  "write_string s fb = for_each (\<lambda>byte. write_byte (if printable byte then byte else 0xFE)) s fb"

definition cursor_position :: "fb_writer \<Rightarrow> nat \<times> nat" where
  "cursor_position fb = (x_pos fb, y_pos fb)"

definition dimensions :: "fb_writer \<Rightarrow> nat \<times> nat" where
  "dimensions fb = (width (info fb), height (info fb))"

definition clear_screen :: "fb_writer \<Rightarrow> fb_writer option" where
  "clear_screen fb =
     draw_cursor (fb\<lparr>buffer := replicate (length (buffer fb)) 0, x_pos := 0, y_pos := 0, cursor_shown := False\<rparr>)"

definition set_cursor :: "nat \<Rightarrow> nat \<Rightarrow> fb_writer \<Rightarrow> fb_writer option" where
  "set_cursor x y fb = do { fb \<leftarrow> erase_cursor fb; draw_cursor (fb\<lparr>x_pos := x, y_pos := y\<rparr>) }"

definition scale_up :: "fb_writer \<Rightarrow> (bool \<times> fb_writer) option" where
  "scale_up fb =
     (if scale_factor fb \<ge> MAX_SCALE then Some (False, fb)
      else do { fb \<leftarrow> clear_screen (fb\<lparr>scale_factor := scale_factor fb + 1\<rparr>); Some (True, fb) })"

definition scale_down :: "fb_writer \<Rightarrow> (bool \<times> fb_writer) option" where
  "scale_down fb =
     (if scale_factor fb \<le> MIN_SCALE then Some (False, fb)
      else do { fb \<leftarrow> clear_screen (fb\<lparr>scale_factor := scale_factor fb - 1\<rparr>); Some (True, fb) })"

subsection \<open>The global writer\<close>

definition fb_init :: "u8 list \<Rightarrow> frame_buffer_info \<Rightarrow> fb_writer option option" where
  "fb_init buf fbi = do { fb \<leftarrow> clear_screen (fb_new buf fbi); Some (Some fb) }"

definition with_framebuffer_mut :: "(fb_writer \<Rightarrow> ('r \<times> fb_writer) option) \<Rightarrow> fb_writer option \<Rightarrow> ('r option \<times> fb_writer option) option" where
  "with_framebuffer_mut f g =
     (case g of
        None \<Rightarrow> Some (None, None)
      | Some fb \<Rightarrow> do { (r, fb) \<leftarrow> f fb; Some (Some r, Some fb) })"

definition fb_print :: "u8 list \<Rightarrow> fb_writer option \<Rightarrow> fb_writer option option" where
  "fb_print s g =
     (case g of
        None \<Rightarrow> Some None
      | Some fb \<Rightarrow> do { fb \<leftarrow> write_string s fb; Some (Some fb) })"

definition fb_scale_up :: "fb_writer option \<Rightarrow> (bool \<times> fb_writer option) option" where
  "fb_scale_up g = do { (r, g) \<leftarrow> with_framebuffer_mut scale_up g; Some (case r of Some b \<Rightarrow> b | None \<Rightarrow> False, g) }"

definition fb_scale_down :: "fb_writer option \<Rightarrow> (bool \<times> fb_writer option) option" where
  "fb_scale_down g = do { (r, g) \<leftarrow> with_framebuffer_mut scale_down g; Some (case r of Some b \<Rightarrow> b | None \<Rightarrow> False, g) }"

end
