(* ===== verification/Framebuffer_Props.thy ===== *)
theory Framebuffer_Props
  imports Framebuffer
begin

text \<open>
  The frame buffer writer as a screen: the buffer read as a matrix of colours, the effect of each
  drawing operation on it, and the invariant that keeps the cursor on the screen and every access in
  the buffer.
\<close>

subsection \<open>Geometry\<close>

definition geometry_ok :: "frame_buffer_info \<Rightarrow> nat \<Rightarrow> bool" where
  "geometry_ok fbi len \<longleftrightarrow>
     3 \<le> bytes_per_pixel fbi \<and> 0 < width fbi \<and> width fbi \<le> stride fbi \<and> 0 < height fbi \<and>
     height fbi * stride fbi * bytes_per_pixel fbi \<le> len \<and> len < 2 ^ 56"

definition px_off :: "frame_buffer_info \<Rightarrow> nat \<Rightarrow> nat \<Rightarrow> nat" where
  "px_off fbi x y = (y * stride fbi + x) * bytes_per_pixel fbi"

lemma px_off_bound:
  assumes "geometry_ok fbi len" "x < width fbi" "y < height fbi"
  shows "px_off fbi x y + bytes_per_pixel fbi \<le> len"
proof -
  have "y * stride fbi + x + 1 \<le> (y + 1) * stride fbi"
    using assms by (simp add: geometry_ok_def)
  also have "\<dots> \<le> height fbi * stride fbi"
    using assms(3) by (intro mult_le_mono1) simp
  finally have "(y * stride fbi + x + 1) * bytes_per_pixel fbi \<le> height fbi * stride fbi * bytes_per_pixel fbi"
    by (rule mult_le_mono1)
  then show ?thesis
    using assms(1) by (simp add: geometry_ok_def px_off_def algebra_simps)
qed

lemma geometry_small:
  assumes "geometry_ok fbi len"
  shows "height fbi < 2 ^ 56" "stride fbi * bytes_per_pixel fbi < 2 ^ 56" "width fbi < 2 ^ 56"
    "height fbi * stride fbi < 2 ^ 56"
proof -
  have t: "height fbi * stride fbi * bytes_per_pixel fbi < 2 ^ 56"
      "0 < height fbi" "0 < stride fbi" "0 < bytes_per_pixel fbi" "width fbi \<le> stride fbi"
    using assms by (auto simp: geometry_ok_def)
  have "height fbi * 1 * 1 \<le> height fbi * stride fbi * bytes_per_pixel fbi"
    using t by (intro mult_le_mono) auto
  with t show "height fbi < 2 ^ 56" by linarith
  have "stride fbi * bytes_per_pixel fbi \<le> height fbi * stride fbi * bytes_per_pixel fbi"
    using t mult_le_mono1 [of 1 "height fbi" "stride fbi * bytes_per_pixel fbi"] by (simp add: mult.assoc)
  from this t(1) show sb: "stride fbi * bytes_per_pixel fbi < 2 ^ 56"
    by (rule le_less_trans)
  have "stride fbi * 1 \<le> stride fbi * bytes_per_pixel fbi"
    using t by (intro mult_le_mono2) auto
  with sb t show "width fbi < 2 ^ 56" by linarith
  have "height fbi * stride fbi * 1 \<le> height fbi * stride fbi * bytes_per_pixel fbi"
    using t by (intro mult_le_mono2) auto
  with t show "height fbi * stride fbi < 2 ^ 56" by linarith
qed

lemma pixel_offset_eq:
  assumes "geometry_ok fbi len" "x < width fbi" "y < height fbi"
  shows "pixel_offset fbi x y = Some (px_off fbi x y)" "px_off fbi x y + 2 < len"
proof -
  have b: "px_off fbi x y + bytes_per_pixel fbi \<le> len" "3 \<le> bytes_per_pixel fbi" "len < 2 ^ 56"
    using px_off_bound [OF assms] assms(1) by (auto simp: geometry_ok_def)
  then show "px_off fbi x y + 2 < len" by linarith
  have "y * stride fbi + x \<le> px_off fbi x y"
    using b(2) mult_le_mono2 [of 1 "bytes_per_pixel fbi" "y * stride fbi + x"] by (simp add: px_off_def)
  then have "y * stride fbi + x < 2 ^ 56"
    using b by linarith
  then show "pixel_offset fbi x y = Some (px_off fbi x y)"
    using b by (simp add: pixel_offset_def uadd_def umul_def px_off_def)
qed

lemma px_off_apart:
  assumes "geometry_ok fbi len" "x < width fbi" "x' < width fbi" "(x, y) \<noteq> (x', y')"
  shows "px_off fbi x y + 3 \<le> px_off fbi x' y' \<or> px_off fbi x' y' + 3 \<le> px_off fbi x y"
proof -
  define n m where "n = y * stride fbi + x" and "m = y' * stride fbi + x'"
  have st: "x < stride fbi" "x' < stride fbi" "3 \<le> bytes_per_pixel fbi"
    using assms by (auto simp: geometry_ok_def)
  have "n \<noteq> m"
  proof
    assume "n = m"
    then have "n div stride fbi = m div stride fbi" "n mod stride fbi = m mod stride fbi"
      by simp_all
    with st assms(4) show False
      by (simp add: n_def m_def)
  qed
  moreover have "i * bytes_per_pixel fbi + 3 \<le> j * bytes_per_pixel fbi" if "i < j" for i j :: nat
  proof -
    have "(i + 1) * bytes_per_pixel fbi \<le> j * bytes_per_pixel fbi"
      using that by (intro mult_le_mono1) simp
    with st(3) show ?thesis by simp
  qed
  ultimately show ?thesis
    unfolding px_off_def n_def [symmetric] m_def [symmetric] by (cases n m rule: linorder_cases) auto
qed

subsection \<open>The screen\<close>

definition pix :: "fb_writer \<Rightarrow> nat \<Rightarrow> nat \<Rightarrow> rgb" where
  "pix fb x y =
     (let off = px_off (info fb) x y; b0 = buffer fb ! off; b1 = buffer fb ! (off + 1); b2 = buffer fb ! (off + 2)
      in if pixel_fmt (info fb) = Bgr then (b2, b1, b0) else (b0, b1, b2))"

definition on_screen :: "fb_writer \<Rightarrow> nat \<Rightarrow> nat \<Rightarrow> bool" where
  "on_screen fb x y \<longleftrightarrow> x < width (info fb) \<and> y < height (info fb)"

abbreviation fb_geom :: "fb_writer \<Rightarrow> bool" where
  "fb_geom fb \<equiv> geometry_ok (info fb) (length (buffer fb))"

text \<open>
  \<open>fb'\<close> is \<open>fb\<close> up to the contents of the buffer, and with the pixels of \<open>S\<close>
  painted by \<open>f\<close>.
\<close>

definition same_frame :: "fb_writer \<Rightarrow> fb_writer \<Rightarrow> bool" where
  "same_frame fb fb' \<longleftrightarrow> (\<exists>b. fb' = fb\<lparr>buffer := b\<rparr> \<and> length b = length (buffer fb))"

definition drawn :: "(nat \<times> nat) set \<Rightarrow> (nat \<times> nat \<Rightarrow> rgb) \<Rightarrow> fb_writer \<Rightarrow> fb_writer \<Rightarrow> bool" where
  "drawn S f fb fb' \<longleftrightarrow>
     same_frame fb fb' \<and>
     (\<forall>x y. on_screen fb x y \<longrightarrow> pix fb' x y = (if (x, y) \<in> S then f (x, y) else pix fb x y))"

lemma read_pixel_pix:
  assumes "fb_geom fb"
  shows "read_pixel x y fb = Some (if on_screen fb x y then Some (pix fb x y) else None)"
proof (cases "on_screen fb x y")
  case True
  then show ?thesis
    using pixel_offset_eq [OF assms, of x y] assms
    by (cases "pixel_fmt (info fb)")
      (auto simp: read_pixel_def on_screen_def pix_def Let_def uadd_def geometry_ok_def)
qed (auto simp: read_pixel_def on_screen_def)

lemma fb_frame_refl: "same_frame fb fb"
  by (auto simp: same_frame_def intro: exI [of _ "buffer fb"])

lemma fb_frame_trans: "same_frame fb fb' \<Longrightarrow> same_frame fb' fb'' \<Longrightarrow> same_frame fb fb''"
  by (auto simp: same_frame_def)

lemma drawn_same_frame: "drawn S f fb fb' \<Longrightarrow> same_frame fb fb'"
  by (simp add: drawn_def)

lemma drawn_refl: "drawn {} f fb fb"
  by (simp add: drawn_def fb_frame_refl)

lemma same_frame_fields:
  assumes "same_frame fb fb'"
  shows "info fb' = info fb" "length (buffer fb') = length (buffer fb)" "x_pos fb' = x_pos fb" "y_pos fb' = y_pos fb"
    "fg fb' = fg fb" "bg fb' = bg fb" "scale_factor fb' = scale_factor fb" "escape_state fb' = escape_state fb"
    "csi_buf fb' = csi_buf fb" "csi_pos fb' = csi_pos fb" "cursor_shown fb' = cursor_shown fb"
    "on_screen fb' = on_screen fb"
  using assms by (auto simp: same_frame_def on_screen_def fun_eq_iff)

lemmas drawn_fields = same_frame_fields [OF drawn_same_frame]

lemma drawn_pix: "drawn S f fb fb' \<Longrightarrow> on_screen fb x y \<Longrightarrow> pix fb' x y = (if (x, y) \<in> S then f (x, y) else pix fb x y)"
  by (simp add: drawn_def)

lemma drawn_trans:
  assumes "drawn S f fb fb'" "drawn T f fb' fb''"
  shows "drawn (S \<union> T) f fb fb''"
  using fb_frame_trans [OF assms [THEN drawn_same_frame]]
    drawn_pix [OF assms(1)] drawn_pix [OF assms(2)] drawn_fields(12) [OF assms(1)]
  by (auto simp: drawn_def)

lemma write_pixel_drawn:
  assumes "fb_geom fb"
  shows "\<exists>fb'. write_pixel x y c fb = Some fb' \<and> drawn {(x, y)} (\<lambda>_. c) fb fb'"
proof (cases "on_screen fb x y")
  case False
  then have "write_pixel x y c fb = Some fb"
    by (auto simp: write_pixel_def on_screen_def)
  moreover have "drawn {(x, y)} (\<lambda>_. c) fb fb"
    using False by (auto simp: drawn_def fb_frame_refl)
  ultimately show ?thesis by blast
next
  case True
  obtain r g b where c: "c = (r, g, b)"
    by (cases c)
  let ?off = "px_off (info fb) x y"
  let ?buf = "if pixel_fmt (info fb) = Bgr then (buffer fb)[?off := b, ?off + 1 := g, ?off + 2 := r]
    else (buffer fb)[?off := r, ?off + 1 := g, ?off + 2 := b]"
  have off: "pixel_offset (info fb) x y = Some ?off" "?off + 2 < length (buffer fb)"
    using pixel_offset_eq [OF assms] True by (auto simp: on_screen_def)
  have "write_pixel x y c fb = Some (fb\<lparr>buffer := ?buf\<rparr>)"
    using True off assms
    by (cases "pixel_fmt (info fb)") (auto simp: write_pixel_def on_screen_def c uadd_def geometry_ok_def)
  moreover have "drawn {(x, y)} (\<lambda>_. c) fb (fb\<lparr>buffer := ?buf\<rparr>)"
  proof -
    have "pix (fb\<lparr>buffer := ?buf\<rparr>) x' y' = (if (x', y') = (x, y) then c else pix fb x' y')"
      if "on_screen fb x' y'" for x' y'
    proof (cases "(x', y') = (x, y)")
      case True
      then show ?thesis
        using off(2) by (auto simp: pix_def Let_def c nth_list_update)
    next
      case False
      then have "?off + 3 \<le> px_off (info fb) x' y' \<or> px_off (info fb) x' y' + 3 \<le> ?off"
        using px_off_apart [OF assms, of x x' y y'] True that by (auto simp: on_screen_def)
      with False show ?thesis
        by (auto simp: pix_def Let_def)
    qed
    then show ?thesis
      by (auto simp: drawn_def same_frame_def)
  qed
  ultimately show ?thesis by blast
qed

text \<open>A loop whose passes paint parts of the screen paints their union.\<close>

lemma for_each_drawn:
  assumes "\<And>i fb'. i \<in> set is \<Longrightarrow> same_frame fb fb' \<Longrightarrow> \<exists>fb''. body i fb' = Some fb'' \<and> drawn (S i) f fb' fb''"
  shows "\<exists>fb'. for_each body is fb = Some fb' \<and> drawn (\<Union>i \<in> set is. S i) f fb fb'"
  using assms
proof (induction "is" arbitrary: fb)
  case Nil
  then show ?case
    using drawn_refl by auto
next
  case (Cons i js)
  obtain fb1 where fb1: "body i fb = Some fb1" "drawn (S i) f fb fb1"
    using Cons.prems [of i fb] fb_frame_refl by auto
  have "\<exists>fb'. for_each body js fb1 = Some fb' \<and> drawn (\<Union>i \<in> set js. S i) f fb1 fb'"
  proof (rule Cons.IH)
    show "\<exists>fb''. body j fb' = Some fb'' \<and> drawn (S j) f fb' fb''" if "j \<in> set js" "same_frame fb1 fb'" for j fb'
      using Cons.prems [of j fb'] that fb_frame_trans [OF drawn_same_frame [OF fb1(2)] that(2)] by simp
  qed
  then obtain fb2 where "for_each body js fb1 = Some fb2" "drawn (\<Union>i \<in> set js. S i) f fb1 fb2"
    by blast
  then show ?case
    using fb1 drawn_trans [OF fb1(2)] by auto
qed

subsection \<open>Characters and cursor\<close>

lemma for_each_upt_drawn:
  assumes "\<And>i fb'. i < n \<Longrightarrow> same_frame fb fb' \<Longrightarrow> \<exists>fb''. body i fb' = Some fb'' \<and> drawn (S i) f fb' fb''"
  shows "\<exists>fb'. for_each body [0..<n] fb = Some fb' \<and> drawn (\<Union>i < n. S i) f fb fb'"
  using for_each_drawn [of "[0..<n]" fb body S f] assms by (simp add: atLeast0LessThan)

lemma drawn_cong: "drawn S f fb fb' \<Longrightarrow> (\<And>p. p \<in> S \<Longrightarrow> f p = g p) \<Longrightarrow> drawn S g fb fb'"
  by (auto simp: drawn_def)

definition scale_ok :: "fb_writer \<Rightarrow> bool" where
  "scale_ok fb \<longleftrightarrow> 1 \<le> unat (scale_factor fb) \<and> unat (scale_factor fb) \<le> 4"

text \<open>The colour of a pixel of the cell at \<open>(x, y)\<close> that shows \<open>c\<close>.\<close>

definition glyph_color :: "fb_writer \<Rightarrow> nat \<Rightarrow> nat \<Rightarrow> u8 \<Rightarrow> nat \<times> nat \<Rightarrow> rgb" where
  "glyph_color fb x y c =
     (\<lambda>(px, py). let s = unat (scale_factor fb); row = (py - y) div s; col = (px - x) div s
       in if FONT_BASIC ! (glyph_index c * CHAR_HEIGHT + row) AND push_bit (7 - col) 1 \<noteq> 0 then fg fb else bg fb)"

definition cell :: "fb_writer \<Rightarrow> nat \<Rightarrow> nat \<Rightarrow> (nat \<times> nat) set" where
  "cell fb x y = {x..<x + cell_width fb} \<times> {y..<y + cell_height fb}"

definition cursor_bar :: "fb_writer \<Rightarrow> (nat \<times> nat) set" where
  "cursor_bar fb =
     {x_pos fb..<x_pos fb + cell_width fb} \<times>
     {y_pos fb + cell_height fb - CURSOR_HEIGHT * unat (scale_factor fb)..<y_pos fb + cell_height fb}"

lemma scaled_range:
  assumes "0 < s"
  shows "(\<Union>i < n. \<Union>j < s. {x + (i * s + j)}) = {x..<x + n * s :: nat}"
proof (intro equalityI subsetI)
  fix p assume "p \<in> (\<Union>i < n. \<Union>j < s. {x + (i * s + j)})"
  then obtain i j where p: "i < n" "j < s" "p = x + (i * s + j)"
    by auto
  have "(i + 1) * s \<le> n * s"
    using p(1) by (intro mult_le_mono1) simp
  with p show "p \<in> {x..<x + n * s}"
    by simp
next
  fix p assume "p \<in> {x..<x + n * s}"
  then have "p = x + ((p - x) div s * s + (p - x) mod s)" "(p - x) div s < n" "(p - x) mod s < s"
    using assms by (auto simp: less_mult_imp_div_less)
  then show "p \<in> (\<Union>i < n. \<Union>j < s. {x + (i * s + j)})"
    by blast
qed

lemma scaled_index: "0 < s \<Longrightarrow> j < s \<Longrightarrow> (x + (i * s + j) - x) div s = (i :: nat)"
  by simp

lemma draw_char_drawn:
  assumes geom: "fb_geom fb" and scale: "scale_ok fb" and pos: "x < 2 ^ 60" "y < 2 ^ 60"
  shows "\<exists>fb'. draw_char x y c fb = Some fb' \<and> drawn (cell fb x y) (glyph_color fb x y c) fb fb'"
proof -
  define s where "s = unat (scale_factor fb)"
  have s: "0 < s" "s \<le> 4"
    using scale by (auto simp: s_def scale_ok_def)
  define at where "at = (\<lambda>row col sy sx. (x + (col * s + sx), y + (row * s + sy)))"
  define color where "color = (\<lambda>row col.
    if FONT_BASIC ! (glyph_index c * CHAR_HEIGHT + row) AND push_bit (7 - col) 1 \<noteq> 0 then fg fb else bg fb)"
  define body where "body = (\<lambda>row col sy sx fb'.
    do { px \<leftarrow> uadd x (col * s + sx); py \<leftarrow> uadd y (row * s + sy);
         write_pixel px py (color row col) fb' })"
  have body: "\<exists>fb''. body row col sy sx fb' = Some fb'' \<and> drawn {at row col sy sx} (glyph_color fb x y c) fb' fb''"
    if "row < 16" "col < 8" "sy < s" "sx < s" "same_frame fb fb'" for row col sy sx fb'
  proof -
    have "col * s \<le> 8 * 4" "row * s \<le> 16 * 4"
      using that s by (intro mult_le_mono; simp)+
    then have "uadd x (col * s + sx) = Some (x + (col * s + sx))" "uadd y (row * s + sy) = Some (y + (row * s + sy))"
      using that s pos by (auto simp: uadd_def)
    moreover have "fb_geom fb'"
      using geom same_frame_fields [OF that(5)] by simp
    ultimately have "\<exists>fb''. body row col sy sx fb' = Some fb'' \<and> drawn {at row col sy sx} (\<lambda>_. color row col) fb' fb''"
      using write_pixel_drawn [of fb' "x + (col * s + sx)" "y + (row * s + sy)" "color row col"]
      by (simp add: body_def at_def)
    moreover have "color row col = glyph_color fb x y c (at row col sy sx)"
      using that s by (simp add: glyph_color_def at_def color_def Let_def s_def [symmetric] scaled_index)
    ultimately show ?thesis
      using drawn_cong [of "{at row col sy sx}" "\<lambda>_. color row col"] by fastforce
  qed
  have l1: "\<exists>fb''. for_each (body row col sy) [0..<s] fb' = Some fb'' \<and>
      drawn (\<Union>sx < s. {at row col sy sx}) (glyph_color fb x y c) fb' fb''"
    if "row < 16" "col < 8" "sy < s" "same_frame fb fb'" for row col sy fb'
    using that by (intro for_each_upt_drawn body) (auto intro: fb_frame_trans)
  have l2: "\<exists>fb''. for_each (\<lambda>sy. for_each (body row col sy) [0..<s]) [0..<s] fb' = Some fb'' \<and>
      drawn (\<Union>sy < s. \<Union>sx < s. {at row col sy sx}) (glyph_color fb x y c) fb' fb''"
    if "row < 16" "col < 8" "same_frame fb fb'" for row col fb'
    using that by (intro for_each_upt_drawn l1) (auto intro: fb_frame_trans)
  define cols where "cols = (\<lambda>row col fb'.
    let color = if FONT_BASIC ! (glyph_index c * CHAR_HEIGHT + row) AND push_bit (7 - col) 1 \<noteq> 0 then fg fb' else bg fb' in
    for_each (\<lambda>sy. for_each (\<lambda>sx fb'. do { px \<leftarrow> uadd x (col * s + sx); py \<leftarrow> uadd y (row * s + sy);
      write_pixel px py color fb' }) [0..<s]) [0..<s] fb')"
  have cols: "cols row col fb' = for_each (\<lambda>sy. for_each (body row col sy) [0..<s]) [0..<s] fb'"
    if "same_frame fb fb'" for row col fb'
    using same_frame_fields [OF that] by (simp add: cols_def body_def color_def Let_def)
  have l3: "\<exists>fb''. for_each (cols row) [0..<8] fb' = Some fb'' \<and>
      drawn (\<Union>col < 8. \<Union>sy < s. \<Union>sx < s. {at row col sy sx}) (glyph_color fb x y c) fb' fb''"
    if "row < 16" "same_frame fb fb'" for row fb'
  proof (rule for_each_upt_drawn)
    fix col :: nat and fb2 assume "col < 8" "same_frame fb' fb2"
    then show "\<exists>fb''. cols row col fb2 = Some fb'' \<and> drawn (\<Union>sy < s. \<Union>sx < s. {at row col sy sx}) (glyph_color fb x y c) fb2 fb''"
      using l2 [of row col fb2] cols [of fb2] that fb_frame_trans by auto
  qed
  have "\<exists>fb'. for_each (\<lambda>row. for_each (cols row) [0..<8]) [0..<16] fb = Some fb' \<and>
      drawn (\<Union>row < 16. \<Union>col < 8. \<Union>sy < s. \<Union>sx < s. {at row col sy sx}) (glyph_color fb x y c) fb fb'"
    by (intro for_each_upt_drawn l3)
  moreover have "draw_char x y c fb = for_each (\<lambda>row. for_each (cols row) [0..<8]) [0..<16] fb"
    by (simp add: draw_char_def cols_def Let_def s_def CHAR_WIDTH_def CHAR_HEIGHT_def)
  moreover have "(\<Union>row < 16. \<Union>col < 8. \<Union>sy < s. \<Union>sx < s. {at row col sy sx}) =
      (\<Union>col < 8. \<Union>sx < s. {x + (col * s + sx)}) \<times> (\<Union>row < 16. \<Union>sy < s. {y + (row * s + sy)})"
    by (auto simp: at_def)
  moreover have "\<dots> = cell fb x y"
    unfolding scaled_range [OF s(1)] by (simp add: cell_def cell_width_def cell_height_def CHAR_WIDTH_def CHAR_HEIGHT_def s_def)
  ultimately show ?thesis
    by simp
qed

lemma paint_cursor_drawn:
  assumes geom: "fb_geom fb" and scale: "scale_ok fb" and pos: "x_pos fb < 2 ^ 60" "y_pos fb < 2 ^ 60"
  shows "\<exists>fb'. paint_cursor color fb = Some fb' \<and> drawn (cursor_bar fb) (\<lambda>_. color) fb fb'"
proof -
  define s cw ch where "s = unat (scale_factor fb)" and "cw = cell_width fb" and "ch = cell_height fb"
  define top where "top = y_pos fb + ch - 2 * s"
  have s: "0 < s" "s \<le> 4" "cw = 8 * s" "ch = 16 * s"
    using scale by (auto simp: s_def scale_ok_def cw_def ch_def cell_width_def cell_height_def CHAR_WIDTH_def CHAR_HEIGHT_def)
  define body where "body = (\<lambda>y x fb'.
    do { px \<leftarrow> uadd (x_pos fb') x; py \<leftarrow> uadd top y; write_pixel px py color fb' })"
  have body: "\<exists>fb''. body y x fb' = Some fb'' \<and> drawn {(x_pos fb + x, top + y)} (\<lambda>_. color) fb' fb''"
    if "y < 2 * s" "x < cw" "same_frame fb fb'" for x y fb'
  proof -
    have "uadd (x_pos fb') x = Some (x_pos fb + x)" "uadd top y = Some (top + y)"
      using that s pos same_frame_fields [OF that(3)] by (auto simp: uadd_def top_def)
    moreover have "fb_geom fb'"
      using geom same_frame_fields [OF that(3)] by simp
    ultimately show ?thesis
      using write_pixel_drawn [of fb' "x_pos fb + x" "top + y" color] by (simp add: body_def)
  qed
  have "\<exists>fb'. for_each (\<lambda>y. for_each (body y) [0..<cw]) [0..<2 * s] fb = Some fb' \<and>
      drawn (\<Union>y < 2 * s. \<Union>x < cw. {(x_pos fb + x, top + y)}) (\<lambda>_. color) fb fb'"
    by (intro for_each_upt_drawn body) (auto intro: fb_frame_trans)
  moreover have "paint_cursor color fb = for_each (\<lambda>y. for_each (body y) [0..<cw]) [0..<2 * s] fb"
  proof -
    have "uadd (y_pos fb) ch = Some (y_pos fb + ch)" "usub (y_pos fb + ch) (2 * s) = Some top"
      using s pos by (auto simp: uadd_def usub_def top_def)
    then show ?thesis
      by (simp add: paint_cursor_def body_def Let_def s_def cw_def ch_def CURSOR_HEIGHT_def)
  qed
  moreover have "(\<Union>y < 2 * s. \<Union>x < cw. {(x_pos fb + x, top + y)}) = cursor_bar fb"
  proof -
    have "(\<Union>x < n. {a + x}) = {a..<a + n}" for a n :: nat
      by (auto simp: le_iff_add)
    moreover have "(\<Union>y < 2 * s. \<Union>x < cw. {(x_pos fb + x, top + y)}) = (\<Union>x < cw. {x_pos fb + x}) \<times> (\<Union>y < 2 * s. {top + y})"
      by auto
    moreover have "top + 2 * s = y_pos fb + ch"
      using s by (simp add: top_def)
    ultimately show ?thesis
      by (simp add: cursor_bar_def s_def top_def cw_def ch_def CURSOR_HEIGHT_def)
  qed
  ultimately show ?thesis
    by simp
qed

subsection \<open>Scrolling\<close>

lemma scroll_buffer_nth:
  assumes "r \<le> t" "t \<le> length b"
  defines "b1 \<equiv> drop r (take t b) @ drop (t - r) b"
  defines "b2 \<equiv> take (t - r) b1 @ replicate r 0 @ drop t b1"
  shows "length b2 = length b" "i < t - r \<Longrightarrow> b2 ! i = b ! (r + i)" "t - r \<le> i \<Longrightarrow> i < t \<Longrightarrow> b2 ! i = 0"
proof -
  have len: "length (drop r (take t b)) = t - r"
    using assms by simp
  have "drop t b1 = drop t b"
    using assms(1,2) by (simp add: b1_def)
  then have b2: "b2 = drop r (take t b) @ replicate r 0 @ drop t b"
    using len by (simp add: b2_def b1_def)
  show "length b2 = length b" "i < t - r \<Longrightarrow> b2 ! i = b ! (r + i)" "t - r \<le> i \<Longrightarrow> i < t \<Longrightarrow> b2 ! i = 0"
    using assms(1,2) by (auto simp: b2 nth_append)
qed

definition scrolled :: "fb_writer \<Rightarrow> nat \<Rightarrow> nat \<Rightarrow> rgb" where
  "scrolled fb x y =
     (if height (info fb) \<le> cell_height fb then pix fb x y
      else if y + cell_height fb < height (info fb) then pix fb x (y + cell_height fb) else (0, 0, 0))"

lemma cell_height_bounds:
  assumes "scale_ok fb"
  shows "16 \<le> cell_height fb" "cell_height fb \<le> 64" "8 \<le> cell_width fb" "cell_width fb \<le> 32"
  using assms by (auto simp: scale_ok_def cell_height_def cell_width_def CHAR_HEIGHT_def CHAR_WIDTH_def)

text \<open>A pixel lies in the bytes of its row, and rows follow each other.\<close>

lemma px_off_row:
  assumes "geometry_ok fbi len" "x < width fbi"
  defines "W \<equiv> stride fbi * bytes_per_pixel fbi"
  shows "y * W \<le> px_off fbi x y" "px_off fbi x y + 3 \<le> (y + 1) * W" "px_off fbi x (y + k) = W * k + px_off fbi x y"
proof -
  have off: "px_off fbi x y = y * W + x * bytes_per_pixel fbi" "3 \<le> bytes_per_pixel fbi"
    using assms(1) by (auto simp: px_off_def W_def algebra_simps geometry_ok_def)
  have "(x + 1) * bytes_per_pixel fbi \<le> W"
    unfolding W_def using assms(1,2) by (intro mult_le_mono1) (auto simp: geometry_ok_def)
  then show "y * W \<le> px_off fbi x y" "px_off fbi x y + 3 \<le> (y + 1) * W"
    using off by (simp_all add: algebra_simps)
  show "px_off fbi x (y + k) = W * k + px_off fbi x y"
    by (simp add: px_off_def W_def algebra_simps)
qed

lemma scroll_up_scrolled:
  assumes geom: "fb_geom fb" and scale: "scale_ok fb"
  shows "\<exists>fb'. scroll_up fb = Some fb' \<and> same_frame fb fb' \<and> (\<forall>x y. on_screen fb x y \<longrightarrow> pix fb' x y = scrolled fb x y)"
proof -
  define W h ch where "W = stride (info fb) * bytes_per_pixel (info fb)" and "h = height (info fb)" and "ch = cell_height fb"
  have small: "W < 2 ^ 56" "h * stride (info fb) < 2 ^ 56" "h * W \<le> length (buffer fb)" "length (buffer fb) < 2 ^ 56"
    using geometry_small [OF geom] geom by (auto simp: W_def h_def geometry_ok_def mult.assoc)
  have W: "0 < W"
    using geom by (auto simp: W_def geometry_ok_def)
  have "W * ch \<le> W * 64"
    using cell_height_bounds [OF scale] by (simp add: ch_def)
  moreover have "W * 64 < usize_bound"
    using small(1) by simp
  ultimately have "W * ch < usize_bound"
    by (rule le_less_trans)
  then have mul: "umul (stride (info fb)) (bytes_per_pixel (info fb)) = Some W" "umul W ch = Some (W * ch)"
      "umul h (stride (info fb)) = Some (h * stride (info fb))"
      "umul (h * stride (info fb)) (bytes_per_pixel (info fb)) = Some (h * W)"
    using small by (auto simp: umul_eq) (auto simp: umul_def W_def mult.assoc)
  show ?thesis
  proof (cases "h \<le> ch")
    case True
    then have "h * W \<le> W * ch"
      by (simp add: mult.commute)
    then have "scroll_up fb = Some fb"
      using mul by (simp add: scroll_up_def h_def ch_def)
    then show ?thesis
      using True fb_frame_refl by (auto simp: scrolled_def h_def ch_def)
  next
    case False
    then have less: "W * ch < h * W"
      using W by (simp add: mult.commute)
    define r t where "r = W * ch" and "t = h * W"
    define b1 where "b1 = drop r (take t (buffer fb)) @ drop (t - r) (buffer fb)"
    define b2 where "b2 = take (t - r) b1 @ replicate r 0 @ drop t b1"
    have scroll: "scroll_up fb = Some (fb\<lparr>buffer := b2\<rparr>)"
      using mul less small(3)
      by (simp add: scroll_up_def h_def [symmetric] ch_def [symmetric] require_eq Let_def b2_def b1_def r_def t_def)
    have rt: "r \<le> t" "t \<le> length (buffer fb)" "t - r = (h - ch) * W"
      using less small(3) by (auto simp: r_def t_def diff_mult_distrib2 mult.commute)
    note nth = scroll_buffer_nth [OF rt(1,2), folded b1_def, folded b2_def]
    have "pix (fb\<lparr>buffer := b2\<rparr>) x y = scrolled fb x y" if on: "on_screen fb x y" for x y
    proof -
      define off where "off = px_off (info fb) x y"
      have "x < width (info fb)"
        using on by (simp add: on_screen_def)
      note row = px_off_row [OF geom this, folded W_def, of y, folded off_def]
      show ?thesis
      proof (cases "y + ch < h")
        case True
        then have "(y + 1) * W \<le> t - r"
          unfolding rt(3) by (intro mult_le_mono1) simp
        then have "off + 2 < t - r" using row(2) by linarith
        then show ?thesis
          using True False row(3) [of ch, folded r_def] nth(2) [of off] nth(2) [of "off + 1"] nth(2) [of "off + 2"]
          by (simp add: pix_def Let_def scrolled_def h_def [symmetric] ch_def [symmetric] off_def [symmetric] add.assoc)
      next
        case below: False
        then have "(h - ch) * W \<le> y * W" "(y + 1) * W \<le> t"
          using on unfolding t_def by (intro mult_le_mono1; auto simp: on_screen_def h_def)+
        then have "t - r \<le> off" "off + 2 < t"
          using row rt(3) by linarith+
        then show ?thesis
          using below False nth(3) [of off] nth(3) [of "off + 1"] nth(3) [of "off + 2"]
          by (simp add: pix_def Let_def scrolled_def h_def [symmetric] ch_def [symmetric] off_def [symmetric])
      qed
    qed
    moreover have "same_frame fb (fb\<lparr>buffer := b2\<rparr>)"
      using nth(1) by (auto simp: same_frame_def)
    ultimately show ?thesis
      using scroll by blast
  qed
qed

subsection \<open>The invariant\<close>

definition fb_inv :: "fb_writer \<Rightarrow> bool" where
  "fb_inv fb \<longleftrightarrow>
     fb_geom fb \<and> scale_ok fb \<and> x_pos fb \<le> max (width (info fb)) (cell_width fb) \<and>
     (y_pos fb + cell_height fb \<le> height (info fb) \<or> y_pos fb = 0) \<and>
     length (csi_buf fb) = 8 \<and> csi_pos fb \<le> 8"

lemma fb_inv_pos:
  assumes "fb_inv fb"
  shows "fb_geom fb" "scale_ok fb" "x_pos fb < 2 ^ 60" "y_pos fb < 2 ^ 60"
proof -
  show geom: "fb_geom fb" and scale: "scale_ok fb"
    using assms by (auto simp: fb_inv_def)
  show "x_pos fb < 2 ^ 60" "y_pos fb < 2 ^ 60"
    using assms geometry_small [OF geom] cell_height_bounds [OF scale] by (auto simp: fb_inv_def)
qed

lemma fb_inv_frame: "fb_inv fb \<Longrightarrow> same_frame fb fb' \<Longrightarrow> fb_inv fb'"
  by (auto simp: fb_inv_def same_frame_def scale_ok_def cell_height_def cell_width_def)

lemma fb_inv_flags [simp]:
  "fb_inv (fb\<lparr>cursor_shown := c\<rparr>) = fb_inv fb" "fb_inv (fb\<lparr>escape_state := e\<rparr>) = fb_inv fb"
  by (simp_all add: fb_inv_def scale_ok_def cell_height_def cell_width_def)

lemma pix_update [simp]:
  "pix (fb\<lparr>cursor_shown := c\<rparr>) = pix fb" "pix (fb\<lparr>x_pos := x\<rparr>) = pix fb" "pix (fb\<lparr>y_pos := y\<rparr>) = pix fb"
  "on_screen (fb\<lparr>cursor_shown := c\<rparr>) = on_screen fb" "on_screen (fb\<lparr>x_pos := x\<rparr>) = on_screen fb"
  "on_screen (fb\<lparr>y_pos := y\<rparr>) = on_screen fb"
  by (auto simp: pix_def on_screen_def fun_eq_iff)

text \<open>
  Drawing and erasing the cursor: a frame that differs in the flag and in the pixels of the bar.
\<close>

lemma draw_cursor_drawn:
  assumes "fb_inv fb"
  shows "\<exists>fb'. draw_cursor fb = Some (fb'\<lparr>cursor_shown := True\<rparr>) \<and>
    drawn (if cursor_shown fb then {} else cursor_bar fb) (\<lambda>_. fg fb) fb fb'"
proof (cases "cursor_shown fb")
  case True
  then show ?thesis
    using drawn_refl by (intro exI [of _ fb]) (simp add: draw_cursor_def)
next
  case False
  then show ?thesis
    using paint_cursor_drawn [OF fb_inv_pos [OF assms], of "fg fb"] by (auto simp: draw_cursor_def)
qed

lemma erase_cursor_drawn:
  assumes "fb_inv fb"
  shows "\<exists>fb'. erase_cursor fb = Some (fb'\<lparr>cursor_shown := False\<rparr>) \<and>
    drawn (if cursor_shown fb then cursor_bar fb else {}) (\<lambda>_. bg fb) fb fb'"
proof (cases "cursor_shown fb")
  case False
  then show ?thesis
    using drawn_refl by (intro exI [of _ fb]) (simp add: erase_cursor_def)
next
  case True
  then show ?thesis
    using paint_cursor_drawn [OF fb_inv_pos [OF assms], of "bg fb"] by (auto simp: erase_cursor_def)
qed

definition next_y :: "fb_writer \<Rightarrow> nat" where
  "next_y fb =
     (if y_pos fb + 2 * cell_height fb \<le> height (info fb) then y_pos fb + cell_height fb else y_pos fb)"

lemma new_line_spec:
  assumes inv: "fb_inv fb"
  shows "\<exists>fb'. new_line fb = Some fb' \<and> fb_inv fb' \<and> same_frame (fb\<lparr>x_pos := 0, y_pos := next_y fb\<rparr>) fb' \<and>
    (\<forall>x y. on_screen fb x y \<longrightarrow> pix fb' x y =
       (if y_pos fb + 2 * cell_height fb \<le> height (info fb) then pix fb x y else scrolled fb x y))"
proof -
  note pos = fb_inv_pos [OF inv] and ch = cell_height_bounds [OF fb_inv_pos(2) [OF inv]]
  define fb1 where "fb1 = fb\<lparr>y_pos := y_pos fb + cell_height fb, x_pos := 0\<rparr>"
  have add: "uadd (y_pos fb) (cell_height fb) = Some (y_pos fb + cell_height fb)"
      "uadd (y_pos fb + cell_height fb) (cell_height fb) = Some (y_pos fb + 2 * cell_height fb)"
    using pos(4) ch by (auto simp: uadd_def)
  show ?thesis
  proof (cases "y_pos fb + 2 * cell_height fb \<le> height (info fb)")
    case True
    then have "new_line fb = Some fb1"
      using add by (simp add: new_line_def Let_def fb1_def)
    moreover have "fb1 = fb\<lparr>x_pos := 0, y_pos := next_y fb\<rparr>"
      using True by (simp add: fb1_def next_y_def)
    then have "same_frame (fb\<lparr>x_pos := 0, y_pos := next_y fb\<rparr>) fb1"
      by (simp add: fb_frame_refl)
    moreover have "fb_inv fb1" "pix fb1 = pix fb"
      using True inv by (auto simp: fb_inv_def fb1_def scale_ok_def cell_height_def cell_width_def)
    ultimately show ?thesis
      using True by auto
  next
    case False
    have fb1: "fb_geom fb1" "scale_ok fb1" "y_pos fb1 = y_pos fb + cell_height fb"
      using pos by (auto simp: fb1_def scale_ok_def)
    obtain fb2 where fb2: "scroll_up fb1 = Some fb2" "same_frame fb1 fb2"
        "\<And>x y. on_screen fb1 x y \<Longrightarrow> pix fb2 x y = scrolled fb1 x y"
      using scroll_up_scrolled [OF fb1(1,2)] by blast
    have "scrolled fb1 = scrolled fb" "on_screen fb1 = on_screen fb"
      by (auto simp: scrolled_def fb1_def pix_def on_screen_def cell_height_def fun_eq_iff)
    moreover have "usub (y_pos fb2) (cell_height fb) = Some (y_pos fb)"
      using same_frame_fields [OF fb2(2)] fb1(3) by (simp add: usub_def)
    then have "new_line fb = Some (fb2\<lparr>y_pos := y_pos fb\<rparr>)"
      using False add fb2(1) by (simp add: new_line_def Let_def fb1_def)
    moreover have "same_frame (fb\<lparr>x_pos := 0, y_pos := next_y fb\<rparr>) (fb2\<lparr>y_pos := y_pos fb\<rparr>)"
      using False fb2(2) by (auto simp: same_frame_def fb1_def next_y_def)
    moreover have "fb_inv (fb\<lparr>x_pos := 0, y_pos := next_y fb\<rparr>)"
      using inv False by (auto simp: fb_inv_def scale_ok_def cell_height_def cell_width_def next_y_def)
    ultimately show ?thesis
      using False fb2(3) fb_inv_frame by auto
  qed
qed


subsection \<open>Writing text\<close>

lemma write_char_spec:
  assumes inv: "fb_inv fb" and byte: "byte \<notin> {0x1B, 0x0A, 0x08}" and fits: "x_pos fb + cell_width fb \<le> max (width (info fb)) (cell_width fb)"
  shows "\<exists>fb'. do { fb1 \<leftarrow> draw_char (x_pos fb) (y_pos fb) byte fb;
                    x \<leftarrow> uadd (x_pos fb1) (cell_width fb);
                    draw_cursor (fb1\<lparr>cursor_shown := False, x_pos := x\<rparr>) } = Some fb' \<and> fb_inv fb' \<and>
    x_pos fb' = x_pos fb + cell_width fb \<and> y_pos fb' = y_pos fb \<and> cursor_shown fb' \<and> escape_state fb' = escape_state fb \<and>
    info fb' = info fb \<and>
    (\<forall>x y. on_screen fb x y \<longrightarrow> pix fb' x y =
       (if (x, y) \<in> cursor_bar (fb\<lparr>x_pos := x_pos fb + cell_width fb\<rparr>) then fg fb
        else if (x, y) \<in> cell fb (x_pos fb) (y_pos fb) then glyph_color fb (x_pos fb) (y_pos fb) byte (x, y)
        else pix fb x y))"
proof -
  note pos = fb_inv_pos [OF inv] and cw = cell_height_bounds [OF fb_inv_pos(2) [OF inv]]
  obtain fb1 where fb1: "draw_char (x_pos fb) (y_pos fb) byte fb = Some fb1"
      "drawn (cell fb (x_pos fb) (y_pos fb)) (glyph_color fb (x_pos fb) (y_pos fb) byte) fb fb1"
    using draw_char_drawn [OF pos] by blast
  note f1 = drawn_fields [OF fb1(2)]
  define x where "x = x_pos fb + cell_width fb"
  define fb2 where "fb2 = fb1\<lparr>cursor_shown := False, x_pos := x\<rparr>"
  have "uadd (x_pos fb1) (cell_width fb) = Some x"
    using pos(3) cw f1 by (simp add: uadd_def x_def cell_width_def)
  moreover have "fb_inv fb1"
    using inv fb1(2) by (blast intro: fb_inv_frame drawn_same_frame)
  then have inv2: "fb_inv fb2"
    using fits f1 by (auto simp: fb_inv_def fb2_def scale_ok_def cell_height_def cell_width_def x_def)
  obtain fb3 where fb3: "draw_cursor fb2 = Some (fb3\<lparr>cursor_shown := True\<rparr>)" "drawn (cursor_bar fb2) (\<lambda>_. fg fb2) fb2 fb3"
    using draw_cursor_drawn [OF inv2] by (auto simp: fb2_def)
  note f3 = drawn_fields [OF fb3(2)]
  have bar: "cursor_bar fb2 = cursor_bar (fb\<lparr>x_pos := x_pos fb + cell_width fb\<rparr>)" "fg fb2 = fg fb" "pix fb2 = pix fb1"
      "on_screen fb2 = on_screen fb"
    using f1 by (auto simp: cursor_bar_def fb2_def cell_width_def cell_height_def x_def)
  have "fb_inv (fb3\<lparr>cursor_shown := True\<rparr>)"
    using inv2 fb3(2) by (auto intro: fb_inv_frame drawn_same_frame)
  moreover have "pix fb3 p q = (if (p, q) \<in> cursor_bar fb2 then fg fb
      else if (p, q) \<in> cell fb (x_pos fb) (y_pos fb) then glyph_color fb (x_pos fb) (y_pos fb) byte (p, q) else pix fb p q)"
    if "on_screen fb p q" for p q
    using drawn_pix [OF fb3(2), of p q] drawn_pix [OF fb1(2), of p q] that bar by simp
  ultimately show ?thesis
    using fb1(1) fb3(1) f1 f3 bar(1)
    by (intro exI [of _ "fb3\<lparr>cursor_shown := True\<rparr>"]) (simp add: fb2_def x_def)
qed

lemma newline_byte:
  assumes inv: "fb_inv fb"
  shows "\<exists>fb'. do { fb \<leftarrow> erase_cursor fb; new_line fb } = Some fb' \<and> fb_inv fb' \<and> x_pos fb' = 0 \<and> y_pos fb' = next_y fb \<and>
    scale_factor fb' = scale_factor fb \<and> info fb' = info fb \<and> \<not> cursor_shown fb'"
proof -
  obtain fb1 where fb1: "erase_cursor fb = Some (fb1\<lparr>cursor_shown := False\<rparr>)" "same_frame fb fb1"
    using erase_cursor_drawn [OF inv] drawn_same_frame by blast
  define fb2 where "fb2 = fb1\<lparr>cursor_shown := False\<rparr>"
  have inv2: "fb_inv fb2"
    using fb_inv_frame [OF inv fb1(2)] by (simp add: fb2_def)
  obtain fb3 where fb3: "new_line fb2 = Some fb3" "fb_inv fb3" "same_frame (fb2\<lparr>x_pos := 0, y_pos := next_y fb2\<rparr>) fb3"
    using new_line_spec [OF inv2] by blast
  note f1 = same_frame_fields [OF fb1(2)] and f3 = same_frame_fields [OF fb3(3)]
  have "next_y fb2 = next_y fb"
    using f1 by (simp add: next_y_def fb2_def cell_height_def)
  then show ?thesis
    using fb1(1) fb3(1,2) f1 f3 by (auto simp: fb2_def)
qed

lemma write_normal_inv:
  assumes inv: "fb_inv fb"
  shows "\<exists>fb'. write_normal byte fb = Some fb' \<and> fb_inv fb'"
proof -
  have cursor: "\<exists>fb'. draw_cursor fb = Some fb' \<and> fb_inv fb'" if "fb_inv fb" for fb
    using draw_cursor_drawn [OF that] fb_inv_frame [OF that] drawn_same_frame by fastforce
  consider "byte = 0x1B" | "byte = 0x0A" | "byte = 0x08" | "byte \<notin> {0x1B, 0x0A, 0x08}"
    by blast
  then show ?thesis
  proof cases
    case 1
    then show ?thesis
      using inv by (simp add: write_normal_def)
  next
    case 2
    then show ?thesis
      using newline_byte [OF inv] cursor by (auto simp: write_normal_def bind_eq_Some_conv)
  next
    case 3
    obtain fb1 where fb1: "erase_cursor fb = Some (fb1\<lparr>cursor_shown := False\<rparr>)" "same_frame fb fb1"
      using erase_cursor_drawn [OF inv] drawn_same_frame by blast
    then have "fb_inv (fb1\<lparr>cursor_shown := False\<rparr>)"
      using fb_inv_frame [OF inv] by simp
    then have "fb_inv (fb1\<lparr>cursor_shown := False, x_pos := x_pos fb1 - cell_width fb\<rparr>)"
      by (auto simp: fb_inv_def scale_ok_def cell_height_def cell_width_def)
    with fb1(1) \<open>fb_inv (fb1\<lparr>cursor_shown := False\<rparr>)\<close> 3 show ?thesis
      using cursor by (auto simp: write_normal_def Let_def)
  next
    case 4
    have e: "uadd (x_pos fb) (cell_width fb) = Some (x_pos fb + cell_width fb)"
      using fb_inv_pos [OF inv] cell_height_bounds [of fb] by (auto simp: uadd_def)
    show ?thesis
    proof (cases "x_pos fb + cell_width fb > width (info fb)")
      case True
      obtain fb1 where fb1: "do { fb \<leftarrow> erase_cursor fb; new_line fb } = Some fb1" "fb_inv fb1" "x_pos fb1 = 0"
          "scale_factor fb1 = scale_factor fb"
        using newline_byte [OF inv] by blast
      then have "cell_width fb1 = cell_width fb"
        by (simp add: cell_width_def)
      then show ?thesis
        using 4 True e fb1 write_char_spec [OF fb1(2) 4] by (auto simp: write_normal_def Let_def)
    next
      case False
      then show ?thesis
        using 4 e write_char_spec [OF inv 4] by (auto simp: write_normal_def Let_def)
    qed
  qed
qed


lemma csi_byte_inv:
  assumes "fb_inv fb" "i < 8" "n \<le> 8"
  shows "fb_inv (fb\<lparr>csi_buf := (csi_buf fb)[i := b], csi_pos := n\<rparr>)"
  using assms by (simp add: fb_inv_def scale_ok_def cell_height_def cell_width_def)

lemma apply_sgr_inv: "fb_inv fb \<Longrightarrow> fb_inv (apply_sgr fb)"
  by (simp add: apply_sgr_def Let_def fb_inv_def scale_ok_def cell_height_def cell_width_def)

lemma write_byte_inv:
  assumes inv: "fb_inv fb"
  shows "\<exists>fb'. write_byte byte fb = Some fb' \<and> fb_inv fb'"
proof (cases "escape_state fb")
  case Normal
  then show ?thesis
    using write_normal_inv [OF inv] by (simp add: write_byte_def)
next
  case SawBracket
  have "fb_inv (fb\<lparr>csi_buf := (csi_buf fb)[0 := byte], csi_pos := 1, escape_state := InCsi\<rparr>)"
    using csi_byte_inv [OF inv, of 0 1] by simp
  then show ?thesis
    using SawBracket inv by (simp add: write_byte_def fb_inv_def scale_ok_def cell_height_def cell_width_def)
next
  case InCsi
  have "fb_inv (fb\<lparr>csi_buf := (csi_buf fb)[csi_pos fb := byte], csi_pos := csi_pos fb + 1\<rparr>)" if "csi_pos fb < length (csi_buf fb)"
    using that inv csi_byte_inv [OF inv] by (simp add: fb_inv_def)
  then show ?thesis
    using InCsi inv apply_sgr_inv by (simp add: write_byte_def)
qed (use inv in \<open>simp add: write_byte_def\<close>)

lemma clear_screen_inv:
  assumes "fb_geom fb" "scale_ok fb" "length (csi_buf fb) = 8" "csi_pos fb \<le> 8"
  shows "\<exists>fb'. clear_screen fb = Some fb' \<and> fb_inv fb' \<and> x_pos fb' = 0 \<and> y_pos fb' = 0"
proof -
  define fb0 where "fb0 = fb\<lparr>buffer := replicate (length (buffer fb)) 0, x_pos := 0, y_pos := 0, cursor_shown := False\<rparr>"
  have inv: "fb_inv fb0"
    using assms by (simp add: fb_inv_def fb0_def scale_ok_def)
  obtain fb1 where fb1: "draw_cursor fb0 = Some (fb1\<lparr>cursor_shown := True\<rparr>)" "same_frame fb0 fb1"
    using draw_cursor_drawn [OF inv] drawn_same_frame by blast
  then show ?thesis
    using fb_inv_frame [OF inv fb1(2)] same_frame_fields [OF fb1(2)] by (auto simp: clear_screen_def fb0_def)
qed

lemma ex_true: "\<exists>b. b"
  by blast

lemma scale_inv:
  assumes inv: "fb_inv fb"
  shows "\<exists>r. scale_up fb = Some r \<and> fb_inv (snd r)" "\<exists>r. scale_down fb = Some r \<and> fb_inv (snd r)"
proof -
  have s: "1 \<le> unat (scale_factor fb)" "unat (scale_factor fb) \<le> 4"
    using inv by (auto simp: fb_inv_def scale_ok_def)
  have up: "unat (scale_factor fb + 1) = unat (scale_factor fb) + 1"
    using s by (subst unat_add_lem [THEN iffD1]) auto
  have down: "unat (scale_factor fb - 1) = unat (scale_factor fb) - 1"
    using s by (simp add: unat_sub word_le_nat_alt)
  have clear: "\<exists>fb'. clear_screen (fb\<lparr>scale_factor := sc\<rparr>) = Some fb' \<and> fb_inv fb'" if "1 \<le> unat sc" "unat sc \<le> 4" for sc
    using clear_screen_inv [of "fb\<lparr>scale_factor := sc\<rparr>"] inv that by (auto simp: fb_inv_def scale_ok_def)
  have "\<exists>fb'. clear_screen (fb\<lparr>scale_factor := scale_factor fb + 1\<rparr>) = Some fb' \<and> fb_inv fb'" if "\<not> MAX_SCALE \<le> scale_factor fb"
    using that s up by (intro clear) (auto simp: MAX_SCALE_def word_le_nat_alt)
  then show "\<exists>r. scale_up fb = Some r \<and> fb_inv (snd r)"
    using inv by (auto simp: scale_up_def ex_true)
  have "\<exists>fb'. clear_screen (fb\<lparr>scale_factor := scale_factor fb - 1\<rparr>) = Some fb' \<and> fb_inv fb'" if "\<not> scale_factor fb \<le> MIN_SCALE"
    using that s down by (intro clear) (auto simp: MIN_SCALE_def word_le_nat_alt)
  then show "\<exists>r. scale_down fb = Some r \<and> fb_inv (snd r)"
    using inv by (auto simp: scale_down_def ex_true)
qed

lemma write_string_inv: "fb_inv fb \<Longrightarrow> \<exists>fb'. write_string s fb = Some fb' \<and> fb_inv fb'"
proof (induction s arbitrary: fb)
  case (Cons b s)
  obtain fb1 where "write_byte (if printable b then b else 0xFE) fb = Some fb1" "fb_inv fb1"
    using write_byte_inv [OF Cons.prems] by blast
  then show ?case
    using Cons.IH by (simp add: write_string_def)
qed (simp add: write_string_def)


text \<open>What the rest of the kernel does with the frame buffer.\<close>

datatype fb_op = Print "u8 list" | Clear | ScaleUp | ScaleDown

fun fb_run :: "fb_op \<Rightarrow> fb_writer \<Rightarrow> fb_writer option" where
  "fb_run (Print s) fb = write_string s fb"
| "fb_run Clear fb = clear_screen fb"
| "fb_run ScaleUp fb = map_option snd (scale_up fb)"
| "fb_run ScaleDown fb = map_option snd (scale_down fb)"

lemma fb_run_inv: "fb_inv fb \<Longrightarrow> \<exists>fb'. fb_run op fb = Some fb' \<and> fb_inv fb'"
proof (cases op)
  case Clear
  moreover assume "fb_inv fb"
  ultimately show ?thesis
    using clear_screen_inv [of fb] by (auto simp: fb_inv_def)
qed (use write_string_inv scale_inv in fastforce)+


definition small_fb :: frame_buffer_info where
  "small_fb = \<lparr>width = 20, height = 40, stride = 24, bytes_per_pixel = 4, pixel_fmt = Bgr\<rparr>"


text \<open>
  C34 (Characters).  A character other than a control character, written where it fits, shows its glyph in
  the cell at the cursor, in the current colours and scale; the cursor moves one cell to the right and
  is drawn there, and no other pixel changes.
\<close>

theorem framebuffer_write_char:
  assumes "fb_inv fb" "escape_state fb = Normal" "byte \<notin> {0x1B, 0x0A, 0x08}"
    and "x_pos fb + cell_width fb \<le> width (info fb)"
  shows "\<exists>fb'. write_byte byte fb = Some fb' \<and>
    cursor_position fb' = (x_pos fb + cell_width fb, y_pos fb) \<and>
    (\<forall>x y. on_screen fb x y \<longrightarrow>
       read_pixel x y fb' = Some (Some
         (if (x, y) \<in> cell fb (x_pos fb) (y_pos fb) then glyph_color fb (x_pos fb) (y_pos fb) byte (x, y)
          else if (x, y) \<in> cursor_bar (fb\<lparr>x_pos := x_pos fb + cell_width fb\<rparr>) then fg fb
          else pix fb x y)))"
proof -
  have e: "uadd (x_pos fb) (cell_width fb) = Some (x_pos fb + cell_width fb)"
    using fb_inv_pos [OF assms(1)] cell_height_bounds [of fb] by (auto simp: uadd_def)
  have apart: "(x, y) \<notin> cell fb (x_pos fb) (y_pos fb)" if "(x, y) \<in> cursor_bar (fb\<lparr>x_pos := x_pos fb + cell_width fb\<rparr>)" for x y
    using that by (auto simp: cell_def cursor_bar_def cell_width_def)
  obtain fb' where fb': "write_byte byte fb = Some fb'" "fb_inv fb'" "x_pos fb' = x_pos fb + cell_width fb" "y_pos fb' = y_pos fb"
      "info fb' = info fb"
    and pix: "\<And>x y. on_screen fb x y \<Longrightarrow> pix fb' x y =
       (if (x, y) \<in> cursor_bar (fb\<lparr>x_pos := x_pos fb + cell_width fb\<rparr>) then fg fb
        else if (x, y) \<in> cell fb (x_pos fb) (y_pos fb) then glyph_color fb (x_pos fb) (y_pos fb) byte (x, y) else pix fb x y)"
    using write_char_spec [OF assms(1,3)] assms e by (auto simp: write_byte_def write_normal_def Let_def)
  have "read_pixel x y fb' = Some (Some (pix fb' x y))" if "on_screen fb x y" for x y
    using read_pixel_pix [OF fb_inv_pos(1) [OF fb'(2)]] that fb'(5) by (simp add: on_screen_def)
  then show ?thesis
    using fb' pix apart by (auto simp: cursor_position_def)
qed

text \<open>
  New lines.  A new line puts the cursor at the start of the next row.  When that row does not fit, the
  text scrolls: every pixel takes the colour of the one a row of text below it, the last row of text
  becomes black, and the cursor stays in its row.
\<close>

lemma framebuffer_new_line:
  assumes "fb_inv fb"
  shows "\<exists>fb'. new_line fb = Some fb' \<and>
    (if y_pos fb + 2 * cell_height fb \<le> height (info fb)
     then cursor_position fb' = (0, y_pos fb + cell_height fb) \<and>
       (\<forall>x y. on_screen fb x y \<longrightarrow> read_pixel x y fb' = read_pixel x y fb)
     else cursor_position fb' = (0, y_pos fb) \<and>
       (cell_height fb < height (info fb) \<longrightarrow> (\<forall>x y. on_screen fb x y \<longrightarrow>
          read_pixel x y fb' = Some (Some
            (if y + cell_height fb < height (info fb) then pix fb x (y + cell_height fb) else (0, 0, 0))))))"
proof -
  obtain fb' where fb': "new_line fb = Some fb'" "fb_inv fb'" "same_frame (fb\<lparr>x_pos := 0, y_pos := next_y fb\<rparr>) fb'"
    and pix: "\<And>x y. on_screen fb x y \<Longrightarrow> pix fb' x y =
       (if y_pos fb + 2 * cell_height fb \<le> height (info fb) then pix fb x y else scrolled fb x y)"
    using new_line_spec [OF assms] by blast
  note f = same_frame_fields [OF fb'(3)]
  have "read_pixel x y fb' = Some (Some (pix fb' x y))" "read_pixel x y fb = Some (Some (pix fb x y))" if "on_screen fb x y" for x y
    using read_pixel_pix [OF fb_inv_pos(1) [OF fb'(2)]] read_pixel_pix [OF fb_inv_pos(1) [OF assms]] that f
    by (simp_all add: on_screen_def)
  then show ?thesis
    using fb'(1) pix f by (auto simp: cursor_position_def next_y_def scrolled_def)
qed

definition demo_fb :: fb_writer where
  "demo_fb = fb_new (replicate 3840 0) small_fb"

lemma demo_fb_inv: "fb_inv demo_fb"
  by (simp add: demo_fb_def fb_new_def fb_inv_def geometry_ok_def small_fb_def scale_ok_def)

theorem framebuffer_write_char_witness:
  "\<exists>fb. write_byte 65 demo_fb = Some fb \<and> cursor_position fb = (8, 0) \<and>
     read_pixel 3 3 fb = Some (Some (170, 170, 170)) \<and> read_pixel 0 0 fb = Some (Some (0, 0, 0)) \<and>
     read_pixel 8 15 fb = Some (Some (170, 170, 170)) \<and> read_pixel 8 13 fb = Some (Some (0, 0, 0))"
proof -
  have "cell_width demo_fb = 8" "cell_height demo_fb = 16" "x_pos demo_fb = 0" "y_pos demo_fb = 0" "info demo_fb = small_fb"
      "width small_fb = 20" "height small_fb = 40" "fg demo_fb = (170, 170, 170)" "unat (scale_factor demo_fb) = 1"
    by (simp_all add: demo_fb_def fb_new_def small_fb_def cell_width_def cell_height_def CHAR_WIDTH_def CHAR_HEIGHT_def)
  moreover have "glyph_color demo_fb 0 0 65 (3, 3) = (170, 170, 170)" "glyph_color demo_fb 0 0 65 (0, 0) = (0, 0, 0)"
    by (simp_all add: glyph_color_def glyph_index_def FONT_OFFSET_def FALLBACK_INDEX_def CHAR_HEIGHT_def FONT_BASIC_def
        demo_fb_def fb_new_def)
  moreover have "pix demo_fb 8 13 = (0, 0, 0)"
    by (simp add: pix_def px_off_def demo_fb_def fb_new_def small_fb_def)
  moreover have "escape_state demo_fb = Normal" "cell demo_fb 0 0 = {0..<8} \<times> {0..<16}"
      "cursor_bar (demo_fb\<lparr>x_pos := 8\<rparr>) = {8..<16} \<times> {14..<16}"
    by (simp_all add: demo_fb_def fb_new_def cell_def cursor_bar_def CURSOR_HEIGHT_def cell_width_def cell_height_def
        CHAR_WIDTH_def CHAR_HEIGHT_def)
  ultimately show ?thesis
    using framebuffer_write_char [OF demo_fb_inv, of 65] by (auto simp: on_screen_def)
qed

lemma framebuffer_new_line_witness:
  "\<exists>fb. new_line demo_fb = Some fb \<and> cursor_position fb = (0, 16)"
  using framebuffer_new_line [OF demo_fb_inv]
  by (auto simp: demo_fb_def fb_new_def small_fb_def cell_height_def CHAR_HEIGHT_def)

end
