(* ===== verification/Text.thy ===== *)
theory Text
  imports Prelude
begin

text \<open>
  The text handling of the standard library that the shell, the logger and the dumps use: numbers as
  text, \<^verbatim>\<open>str::parse\<close>, \<^verbatim>\<open>str::from_utf8\<close>, \<^verbatim>\<open>trim\<close> and
  \<^verbatim>\<open>split_whitespace\<close>.  A \<^verbatim>\<open>&str\<close> is the list of its bytes.
\<close>

type_synonym rstr = "u8 list"

definition ascii :: "string \<Rightarrow> rstr" where
  "ascii s = map of_char s"

definition to_string :: "rstr \<Rightarrow> string" where
  "to_string s = map (\<lambda>c. char_of (unat c)) s"

lemma ascii_append [simp]: "ascii (s @ s') = ascii s @ ascii s'"
  by (simp add: ascii_def)

lemma ascii_Nil [simp]: "ascii [] = []"
  by (simp add: ascii_def)

lemma unat_of_char: "unat (of_char c :: u8) = (of_char c :: nat)"
proof -
  have "(of_char c :: u8) = of_nat (of_char c)"
    by (simp add: of_nat_of_char)
  moreover have "(of_char c :: nat) < 256"
    using nat_of_char_less_256 [of c] by simp
  ultimately show ?thesis
    by (simp add: unsigned_of_nat take_bit_nat_eq_self)
qed

lemma to_string_ascii [simp]: "to_string (ascii s) = s"
  by (simp add: to_string_def ascii_def unat_of_char comp_def)

lemma ascii_inject [simp]: "ascii s = ascii t \<longleftrightarrow> s = t"
  by (metis to_string_ascii)

lemma ascii_eq_Nil [simp]: "ascii s = [] \<longleftrightarrow> s = []" "[] = ascii s \<longleftrightarrow> s = []"
  by (auto simp: ascii_def)

subsection \<open>Numbers\<close>

definition digit :: "nat \<Rightarrow> u8" where
  "digit d = (if d < 10 then 0x30 + of_nat d else 0x57 + of_nat d)"

text \<open>\<^verbatim>\<open>{}\<close> and \<^verbatim>\<open>{:x}\<close>: the digits in a base of at most 16.\<close>

fun show_base :: "nat \<Rightarrow> nat \<Rightarrow> rstr" where
  "show_base b n = (if n < b \<or> b < 2 then [digit n] else show_base b (n div b) @ [digit (n mod b)])"

declare show_base.simps [simp del]

abbreviation show_dec :: "nat \<Rightarrow> rstr" where
  "show_dec \<equiv> show_base 10"

definition pad_zero :: "nat \<Rightarrow> rstr \<Rightarrow> rstr" where
  "pad_zero w s = replicate (w - length s) 0x30 @ s"

text \<open>\<^verbatim>\<open>{:#018x}\<close> and \<^verbatim>\<open>{:#010x}\<close>: the width includes the prefix.\<close>

definition show_hex :: "nat \<Rightarrow> nat \<Rightarrow> rstr" where
  "show_hex w n = ascii ''0x'' @ pad_zero (w - 2) (show_base 16 n)"

text \<open>\<^verbatim>\<open>str::parse::<usize>\<close>\<close>

definition is_digit :: "u8 \<Rightarrow> bool" where
  "is_digit c \<longleftrightarrow> 0x30 \<le> c \<and> c \<le> 0x39"

definition digits_value :: "rstr \<Rightarrow> nat" where
  "digits_value ds = foldl (\<lambda>n d. 10 * n + (unat d - 0x30)) 0 ds"

definition parse_usize :: "rstr \<Rightarrow> nat option" where
  "parse_usize s =
     (let ds = (if length s > 1 \<and> hd s = 0x2B then tl s else s)
      in if ds = [] \<or> \<not> list_all is_digit ds then None
         else if digits_value ds < usize_bound then Some (digits_value ds) else None)"

subsection \<open>UTF-8\<close>

definition is_cont :: "u8 \<Rightarrow> bool" where
  "is_cont c \<longleftrightarrow> 0x80 \<le> c \<and> c \<le> 0xBF"

fun utf8_valid :: "rstr \<Rightarrow> bool" where
  "utf8_valid [] \<longleftrightarrow> True"
| "utf8_valid (a # s) \<longleftrightarrow>
     (if a < 0x80 then utf8_valid s
      else if 0xC2 \<le> a \<and> a \<le> 0xDF then (case s of b # s \<Rightarrow> is_cont b \<and> utf8_valid s | _ \<Rightarrow> False)
      else if 0xE0 \<le> a \<and> a \<le> 0xEF then
        (case s of
           b # c # s \<Rightarrow> is_cont b \<and> is_cont c \<and> (a = 0xE0 \<longrightarrow> 0xA0 \<le> b) \<and> (a = 0xED \<longrightarrow> b \<le> 0x9F) \<and> utf8_valid s
         | _ \<Rightarrow> False)
      else if 0xF0 \<le> a \<and> a \<le> 0xF4 then
        (case s of
           b # c # d # s \<Rightarrow>
             is_cont b \<and> is_cont c \<and> is_cont d \<and> (a = 0xF0 \<longrightarrow> 0x90 \<le> b) \<and> (a = 0xF4 \<longrightarrow> b \<le> 0x8F) \<and> utf8_valid s
         | _ \<Rightarrow> False)
      else False)"

declare utf8_valid.simps(2) [simp del]

subsection \<open>Words\<close>

text \<open>The white space among the ASCII characters.\<close>

definition is_space :: "u8 \<Rightarrow> bool" where
  "is_space c \<longleftrightarrow> 9 \<le> c \<and> c \<le> 13 \<or> c = 32"

definition trim :: "rstr \<Rightarrow> rstr" where
  "trim s = rev (dropWhile is_space (rev (dropWhile is_space s)))"

function split_whitespace :: "rstr \<Rightarrow> rstr list" where
  "split_whitespace s =
     (let t = dropWhile is_space s
      in if t = [] then []
         else takeWhile (\<lambda>c. \<not> is_space c) t # split_whitespace (dropWhile (\<lambda>c. \<not> is_space c) t))"
  by auto
termination
proof (relation "measure length")
  fix s t :: rstr
  assume "t = dropWhile is_space s" "t \<noteq> []"
  then have "\<not> is_space (hd t)" "length t \<le> length s"
    using hd_dropWhile [of is_space s] length_dropWhile_le by auto
  then show "(dropWhile (\<lambda>c. \<not> is_space c) t, s) \<in> measure length"
    using \<open>t \<noteq> []\<close> length_dropWhile_le [of "\<lambda>c. \<not> is_space c" "tl t"] by (cases t) auto
qed simp

declare split_whitespace.simps [simp del]

definition join_words :: "rstr list \<Rightarrow> rstr" where
  "join_words ws = concat (map (\<lambda>w. w @ [0x20]) (butlast ws)) @ (if ws = [] then [] else last ws)"

subsection \<open>Lemmas\<close>

lemma utf8_ascii: "\<forall>c \<in> set s. c < 0x80 \<Longrightarrow> utf8_valid s"
  by (induction s) (auto simp: utf8_valid.simps(2))

lemma takeWhile_word:
  assumes "\<forall>c \<in> set w. \<not> is_space c" "s = [] \<or> is_space (hd s)"
  shows "takeWhile (\<lambda>c. \<not> is_space c) (w @ s) = w" "dropWhile (\<lambda>c. \<not> is_space c) (w @ s) = s"
  using assms by (cases s; simp add: takeWhile_append2 dropWhile_append2)+

lemma split_word:
  assumes "w \<noteq> []" "\<forall>c \<in> set w. \<not> is_space c" "s = [] \<or> is_space (hd s)"
  shows "split_whitespace (w @ s) = w # split_whitespace s"
proof -
  have "dropWhile is_space (w @ s) = w @ s"
    using assms(1,2) by (cases w) auto
  then show ?thesis
    using takeWhile_word [OF assms(2,3)] assms(1) by (subst split_whitespace.simps) (simp add: Let_def)
qed

lemma split_space: "is_space c \<Longrightarrow> split_whitespace (c # s) = split_whitespace s"
  by (subst (1 2) split_whitespace.simps) simp

lemma split_Nil: "split_whitespace [] = []"
  by (subst split_whitespace.simps) simp

lemma split_join_words:
  assumes "\<forall>w \<in> set ws. w \<noteq> [] \<and> (\<forall>c \<in> set w. \<not> is_space c)"
  shows "split_whitespace (join_words ws) = ws"
  using assms
proof (induction ws)
  case (Cons w ws)
  have "split_whitespace (join_words (w # ws)) = w # split_whitespace (join_words ws)"
  proof (cases ws)
    case Nil
    then show ?thesis
      using Cons.prems split_word [of w "[]"] by (simp add: join_words_def)
  next
    case (Cons v vs)
    then have "join_words (w # ws) = w @ 0x20 # join_words ws"
      by (simp add: join_words_def)
    then show ?thesis
      using Cons.prems split_word [of w "0x20 # join_words ws"] split_space [of "0x20" "join_words ws"]
      by (simp add: is_space_def)
  qed
  then show ?case
    using Cons by simp
qed (simp add: join_words_def split_Nil)

lemma unat_digit: "d < 10 \<Longrightarrow> unat (digit d) = 48 + d"
  by (simp add: digit_def unat_word_ariths unsigned_of_nat take_bit_nat_eq_self)

lemma is_digit_digit: "d < 10 \<Longrightarrow> is_digit (digit d)"
  using unat_digit [of d] by (simp add: is_digit_def word_le_nat_alt)

lemma digits_value_snoc: "digits_value (ds @ [d]) = 10 * digits_value ds + (unat d - 48)"
  by (simp add: digits_value_def)

lemma show_dec_digits: "show_dec n \<noteq> [] \<and> list_all is_digit (show_dec n) \<and> digits_value (show_dec n) = n"
proof (induction n rule: less_induct)
  case (less n)
  show ?case
  proof (cases "n < 10")
    case True
    then show ?thesis
      by (simp add: show_base.simps [of 10 n] is_digit_digit digits_value_def unat_digit)
  next
    case False
    then show ?thesis
      using less.IH [of "n div 10"]
      by (simp add: show_base.simps [of 10 n] is_digit_digit digits_value_snoc unat_digit)
  qed
qed

text \<open>A printed number is read back.\<close>

lemma parse_show_dec: "n < usize_bound \<Longrightarrow> parse_usize (show_dec n) = Some n"
proof -
  have "is_digit (hd (show_dec n))"
    using show_dec_digits [of n] by (cases "show_dec n") auto
  then have "hd (show_dec n) \<noteq> 0x2B"
    by (auto simp: is_digit_def)
  then show "n < usize_bound \<Longrightarrow> parse_usize (show_dec n) = Some n"
    using show_dec_digits [of n] by (simp add: parse_usize_def)
qed

end
