(* ===== verification/Uart.thy ===== *)
theory Uart
  imports Port_IO
begin

text \<open>
  \<^verbatim>\<open>kernel/src/uart.rs\<close> and the printing function of \<^verbatim>\<open>kernel/src/serial.rs\<close>: the
  driver of the 16550 serial port.  A string is the list of its bytes; formatting happens before.
\<close>

definition LINE_STS_OUTPUT_EMPTY :: u8 where "LINE_STS_OUTPUT_EMPTY = push_bit 5 1"

record serial_port =
  ser_data :: u16
  int_en :: u16
  fifo_ctrl :: u16
  line_ctrl :: u16
  modem_ctrl :: u16
  line_sts :: u16

definition serial_new :: "u16 \<Rightarrow> serial_port option" where
  "serial_new base =
     do { p1 \<leftarrow> u16_add base 1;
          p2 \<leftarrow> u16_add base 2;
          p3 \<leftarrow> u16_add base 3;
          p4 \<leftarrow> u16_add base 4;
          p5 \<leftarrow> u16_add base 5;
          Some \<lparr>ser_data = base, int_en = p1, fifo_ctrl = p2, line_ctrl = p3, modem_ctrl = p4, line_sts = p5\<rparr> }"

definition serial_init :: "'d port_bus \<Rightarrow> serial_port \<Rightarrow> 'd \<Rightarrow> 'd" where
  "serial_init bus p d =
     (let d = port_out bus (int_en p) 0x00 d;
          d = port_out bus (line_ctrl p) 0x80 d;
          d = port_out bus (ser_data p) 0x03 d;
          d = port_out bus (int_en p) 0x00 d;
          d = port_out bus (line_ctrl p) 0x03 d;
          d = port_out bus (fifo_ctrl p) 0xC7 d;
          d = port_out bus (modem_ctrl p) 0x0B d
      in port_out bus (int_en p) 0x01 d)"

definition line_sts_flags :: "'d port_bus \<Rightarrow> serial_port \<Rightarrow> 'd \<Rightarrow> u8 \<times> 'd" where
  "line_sts_flags bus p = port_in bus (line_sts p)"

text \<open>
  The macro \<^verbatim>\<open>wait_for!\<close> with the number of retries left: the condition is tested first,
  then the counter is decremented and the loop left at zero.
\<close>

fun wait_for :: "('d \<Rightarrow> bool \<times> 'd) \<Rightarrow> nat \<Rightarrow> 'd \<Rightarrow> 'd" where
  "wait_for cond retries d =
     (case cond d of
        (True, d) \<Rightarrow> d
      | (False, d) \<Rightarrow> (let retries = retries - 1 in if retries = 0 then d else wait_for cond retries d))"

declare wait_for.simps [simp del]

definition output_empty :: "'d port_bus \<Rightarrow> serial_port \<Rightarrow> 'd \<Rightarrow> bool \<times> 'd" where
  "output_empty bus p d = apfst (\<lambda>v. v AND LINE_STS_OUTPUT_EMPTY \<noteq> 0) (line_sts_flags bus p d)"

definition send :: "'d port_bus \<Rightarrow> serial_port \<Rightarrow> u8 \<Rightarrow> 'd \<Rightarrow> 'd" where
  "send bus p v d = port_out bus (ser_data p) v (wait_for (output_empty bus p) 100000 d)"

definition write_str :: "'d port_bus \<Rightarrow> serial_port \<Rightarrow> u8 list \<Rightarrow> 'd \<Rightarrow> 'd" where
  "write_str bus p s d = fold (send bus p) s d"

subsection \<open>The documented device\<close>

text \<open>
  A 16550 with its transmitter: it holds the byte being sent and the bytes that went out, and each
  read of the line status register lets it finish within \<open>delay\<close> further reads.  A byte written
  while the transmitter is busy replaces the one in the holding register.  With the divisor latch
  selected (bit 7 of the line control register) the data port sets the divisor.
\<close>

record uart_dev =
  sent :: "u8 list"
  holding :: "(u8 \<times> nat) option"
  lcr :: u8
  divisor :: u8

definition uart_read_status :: "uart_dev \<Rightarrow> u8 \<times> uart_dev" where
  "uart_read_status u =
     (case holding u of
        None \<Rightarrow> (LINE_STS_OUTPUT_EMPTY, u)
      | Some (v, 0) \<Rightarrow> (LINE_STS_OUTPUT_EMPTY, u\<lparr>sent := sent u @ [v], holding := None\<rparr>)
      | Some (v, Suc k) \<Rightarrow> (0, u\<lparr>holding := Some (v, k)\<rparr>))"

definition uart_write_data :: "(u8 \<Rightarrow> nat) \<Rightarrow> u8 \<Rightarrow> uart_dev \<Rightarrow> uart_dev" where
  "uart_write_data delay v u =
     (if bit (lcr u) 7 then u\<lparr>divisor := v\<rparr> else u\<lparr>holding := Some (v, delay v)\<rparr>)"

definition uart_bus_ok :: "'d port_bus \<Rightarrow> serial_port \<Rightarrow> (u8 \<Rightarrow> nat) \<Rightarrow> ('d \<Rightarrow> uart_dev) \<Rightarrow> bool" where
  "uart_bus_ok bus p delay uart \<longleftrightarrow>
     (\<forall>d. fst (port_in bus (line_sts p) d) = fst (uart_read_status (uart d))) \<and>
     (\<forall>d. uart (snd (port_in bus (line_sts p) d)) = snd (uart_read_status (uart d))) \<and>
     (\<forall>d v. uart (port_out bus (ser_data p) v d) = uart_write_data delay v (uart d)) \<and>
     (\<forall>d v. uart (port_out bus (line_ctrl p) v d) = (uart d)\<lparr>lcr := v\<rparr>) \<and>
     (\<forall>d v. uart (port_out bus (int_en p) v d) = uart d) \<and>
     (\<forall>d v. uart (port_out bus (fifo_ctrl p) v d) = uart d) \<and>
     (\<forall>d v. uart (port_out bus (modem_ctrl p) v d) = uart d)"

text \<open>What has been sent or is on its way out.\<close>

definition outgoing :: "uart_dev \<Rightarrow> u8 list" where
  "outgoing u = sent u @ (case holding u of None \<Rightarrow> [] | Some (v, _) \<Rightarrow> [v])"

definition remaining :: "uart_dev \<Rightarrow> nat" where
  "remaining u = (case holding u of None \<Rightarrow> 0 | Some (_, k) \<Rightarrow> k)"

subsection \<open>Correctness\<close>

lemma output_empty_flag: "LINE_STS_OUTPUT_EMPTY \<noteq> 0"
  by (simp add: LINE_STS_OUTPUT_EMPTY_def)

lemma wait_for_ready:
  assumes bus: "uart_bus_ok bus p delay uart" and "remaining (uart d) < n"
  shows "\<exists>d'. wait_for (output_empty bus p) n d = d' \<and> holding (uart d') = None \<and>
    sent (uart d') = outgoing (uart d) \<and> lcr (uart d') = lcr (uart d)"
  using assms(2)
proof (induction n arbitrary: d)
  case (Suc n)
  obtain v d' where r: "port_in bus (line_sts p) d = (v, d')"
    by (cases "port_in bus (line_sts p) d")
  have v: "v = fst (uart_read_status (uart d))" and d': "uart d' = snd (uart_read_status (uart d))"
    using bus r unfolding uart_bus_ok_def by (metis fst_conv, metis snd_conv)
  show ?case
  proof (cases "remaining (uart d)")
    case 0
    then have "v = LINE_STS_OUTPUT_EMPTY"
      "holding (uart d') = None \<and> sent (uart d') = outgoing (uart d) \<and> lcr (uart d') = lcr (uart d)"
      unfolding v d'
      by (auto simp: uart_read_status_def remaining_def outgoing_def split: option.splits nat.splits)
    then show ?thesis
      by (simp add: wait_for.simps [of _ "Suc n"] output_empty_def line_sts_flags_def r output_empty_flag)
  next
    case (Suc k)
    then obtain b where "holding (uart d) = Some (b, Suc k)"
      by (auto simp: remaining_def split: option.splits)
    then have "v = 0" and u: "uart d' = (uart d)\<lparr>holding := Some (b, k)\<rparr>"
      unfolding v d' by (simp_all add: uart_read_status_def)
    moreover have "remaining (uart d') < n" "n \<noteq> 0" "outgoing (uart d') = outgoing (uart d)" "lcr (uart d') = lcr (uart d)"
      using Suc.prems Suc \<open>holding (uart d) = Some (b, Suc k)\<close> by (auto simp: u remaining_def outgoing_def)
    ultimately show ?thesis
      using Suc.IH [of d']
      by (simp add: wait_for.simps [of _ "Suc n"] output_empty_def line_sts_flags_def r)
  qed
qed simp

lemma send_outgoing:
  assumes bus: "uart_bus_ok bus p delay uart" and "remaining (uart d) < 100000" "\<not> bit (lcr (uart d)) 7"
  shows "outgoing (uart (send bus p v d)) = outgoing (uart d) @ [v]"
    "remaining (uart (send bus p v d)) = delay v" "lcr (uart (send bus p v d)) = lcr (uart d)"
proof -
  obtain d' where d': "wait_for (output_empty bus p) 100000 d = d'" "holding (uart d') = None"
      "sent (uart d') = outgoing (uart d)" "lcr (uart d') = lcr (uart d)"
    using wait_for_ready [OF assms(1,2)] by blast
  have "uart (send bus p v d) = uart_write_data delay v (uart d')"
    using bus by (simp add: send_def d'(1) uart_bus_ok_def)
  then show "outgoing (uart (send bus p v d)) = outgoing (uart d) @ [v]"
    "remaining (uart (send bus p v d)) = delay v" "lcr (uart (send bus p v d)) = lcr (uart d)"
    using d' assms(3) by (simp_all add: uart_write_data_def outgoing_def remaining_def)
qed

lemma write_str_outgoing:
  assumes "uart_bus_ok bus p delay uart" "remaining (uart d) < 100000" "\<not> bit (lcr (uart d)) 7"
    and "\<forall>v \<in> set s. delay v < 100000"
  shows "outgoing (uart (write_str bus p s d)) = outgoing (uart d) @ s"
  using assms
proof (induction s arbitrary: d)
  case (Cons v s)
  then show ?case
    using send_outgoing [OF Cons.prems(1-3), of v] by (simp add: write_str_def)
qed (simp add: write_str_def)

text \<open>
  Serial port.  After initialisation the port is set to divisor 3 (38400 baud) and 8 data bits, and
  every byte of a printed string goes out, once and in order, as long as the transmitter is never
  busy for 100000 polls of the line status register.
\<close>

lemma serial_write_str:
  assumes "uart_bus_ok bus p delay uart" "remaining (uart d) < 100000" "\<forall>v \<in> set s. delay v < 100000"
  shows "outgoing (uart (write_str bus p s (serial_init bus p d))) = outgoing (uart d) @ s \<and>
    divisor (uart (serial_init bus p d)) = 3 \<and> lcr (uart (serial_init bus p d)) = 3"
proof -
  have init: "uart (serial_init bus p d) = (uart d)\<lparr>lcr := 3, divisor := 3\<rparr>"
    using assms(1) by (simp add: uart_bus_ok_def serial_init_def Let_def uart_write_data_def)
  then have "outgoing (uart (serial_init bus p d)) = outgoing (uart d)"
    "remaining (uart (serial_init bus p d)) = remaining (uart d)" "\<not> bit (lcr (uart (serial_init bus p d))) 7"
    by (simp_all add: outgoing_def remaining_def)
  then show ?thesis
    using write_str_outgoing [OF assms(1), of "serial_init bus p d" s] assms(2,3) init by simp
qed

definition com1 :: serial_port where
  "com1 = \<lparr>ser_data = 0x3F8, int_en = 0x3F9, fifo_ctrl = 0x3FA, line_ctrl = 0x3FB, modem_ctrl = 0x3FC, line_sts = 0x3FD\<rparr>"

definition com1_bus :: "uart_dev port_bus" where
  "com1_bus =
     \<lparr>port_in = (\<lambda>p u. if p = 0x3FD then uart_read_status u else (0, u)),
      port_out = (\<lambda>p v u. if p = 0x3F8 then uart_write_data (\<lambda>_. 40) v u else if p = 0x3FB then u\<lparr>lcr := v\<rparr> else u)\<rparr>"

lemma com1_bus_ok: "uart_bus_ok com1_bus com1 (\<lambda>_. 40) id"
  by (simp add: uart_bus_ok_def com1_bus_def com1_def)

lemma serial_new_com1: "serial_new 0x3F8 = Some com1"
  by (simp add: serial_new_def u16_add_def com1_def)

lemma serial_write_str_witness:
  "let d = \<lparr>sent = [], holding = Some (9, 7), lcr = 0, divisor = 0\<rparr>
   in outgoing (write_str com1_bus com1 [72, 105] (serial_init com1_bus com1 d)) = [9, 72, 105]"
  using serial_write_str [OF com1_bus_ok, of "\<lparr>sent = [], holding = Some (9, 7), lcr = 0, divisor = 0\<rparr>" "[72, 105]"]
  by (simp add: remaining_def outgoing_def)

end
