(* ===== verification/Console.thy ===== *)
theory Console
  imports Text Uart Framebuffer_Props Kernel_Heap Filesystem_Props
begin

text \<open>
  Output of the kernel: \<^verbatim>\<open>kernel/src/serial.rs\<close>, \<^verbatim>\<open>kernel/src/vga_buffer.rs\<close>, the
  logger of \<^verbatim>\<open>kernel/src/log.rs\<close>, the dump functions of \<^verbatim>\<open>kernel/src/monitor.rs\<close> and
  \<^verbatim>\<open>kernel/src/trace.rs\<close>, and the crash diagnostics of \<^verbatim>\<open>kernel/src/debug.rs\<close>.

  The port bus, the time stamp counter and the facade of the \<^verbatim>\<open>log\<close> crate are parameters: of
  the facade the maximal level and whether it hands records to the registered logger.
\<close>

subsection \<open>Levels\<close>

datatype log_level = LvlError | LvlWarn | LvlInfo | LvlDebug | LvlTrace

fun level_rank :: "log_level \<Rightarrow> nat" where
  "level_rank LvlError = 1"
| "level_rank LvlWarn = 2"
| "level_rank LvlInfo = 3"
| "level_rank LvlDebug = 4"
| "level_rank LvlTrace = 5"

text \<open>A \<^verbatim>\<open>LevelFilter\<close> is \<^term>\<open>None\<close> for \<^verbatim>\<open>Off\<close>.\<close>

type_synonym level_filter = "log_level option"

fun level_le :: "log_level \<Rightarrow> level_filter \<Rightarrow> bool" where
  "level_le l None \<longleftrightarrow> False"
| "level_le l (Some f) \<longleftrightarrow> level_rank l \<le> level_rank f"

fun level_color :: "log_level \<Rightarrow> string" where
  "level_color LvlError = ''31''"
| "level_color LvlWarn = ''33''"
| "level_color LvlInfo = ''37''"
| "level_color LvlDebug = ''36''"
| "level_color LvlTrace = ''35''"

text \<open>\<^verbatim>\<open>{:<5}\<close> of the level\<close>

fun level_name :: "log_level \<Rightarrow> string" where
  "level_name LvlError = ''ERROR''"
| "level_name LvlWarn = ''WARN ''"
| "level_name LvlInfo = ''INFO ''"
| "level_name LvlDebug = ''DEBUG''"
| "level_name LvlTrace = ''TRACE''"

subsection \<open>The state and the printing functions\<close>

record 'd machine =
  bus :: "'d port_bus"
  tsc :: "kernel_heap \<Rightarrow> u64"
  spurious :: "kernel_heap \<Rightarrow> bool list"
  max_level :: level_filter
  registered :: bool

record 'd system =
  serial_up :: bool
  dev :: 'd
  screen :: "fb_writer option"
  kheap :: kernel_heap
  files :: file_system

text \<open>\<^verbatim>\<open>SERIAL1\<close> is initialised on its first use.\<close>

definition serial_print :: "'d machine \<Rightarrow> rstr \<Rightarrow> 'd system \<Rightarrow> 'd system" where
  "serial_print mc s sys =
     (let d = (if serial_up sys then dev sys else serial_init (bus mc) com1 (dev sys))
      in sys\<lparr>serial_up := True, dev := write_str (bus mc) com1 s d\<rparr>)"

definition vga_print :: "'d machine \<Rightarrow> rstr \<Rightarrow> 'd system \<Rightarrow> 'd system option" where
  "vga_print mc s sys =
     (let sys = serial_print mc s sys
      in do { scr \<leftarrow> fb_print s (screen sys);
              Some (sys\<lparr>screen := scr\<rparr>) })"

text \<open>\<^verbatim>\<open>println!\<close>\<close>

definition vga_println :: "'d machine \<Rightarrow> rstr \<Rightarrow> 'd system \<Rightarrow> 'd system option" where
  "vga_println mc s = vga_print mc (s @ [0x0A])"

subsection \<open>The logger\<close>

definition log_enabled :: "'d machine \<Rightarrow> log_level \<Rightarrow> bool" where
  "log_enabled mc l = level_le l (max_level mc)"

definition log_line :: "log_level \<Rightarrow> string \<Rightarrow> rstr \<Rightarrow> rstr" where
  "log_line l target args =
     [0x1B] @ ascii (''['' @ level_color l @ ''m['' @ level_name l @ '']'') @ [0x1B] @ ascii (''[0m '' @ target @ '': '') @ args @ [0x0A]"

definition logger_log :: "'d machine \<Rightarrow> log_level \<Rightarrow> string \<Rightarrow> rstr \<Rightarrow> 'd system \<Rightarrow> 'd system" where
  "logger_log mc l target args sys =
     (if \<not> log_enabled mc l then sys else serial_print mc (log_line l target args) sys)"

text \<open>The macros of the facade test the level and call the registered logger.\<close>

definition log_macro :: "'d machine \<Rightarrow> log_level \<Rightarrow> string \<Rightarrow> rstr \<Rightarrow> 'd system \<Rightarrow> 'd system" where
  "log_macro mc l target args sys =
     (if level_le l (max_level mc) \<and> registered mc then logger_log mc l target args sys else sys)"

text \<open>
  \<^verbatim>\<open>log::init\<close> over the two setters of the facade: \<^verbatim>\<open>set_logger\<close> may fail, and then
  the level stays.
\<close>

definition log_init :: "('g \<Rightarrow> ('e + unit) \<times> 'g) \<Rightarrow> (level_filter \<Rightarrow> 'g \<Rightarrow> 'g) \<Rightarrow> level_filter \<Rightarrow> 'g \<Rightarrow> ('e + unit) \<times> 'g" where
  "log_init set_logger set_max_level level g =
     (case set_logger g of
        (Inl e, g) \<Rightarrow> (Inl e, g)
      | (Inr _, g) \<Rightarrow> (Inr (), set_max_level level g))"

subsection \<open>Metrics and trace dumps\<close>

definition irq_line :: "nat \<Rightarrow> u64 \<Rightarrow> rstr" where
  "irq_line i count =
     ascii ''  irq 0x'' @ pad_zero 2 (show_base 16 (0x20 + i)) @ ascii '': '' @ show_dec (unat count)"

text \<open>The interrupts that occurred, by number.\<close>

definition irq_lines :: "monitor_data \<Rightarrow> rstr list" where
  "irq_lines m =
     map (\<lambda>(i, count). irq_line i count) (filter (\<lambda>(i, count). count > 0) (enumerate 0 (interrupt_counts m)))"

definition dump_to_serial :: "'d machine \<Rightarrow> monitor_data \<Rightarrow> 'd system \<Rightarrow> 'd system" where
  "dump_to_serial mc m sys =
     fold (log_macro mc LvlInfo ''yonti_os::monitor'')
       ((ascii ''metrics: alloc='' @ show_dec (unat (alloc_count m)) @
         ascii '' free='' @ show_dec (unat (free_count m)) @
         ascii '' cur='' @ show_dec (unat (current_allocated m)) @
         ascii '' peak='' @ show_dec (unat (peak_allocated m)) @
         ascii '' frames='' @ show_dec (unat (allocated_frames m)) @ ascii ''/'' @ show_dec (unat (m_total_frames m)) @
         ascii '' tasks='' @ show_dec (unat (tasks_spawned m)) @ ascii ''/'' @ show_dec (unat (tasks_completed m)) @
         ascii ''/'' @ show_dec (unat (active_tasks m)) @
         ascii '' drops='' @ show_dec (unat (dropped_wakes m)) @
         ascii '' ticks='' @ show_dec (unat (timer_ticks m)))
        # irq_lines m) sys"

definition trace_text :: "trace_line \<Rightarrow> rstr" where
  "trace_text l =
     (case l of (ts, name, a0, a1) \<Rightarrow>
        ascii ''  ['' @ pad_zero 16 (show_base 16 (unat ts)) @ ascii (''] '' @ name @ '' arg0='') @
        show_hex 0 (unat a0) @ ascii '' arg1='' @ show_hex 0 (unat a1))"

definition dump_trace :: "'d machine \<Rightarrow> nat \<Rightarrow> 'd system \<Rightarrow> 'd system" where
  "dump_trace mc n sys =
     (case dump_last n (trace (kheap sys)) of ((written, overflow, n), ls) \<Rightarrow>
        fold (log_macro mc LvlInfo ''yonti_os::trace'')
          ((ascii ''trace events: total='' @ show_dec written @ ascii '' overflow='' @ show_dec (unat overflow) @
            ascii '' (showing last '' @ show_dec n @ ascii '')'')
           # map trace_text ls) sys)"

subsection \<open>Crash diagnostics\<close>

definition log_error :: "'d machine \<Rightarrow> rstr \<Rightarrow> 'd system \<Rightarrow> 'd system" where
  "log_error mc = log_macro mc LvlError ''yonti_os::debug''"

text \<open>The rulers of the dumps, in UTF-8.\<close>

definition thin :: "nat \<Rightarrow> rstr" where
  "thin n = concat (replicate n [0xE2, 0x94, 0x80])"

definition thick :: "nat \<Rightarrow> rstr" where
  "thick n = concat (replicate n [0xE2, 0x95, 0x90])"

text \<open>The registers are what the inline assembly reads.\<close>

record registers =
  rax :: u64
  rbx :: u64
  rcx :: u64
  rdx :: u64
  rsi :: u64
  rdi :: u64
  rbp :: u64
  rsp :: u64
  r8 :: u64
  r9 :: u64
  r10 :: u64
  r11 :: u64
  r12 :: u64
  r13 :: u64
  r14 :: u64
  r15 :: u64
  cr0 :: u64
  cr2 :: u64
  cr3 :: u64
  cr4 :: u64

definition register_line :: "(string \<times> nat \<times> u64) list \<Rightarrow> rstr" where
  "register_line rs = join_words (map (\<lambda>(name, w, v). ascii name @ show_hex w (unat v)) rs)"

definition dump_registers :: "'d machine \<Rightarrow> registers \<Rightarrow> 'd system \<Rightarrow> 'd system" where
  "dump_registers mc r sys =
     fold (log_error mc)
       [thin 2 @ ascii '' REGISTERS '' @ thin 22,
        register_line [(''RAX: '', 18, rax r), (''RBX: '', 18, rbx r), (''RCX: '', 18, rcx r), (''RDX: '', 18, rdx r)],
        register_line [(''RSI: '', 18, rsi r), (''RDI: '', 18, rdi r), (''RBP: '', 18, rbp r), (''RSP: '', 18, rsp r)],
        register_line [(''R8:  '', 18, r8 r), (''R9:  '', 18, r9 r), (''R10: '', 18, r10 r), (''R11: '', 18, r11 r)],
        register_line [(''R12: '', 18, r12 r), (''R13: '', 18, r13 r), (''R14: '', 18, r14 r), (''R15: '', 18, r15 r)],
        register_line [(''CR0: '', 10, cr0 r), (''CR2: '', 18, cr2 r), (''CR3: '', 18, cr3 r), (''CR4: '', 10, cr4 r)]] sys"

text \<open>The walk along the frame pointers, with the number of frames it may still visit.\<close>

type_synonym frame_entry = "nat \<times> u64 \<times> u64"

fun walk_frames :: "(nat \<Rightarrow> u64) \<Rightarrow> nat \<Rightarrow> nat \<Rightarrow> u64 \<Rightarrow> frame_entry list option" where
  "walk_frames ram 0 depth bp = Some []"
| "walk_frames ram (Suc k) depth bp =
     (if bp = 0 \<or> bp < 0x1000 then Some []
      else do { a \<leftarrow> uadd (unat bp) 8;
                let return_addr = ram a;
                let next_bp = ram (unat bp);
                rest \<leftarrow> (if next_bp < bp then Some [] else walk_frames ram k (depth + 1) next_bp);
                Some ((depth, return_addr, bp) # rest) })"

definition frame_text :: "frame_entry \<Rightarrow> rstr" where
  "frame_text f =
     (case f of (depth, return_addr, bp) \<Rightarrow>
        ascii ''  '' @ show_dec depth @ ascii '': '' @ show_hex 18 (unat return_addr) @
        ascii ''  (rbp='' @ show_hex 18 (unat bp) @ ascii '')'')"

definition stack_trace :: "'d machine \<Rightarrow> (nat \<Rightarrow> u64) \<Rightarrow> u64 \<Rightarrow> 'd system \<Rightarrow> 'd system option" where
  "stack_trace mc ram bp sys =
     do { fs \<leftarrow> walk_frames ram 16 0 bp;
          Some (fold (log_error mc) ((thin 2 @ ascii '' STACK TRACE '' @ thin 21) # map frame_text fs) sys) }"

definition crash_dump :: "'d machine \<Rightarrow> registers \<Rightarrow> (nat \<Rightarrow> u64) \<Rightarrow> u64 \<Rightarrow> rstr \<Rightarrow> 'd system \<Rightarrow> 'd system option" where
  "crash_dump mc r ram bp reason sys =
     (let sys = log_error mc (thick 10 @ ascii '' KERNEL CRASH '' @ thick 10) sys;
          sys = log_error mc (ascii ''reason: '' @ reason) sys;
          sys = dump_registers mc r sys
      in do { sys \<leftarrow> stack_trace mc ram bp sys;
              let sys = dump_to_serial mc (snapshot (metrics (kheap sys))) sys;
              let sys = dump_trace mc 16 sys;
              Some (log_error mc (thick 36) sys) })"

definition hexdump_line :: "(nat \<Rightarrow> u8) \<Rightarrow> nat \<Rightarrow> nat \<Rightarrow> nat \<Rightarrow> rstr option" where
  "hexdump_line ram addr len offset =
     do { a \<leftarrow> uadd addr offset;
          Some (ascii ''  '' @ show_hex 10 a @ ascii '': '' @
            concat (map (\<lambda>i. if offset + i < len
                             then pad_zero 2 (show_base 16 (unat (ram (addr + (offset + i))))) @ ascii '' ''
                             else ascii ''   '') [0..<16])) }"

text \<open>The offsets of \<^verbatim>\<open>(0..len).step_by(16)\<close>\<close>

definition hexdump_offsets :: "nat \<Rightarrow> nat list" where
  "hexdump_offsets len = map (\<lambda>k. 16 * k) [0..<(len + 15) div 16]"

definition hexdump :: "'d machine \<Rightarrow> (nat \<Rightarrow> u8) \<Rightarrow> nat \<Rightarrow> nat \<Rightarrow> 'd system \<Rightarrow> 'd system option" where
  "hexdump mc ram addr len sys =
     for_each (\<lambda>offset sys. do { l \<leftarrow> hexdump_line ram addr len offset; Some (log_error mc l sys) })
       (hexdump_offsets len)
       (log_error mc (thin 2 @ ascii '' HEXDUMP '' @ show_hex 18 addr @ ascii '' '' @ thin 2) sys)"

end
