(* ===== verification/Shell.thy ===== *)
theory Shell
  imports Console Filesystem_Props
begin

text \<open>
  \<^verbatim>\<open>kernel/src/shell.rs\<close>: the line editor, the commands and the task that feeds them with key
  presses.  The state is that of the console, the kernel heap and the file system the commands work
  on.  The keyboard decoder of the \<^verbatim>\<open>pc_keyboard\<close> crate is a parameter; of its key codes the
  model names those the shell tests.  The vectors and strings the commands build on the way (the
  words of \<^verbatim>\<open>echo\<close>, a copy of a file) are values, their heap blocks are not tracked.
\<close>

subsection \<open>Keys and the line buffer\<close>

datatype key_code = Backspace | OemPlus | NumpadAdd | OemMinus | NumpadSubtract | OtherKey nat

text \<open>A character is its code point.\<close>

datatype decoded_key = Unicode nat | RawKey key_code

record shell =
  buf :: "u8 list"
  pos :: nat

definition shell_new :: shell where
  "shell_new = \<lparr>buf = replicate 256 0, pos = 0\<rparr>"

definition print_prompt :: "'d machine \<Rightarrow> 'd system \<Rightarrow> 'd system option" where
  "print_prompt mc = vga_print mc ([0x1B] @ ascii ''[32m$ '' @ [0x1B] @ ascii ''[0m'')"

definition shell_push :: "'d machine \<Rightarrow> nat \<Rightarrow> shell \<times> 'd system \<Rightarrow> (shell \<times> 'd system) option" where
  "shell_push mc c s =
     (let (sh, sys) = s
      in if pos sh < length (buf sh) then
           do { let sh = sh\<lparr>buf := (buf sh)[pos sh := of_nat c]\<rparr>;
                p \<leftarrow> uadd (pos sh) 1;
                sys \<leftarrow> vga_print mc [of_nat c] sys;
                Some (sh\<lparr>pos := p\<rparr>, sys) }
         else Some (sh, sys))"

definition shell_backspace :: "'d machine \<Rightarrow> shell \<times> 'd system \<Rightarrow> (shell \<times> 'd system) option" where
  "shell_backspace mc s =
     (let (sh, sys) = s
      in if pos sh > 0 then
           do { p \<leftarrow> usub (pos sh) 1;
                sys \<leftarrow> vga_print mc [0x08, 0x20, 0x08] sys;
                Some (sh\<lparr>pos := p\<rparr>, sys) }
         else Some (sh, sys))"

subsection \<open>Commands\<close>

definition cmd_help :: "'d machine \<Rightarrow> 'd system \<Rightarrow> 'd system option" where
  "cmd_help mc =
     vga_println mc (ascii ''commands: help, mem, trace [n], ls <path>, cat <path>, alloc <n>, uptime, clear, echo <text>'')"

definition cmd_mem :: "'d machine \<Rightarrow> 'd system \<Rightarrow> 'd system option" where
  "cmd_mem mc sys =
     (let m = snapshot (metrics (kheap sys))
      in for_each (vga_println mc)
           ([ascii ''alloc: '' @ show_dec (unat (alloc_count m)) @ ascii '' allocs, '' @ show_dec (unat (free_count m)) @
             ascii '' frees, '' @ show_dec (unat (current_allocated m)) @ ascii '' bytes in use (peak: '' @
             show_dec (unat (peak_allocated m)) @ ascii '')'',
             ascii ''frames: '' @ show_dec (unat (allocated_frames m)) @ ascii ''/'' @ show_dec (unat (m_total_frames m)) @
             ascii ''  tasks: spawned='' @ show_dec (unat (tasks_spawned m)) @ ascii '' completed='' @
             show_dec (unat (tasks_completed m)) @ ascii '' active='' @ show_dec (unat (active_tasks m)),
             ascii ''dropped wakes: '' @ show_dec (unat (dropped_wakes m)) @ ascii ''  ticks: '' @ show_dec (unat (timer_ticks m))]
            @ irq_lines m) sys)"

definition cmd_trace :: "'d machine \<Rightarrow> rstr option \<Rightarrow> 'd system \<Rightarrow> 'd system option" where
  "cmd_trace mc n_arg sys =
     (let n = (case Option.bind n_arg parse_usize of Some n \<Rightarrow> n | None \<Rightarrow> 10)
      in do { sys \<leftarrow> vga_println mc (ascii ''dumping last '' @ show_dec n @ ascii '' trace events to serial...'') sys;
              Some (dump_trace mc n sys) })"

fun fs_error_name :: "fs_error \<Rightarrow> string" where
  "fs_error_name NotFound = ''NotFound''"
| "fs_error_name AlreadyExists = ''AlreadyExists''"
| "fs_error_name NotAFile = ''NotAFile''"
| "fs_error_name NotADirectory = ''NotADirectory''"
| "fs_error_name InvalidPath = ''InvalidPath''"
| "fs_error_name FileTooLarge = ''FileTooLarge''"
| "fs_error_name TooManyChildren = ''TooManyChildren''"
| "fs_error_name PathTooDeep = ''PathTooDeep''"
| "fs_error_name TooManyInodes = ''TooManyInodes''"
| "fs_error_name DirectoryNotEmpty = ''DirectoryNotEmpty''"

definition cmd_ls :: "'d machine \<Rightarrow> rstr option \<Rightarrow> 'd system \<Rightarrow> 'd system option" where
  "cmd_ls mc arg sys =
     (let path = (case arg of Some p \<Rightarrow> p | None \<Rightarrow> ascii ''/'')
      in case list_dir (files sys) (to_string path) of
           Inr names \<Rightarrow>
             do { sys \<leftarrow> vga_println mc (path @ ascii '' ('' @ show_dec (length names) @ ascii '' entries):'') sys;
                  for_each (\<lambda>name. vga_println mc (ascii (''  '' @ name))) names sys }
         | Inl NotADirectory \<Rightarrow>
             (case read_file (files sys) (to_string path) of
                Inr data \<Rightarrow> vga_println mc (path @ ascii '' (file, '' @ show_dec (length data) @ ascii '' bytes)'') sys
              | Inl _ \<Rightarrow> vga_println mc (ascii ''ls: '' @ path @ ascii '': not found'') sys)
         | Inl e \<Rightarrow> vga_println mc (ascii ''ls: '' @ path @ ascii ('': '' @ fs_error_name e)) sys)"

definition cmd_cat :: "'d machine \<Rightarrow> rstr option \<Rightarrow> 'd system \<Rightarrow> 'd system option" where
  "cmd_cat mc arg sys =
     (case arg of
        None \<Rightarrow> vga_println mc (ascii ''cat: missing path'') sys
      | Some path \<Rightarrow>
          (case read_file (files sys) (to_string path) of
             Inr data \<Rightarrow>
               (if utf8_valid data then vga_print mc data sys
                else vga_println mc (ascii ''(binary file, '' @ show_dec (length data) @ ascii '' bytes)'') sys)
           | Inl NotAFile \<Rightarrow> vga_println mc (ascii ''cat: '' @ path @ ascii '': is a directory'') sys
           | Inl e \<Rightarrow> vga_println mc (ascii ''cat: '' @ path @ ascii ('': '' @ fs_error_name e)) sys))"

text \<open>\<^verbatim>\<open>Layout::from_size_align(size, 8)\<close> refuses what exceeds \<^verbatim>\<open>isize::MAX\<close> when rounded up.\<close>

definition cmd_alloc :: "'d machine \<Rightarrow> rstr option \<Rightarrow> 'd system \<Rightarrow> 'd system option" where
  "cmd_alloc mc size_arg sys =
     (case Option.bind size_arg parse_usize of
        Some (Suc k) \<Rightarrow>
          do { let l = \<lparr>lsize = Suc k, lalign = 8\<rparr>;
               _ \<leftarrow> require (lsize l \<le> 2 ^ 63 - 8);
               (p, h) \<leftarrow> heap_alloc (tsc mc) (spurious mc) l (kheap sys);
               let sys = sys\<lparr>kheap := h\<rparr>;
               if p = 0 then
                 vga_println mc (ascii ''alloc: allocation of '' @ show_dec (lsize l) @ ascii '' bytes failed'') sys
               else
                 do { sys \<leftarrow> vga_println mc (ascii ''alloc: '' @ show_dec (lsize l) @ ascii '' bytes at '' @ show_hex 18 p) sys;
                      h \<leftarrow> heap_dealloc (tsc mc) p l (kheap sys);
                      Some (sys\<lparr>kheap := h\<rparr>) } }
      | _ \<Rightarrow> vga_println mc (ascii ''alloc: invalid size'') sys)"

definition cmd_uptime :: "'d machine \<Rightarrow> 'd system \<Rightarrow> 'd system option" where
  "cmd_uptime mc sys =
     vga_println mc (ascii ''uptime: '' @ show_dec (unat (uptime_ticks (metrics (kheap sys)))) @ ascii '' ticks'') sys"

definition cmd_clear :: "'d machine \<Rightarrow> 'd system \<Rightarrow> 'd system option" where
  "cmd_clear mc sys =
     do { (_, scr) \<leftarrow> with_framebuffer_mut (\<lambda>fb. do { fb \<leftarrow> clear_screen fb; Some ((), fb) }) (screen sys);
          print_prompt mc (sys\<lparr>screen := scr\<rparr>) }"

definition cmd_echo :: "'d machine \<Rightarrow> rstr \<Rightarrow> 'd system \<Rightarrow> 'd system option" where
  "cmd_echo mc txt sys = (if txt = [] then vga_println mc [] sys else vga_println mc txt sys)"

subsection \<open>Executing a line\<close>

definition next_word :: "rstr list \<Rightarrow> rstr option" where
  "next_word parts = (case parts of [] \<Rightarrow> None | w # _ \<Rightarrow> Some w)"

definition run_command :: "'d machine \<Rightarrow> rstr \<Rightarrow> rstr list \<Rightarrow> 'd system \<Rightarrow> 'd system option" where
  "run_command mc cmd parts sys =
     (if cmd = ascii ''help'' then cmd_help mc sys
      else if cmd = ascii ''mem'' then cmd_mem mc sys
      else if cmd = ascii ''trace'' then cmd_trace mc (next_word parts) sys
      else if cmd = ascii ''ls'' then cmd_ls mc (next_word parts) sys
      else if cmd = ascii ''cat'' then cmd_cat mc (next_word parts) sys
      else if cmd = ascii ''alloc'' then cmd_alloc mc (next_word parts) sys
      else if cmd = ascii ''uptime'' then cmd_uptime mc sys
      else if cmd = ascii ''clear'' then cmd_clear mc sys
      else if cmd = ascii ''echo'' then cmd_echo mc (join_words parts) sys
      else if cmd = [] then Some sys
      else vga_println mc (ascii ''unknown command: '' @ cmd) sys)"

definition execute :: "'d machine \<Rightarrow> shell \<times> 'd system \<Rightarrow> (shell \<times> 'd system) option" where
  "execute mc s =
     (let (sh, sys) = s
      in do { _ \<leftarrow> require (pos sh \<le> length (buf sh));
              let line = take (pos sh) (buf sh);
              let input = trim (if utf8_valid line then line else []);
              let parts = split_whitespace input;
              sys \<leftarrow> (case parts of
                         [] \<Rightarrow> run_command mc [] [] sys
                       | cmd # parts \<Rightarrow> run_command mc cmd parts sys);
              Some (sh\<lparr>pos := 0\<rparr>, sys) })"

definition is_ascii_graphic :: "nat \<Rightarrow> bool" where
  "is_ascii_graphic c \<longleftrightarrow> 0x21 \<le> c \<and> c \<le> 0x7E"

definition handle_key :: "'d machine \<Rightarrow> decoded_key \<Rightarrow> shell \<times> 'd system \<Rightarrow> (shell \<times> 'd system) option" where
  "handle_key mc key s =
     (if key = Unicode 0x0A then
        do { sys \<leftarrow> vga_println mc [] (snd s);
             (sh, sys) \<leftarrow> execute mc (fst s, sys);
             sys \<leftarrow> print_prompt mc sys;
             Some (sh, sys) }
      else if key = Unicode 0x08 \<or> key = RawKey Backspace then shell_backspace mc s
      else (case key of
              Unicode c \<Rightarrow> (if is_ascii_graphic c \<or> c = 0x20 then shell_push mc c s else Some s)
            | RawKey _ \<Rightarrow> Some s))"

subsection \<open>The task\<close>

text \<open>
  The decoder: \<^verbatim>\<open>add_byte\<close> gives an event for some scancodes (an error counts as none),
  \<^verbatim>\<open>process_keyevent\<close> a key for some events.
\<close>

record ('k, 'e) decoder =
  add_byte :: "u8 \<Rightarrow> 'k \<Rightarrow> 'e option \<times> 'k"
  process_keyevent :: "'e \<Rightarrow> 'k \<Rightarrow> decoded_key option \<times> 'k"
  event_key :: "'e \<Rightarrow> key_code"
  is_ctrl :: "'k \<Rightarrow> bool"

definition fb_scale_factor :: "fb_writer option \<Rightarrow> u8 option" where
  "fb_scale_factor g = map_option scale_factor g"

definition change_scale :: "'d machine \<Rightarrow> bool \<Rightarrow> 'd system \<Rightarrow> 'd system option" where
  "change_scale mc up sys =
     do { (changed, scr) \<leftarrow> (if up then fb_scale_up (screen sys) else fb_scale_down (screen sys));
          let sys = sys\<lparr>screen := scr\<rparr>;
          if changed then
            do { let n = (case fb_scale_factor (screen sys) of Some n \<Rightarrow> n | None \<Rightarrow> 1);
                 sys \<leftarrow> vga_print mc ([0x1B] @ ascii ''[33m[scale '' @ show_dec (unat n) @ ascii ''x]'' @ [0x1B] @ ascii ''[0m'' @ [0x0A]) sys;
                 print_prompt mc sys }
          else Some sys }"

definition shell_scancode ::
  "('k, 'e) decoder \<Rightarrow> 'd machine \<Rightarrow> u8 \<Rightarrow> 'k \<times> shell \<times> 'd system \<Rightarrow> ('k \<times> shell \<times> 'd system) option" where
  "shell_scancode dc mc scancode s =
     (let (k, sh, sys) = s; (ev, k) = add_byte dc scancode k
      in case ev of
           None \<Rightarrow> Some (k, sh, sys)
         | Some key_event \<Rightarrow>
             (let code = event_key dc key_event;
                  (key, k) = process_keyevent dc key_event k;
                  is_scale_up = (code = OemPlus \<or> code = NumpadAdd);
                  is_scale_down = (code = OemMinus \<or> code = NumpadSubtract)
              in case key of
                   None \<Rightarrow> Some (k, sh, sys)
                 | Some key \<Rightarrow>
                     if (is_scale_up \<or> is_scale_down) \<and> is_ctrl dc k then
                       do { sys \<leftarrow> change_scale mc is_scale_up sys; Some (k, sh, sys) }
                     else do { (sh, sys) \<leftarrow> handle_key mc key (sh, sys); Some (k, sh, sys) }))"

text \<open>The task up to the point where it has taken the given scancodes from the stream.\<close>

definition shell_task ::
  "('k, 'e) decoder \<Rightarrow> 'd machine \<Rightarrow> 'k \<Rightarrow> u8 list \<Rightarrow> 'd system \<Rightarrow> ('k \<times> shell \<times> 'd system) option" where
  "shell_task dc mc k scancodes sys =
     do { sys \<leftarrow> print_prompt mc sys;
          for_each (shell_scancode dc mc) scancodes (k, shell_new, sys) }"

end
