(* ===== verification/Console_Props.thy ===== *)
theory Console_Props
  imports Console Kernel_Heap_Props
begin

text \<open>
  The output functions touch only the serial port and the screen, never fail on a well-formed screen,
  and put on the wire exactly the bytes they print.
\<close>

subsection \<open>The wire\<close>

definition wire_ok :: "'d machine \<Rightarrow> (u8 \<Rightarrow> nat) \<Rightarrow> ('d \<Rightarrow> uart_dev) \<Rightarrow> 'd system \<Rightarrow> bool" where
  "wire_ok mc delay uart sys \<longleftrightarrow>
     uart_bus_ok (bus mc) com1 delay uart \<and> (\<forall>v. delay v < 100000) \<and> remaining (uart (dev sys)) < 100000 \<and>
     (serial_up sys \<longrightarrow> \<not> bit (lcr (uart (dev sys))) 7)"

definition wire :: "('d \<Rightarrow> uart_dev) \<Rightarrow> 'd system \<Rightarrow> rstr" where
  "wire uart sys = outgoing (uart (dev sys))"

lemma write_str_wire:
  assumes "uart_bus_ok b p delay uart" "\<forall>v. delay v < 100000" "remaining (uart d) < 100000" "\<not> bit (lcr (uart d)) 7"
  shows "outgoing (uart (write_str b p s d)) = outgoing (uart d) @ s \<and>
    remaining (uart (write_str b p s d)) < 100000 \<and> \<not> bit (lcr (uart (write_str b p s d))) 7"
  using assms(3,4)
proof (induction s arbitrary: d)
  case (Cons v s)
  then show ?case
    using send_outgoing [OF assms(1) Cons.prems, of v] assms(2) by (simp add: write_str_def)
qed (simp add: write_str_def)

lemma serial_init_wire:
  assumes "uart_bus_ok b p delay uart"
  shows "outgoing (uart (serial_init b p d)) = outgoing (uart d)" "remaining (uart (serial_init b p d)) = remaining (uart d)"
    "\<not> bit (lcr (uart (serial_init b p d))) 7"
proof -
  have "uart (serial_init b p d) = (uart d)\<lparr>lcr := 3, divisor := 3\<rparr>"
    using assms by (simp add: uart_bus_ok_def serial_init_def Let_def uart_write_data_def)
  then show "outgoing (uart (serial_init b p d)) = outgoing (uart d)" "remaining (uart (serial_init b p d)) = remaining (uart d)"
    "\<not> bit (lcr (uart (serial_init b p d))) 7"
    by (simp_all add: outgoing_def remaining_def)
qed

lemma serial_print_wire:
  assumes "wire_ok mc delay uart sys"
  shows "wire_ok mc delay uart (serial_print mc s sys)" "wire uart (serial_print mc s sys) = wire uart sys @ s"
  using assms write_str_wire [of "bus mc" com1 delay uart "dev sys" s]
    write_str_wire [of "bus mc" com1 delay uart "serial_init (bus mc) com1 (dev sys)" s]
    serial_init_wire [of "bus mc" com1 delay uart "dev sys"]
  by (auto simp: wire_ok_def wire_def serial_print_def Let_def)

lemma serial_print_fields [simp]:
  "screen (serial_print mc s sys) = screen sys" "kheap (serial_print mc s sys) = kheap sys"
  "files (serial_print mc s sys) = files sys"
  by (simp_all add: serial_print_def Let_def)

lemma log_macro_fields [simp]:
  "screen (log_macro mc l t s sys) = screen sys" "kheap (log_macro mc l t s sys) = kheap sys"
  "files (log_macro mc l t s sys) = files sys"
  by (simp_all add: log_macro_def logger_log_def)

lemma fold_log_fields [simp]:
  "screen (fold (log_macro mc l t) ss sys) = screen sys" "kheap (fold (log_macro mc l t) ss sys) = kheap sys"
  "files (fold (log_macro mc l t) ss sys) = files sys"
  by (induction ss arbitrary: sys) simp_all

lemma fold_log_wire:
  assumes "wire_ok mc delay uart sys"
  shows "wire_ok mc delay uart (fold (log_macro mc l t) ss sys) \<and>
    wire uart (fold (log_macro mc l t) ss sys) =
      wire uart sys @ (if registered mc \<and> level_le l (max_level mc) then concat (map (log_line l t) ss) else [])"
  using assms
proof (induction ss arbitrary: sys)
  case (Cons s ss)
  have "wire_ok mc delay uart (log_macro mc l t s sys) \<and>
    wire uart (log_macro mc l t s sys) = wire uart sys @ (if registered mc \<and> level_le l (max_level mc) then log_line l t s else [])"
    using serial_print_wire [OF Cons.prems] Cons.prems by (simp add: log_macro_def logger_log_def log_enabled_def)
  then show ?case
    using Cons.IH by auto
qed simp

subsection \<open>Printing\<close>

definition screen_ok :: "fb_writer option \<Rightarrow> bool" where
  "screen_ok g \<longleftrightarrow> (case g of None \<Rightarrow> True | Some fb \<Rightarrow> fb_inv fb)"

lemma fb_print_ok: "screen_ok g \<Longrightarrow> \<exists>g'. fb_print s g = Some g' \<and> screen_ok g'"
  using write_string_inv [of _ s] by (force simp: screen_ok_def fb_print_def split: option.splits)

text \<open>What printing leaves alone.\<close>

definition printed :: "'d system \<Rightarrow> 'd system \<Rightarrow> bool" where
  "printed sys sys' \<longleftrightarrow> screen_ok (screen sys') \<and> kheap sys' = kheap sys \<and> files sys' = files sys"

lemma printed_trans: "printed sys sys' \<Longrightarrow> printed sys' sys'' \<Longrightarrow> printed sys sys''"
  by (simp add: printed_def)

lemma vga_print_ok: "screen_ok (screen sys) \<Longrightarrow> \<exists>sys'. vga_print mc s sys = Some sys' \<and> printed sys sys'"
  using fb_print_ok [of "screen sys" s] by (auto simp: vga_print_def Let_def printed_def)

lemma vga_println_ok: "screen_ok (screen sys) \<Longrightarrow> \<exists>sys'. vga_println mc s sys = Some sys' \<and> printed sys sys'"
  by (simp add: vga_println_def vga_print_ok)

lemma fold_log_printed: "screen_ok (screen sys) \<Longrightarrow> printed sys (fold (log_macro mc l t) ss sys)"
  by (simp add: printed_def)

lemma for_each_printed:
  assumes "\<And>i sys. screen_ok (screen sys) \<Longrightarrow> \<exists>sys'. body i sys = Some sys' \<and> printed sys sys'" "screen_ok (screen sys)"
  shows "\<exists>sys'. for_each body xs sys = Some sys' \<and> printed sys sys'"
  using assms(2)
proof (induction xs arbitrary: sys)
  case (Cons i xs)
  obtain sys1 where "body i sys = Some sys1" "printed sys sys1"
    using assms(1) [OF Cons.prems] by blast
  moreover from this(2) obtain sys2 where "for_each body xs sys1 = Some sys2" "printed sys1 sys2"
    using Cons.IH [of sys1] by (auto simp: printed_def)
  ultimately show ?case
    using printed_trans by auto
qed (simp add: printed_def)

subsection \<open>The stack trace\<close>

text \<open>The chain of stack frames from a frame pointer on, as return address and frame pointer of each.\<close>

fun frame_chain :: "(nat \<Rightarrow> u64) \<Rightarrow> u64 \<Rightarrow> (u64 \<times> u64) list \<Rightarrow> bool" where
  "frame_chain ram bp [] \<longleftrightarrow> bp < 0x1000"
| "frame_chain ram bp ((ret, b) # fs) \<longleftrightarrow>
     b = bp \<and> 0x1000 \<le> bp \<and> unat bp + 8 < 2 ^ 64 \<and> ram (unat bp + 8) = ret \<and>
     (fs \<noteq> [] \<longrightarrow> bp \<le> ram (unat bp)) \<and> frame_chain ram (ram (unat bp)) fs"

lemma walk_frames_chain:
  "frame_chain ram bp fs \<Longrightarrow> walk_frames ram k depth bp = Some (enumerate depth (take k fs))"
proof (induction ram k depth bp arbitrary: fs rule: walk_frames.induct)
  case (2 ram k depth bp)
  show ?case
  proof (cases fs)
    case Nil
    then show ?thesis
      using "2.prems" by simp
  next
    case (Cons f gs)
    obtain ret b where "f = (ret, b)"
      by (cases f)
    then have f: "f = (ram (unat bp + 8), bp)" and bp: "\<not> (bp = 0 \<or> bp < 0x1000)" and a: "uadd (unat bp) 8 = Some (unat bp + 8)"
      and last: "gs \<noteq> [] \<longrightarrow> bp \<le> ram (unat bp)" and gs: "frame_chain ram (ram (unat bp)) gs"
      using "2.prems" Cons by (auto simp: uadd_def not_less)
    show ?thesis
    proof (cases "ram (unat bp) < bp")
      case True
      then have "gs = []"
        using last by auto
      then show ?thesis
        using bp a True by (simp add: Cons f Let_def)
    next
      case False
      then show ?thesis
        using "2.IH" [OF bp a refl refl False gs] bp a by (simp add: Cons f Let_def)
    qed
  qed
qed simp

definition trace_report :: "(u64 \<times> u64) list \<Rightarrow> rstr" where
  "trace_report fs =
     concat (map (log_line LvlError ''yonti_os::debug'')
       ((thin 2 @ ascii '' STACK TRACE '' @ thin 21) # map frame_text (enumerate 0 (take 16 fs))))"


text \<open>A frame pointer in the last eight bytes of the address space stops the trace itself with an overflow.\<close>

lemma stack_trace_overflow: "2 ^ 64 - 8 \<le> unat bp \<Longrightarrow> stack_trace mc ram bp sys = None"
  using walk_frames.simps(2) [of ram 15 0 bp] by (auto simp: stack_trace_def uadd_def word_less_nat_alt)

definition demo_machine :: "uart_dev machine" where
  "demo_machine = \<lparr>bus = com1_bus, tsc = \<lambda>_. 7, spurious = \<lambda>_. [True], max_level = Some LvlInfo, registered = True\<rparr>"

definition demo_system :: "kernel_heap \<Rightarrow> uart_dev system" where
  "demo_system h =
     \<lparr>serial_up = False, dev = \<lparr>sent = [], holding = None, lcr = 0, divisor = 0\<rparr>, screen = Some demo_fb, kheap = h, files = fs_new\<rparr>"

lemma demo_wire: "wire_ok demo_machine (\<lambda>_. 40) id (demo_system h)" "wire id (demo_system h) = []"
  using com1_bus_ok by (simp_all add: wire_ok_def demo_machine_def demo_system_def remaining_def wire_def outgoing_def)


end
