(* ===== verification/Shell_Props.thy ===== *)
theory Shell_Props
  imports Shell Console_Props
begin

text \<open>
  The shell keeps its line buffer, the screen and the heap well formed whatever is typed, its line
  editor refines a bounded list of characters, and the only command that stops the kernel is
  \<^verbatim>\<open>alloc\<close> with an enormous size.
\<close>

subsection \<open>Commands that only print\<close>

definition prints :: "('d system \<Rightarrow> 'd system option) \<Rightarrow> bool" where
  "prints f \<longleftrightarrow> (\<forall>sys. screen_ok (screen sys) \<longrightarrow> (\<exists>sys'. f sys = Some sys' \<and> printed sys sys'))"

lemma prints_println: "prints (vga_println mc s)" "prints (vga_print mc s)"
  using vga_println_ok vga_print_ok by (auto simp: prints_def)

lemma prints_bind:
  assumes "prints f" "prints g"
  shows "prints (\<lambda>sys. do { sys \<leftarrow> f sys; g sys })"
  unfolding prints_def
proof (intro allI impI)
  fix sys :: "'a system" assume "screen_ok (screen sys)"
  then obtain sys1 where 1: "f sys = Some sys1" "printed sys sys1"
    using assms(1) by (auto simp: prints_def)
  then have "screen_ok (screen sys1)"
    by (simp add: printed_def)
  then obtain sys2 where "g sys1 = Some sys2" "printed sys1 sys2"
    using assms(2) unfolding prints_def by blast
  then show "\<exists>sys'. do { sys \<leftarrow> f sys; g sys } = Some sys' \<and> printed sys sys'"
    using 1 printed_trans by auto
qed

lemma prints_Some: "prints Some"
  by (simp add: prints_def printed_def)

lemma prints_for_each: "(\<And>x. prints (f x)) \<Longrightarrow> prints (for_each f xs)"
  unfolding prints_def using for_each_printed [of f] by blast

lemma prints_at: "(\<And>sys. \<exists>g. prints g \<and> f sys = g sys) \<Longrightarrow> prints f"
  unfolding prints_def by metis

lemma prints_dump_trace: "prints (\<lambda>sys. Some (dump_trace mc n sys))"
  by (simp add: prints_def dump_trace_def printed_def split: prod.splits)

lemma prints_prompt: "prints (print_prompt mc)"
  by (simp add: print_prompt_def prints_println)

lemma prints_mem: "prints (cmd_mem mc)"
proof (rule prints_at)
  fix sys :: "'a system"
  show "\<exists>g. prints g \<and> cmd_mem mc sys = g sys"
    unfolding cmd_mem_def Let_def using prints_for_each [of "vga_println mc", OF prints_println(1)] by blast
qed

lemma prints_trace: "prints (cmd_trace mc arg)"
  unfolding cmd_trace_def Let_def by (rule prints_bind [OF prints_println(1) prints_dump_trace])

lemma prints_entries: "prints (\<lambda>sys. do { sys \<leftarrow> vga_println mc s sys; for_each (\<lambda>name. vga_println mc (t name)) ns sys })"
  by (rule prints_bind [OF prints_println(1) prints_for_each]) (rule prints_println(1))

lemma prints_ls: "prints (cmd_ls mc arg)"
proof (rule prints_at)
  fix sys :: "'a system"
  show "\<exists>g. prints g \<and> cmd_ls mc arg sys = g sys"
  proof (cases "list_dir (files sys) (to_string (case arg of Some p \<Rightarrow> p | None \<Rightarrow> ascii ''/''))")
    case (Inl e)
    then show ?thesis
      using prints_println(1) [of mc] unfolding cmd_ls_def Let_def by (auto split: sum.split fs_error.split)
  next
    case (Inr names)
    show ?thesis
      unfolding cmd_ls_def Let_def Inr sum.case by (rule exI, rule conjI, rule prints_entries, rule refl)
  qed
qed

lemma prints_cat: "prints (cmd_cat mc arg)"
proof (rule prints_at)
  fix sys :: "'a system"
  show "\<exists>g. prints g \<and> cmd_cat mc arg sys = g sys"
    using prints_println [of mc] unfolding cmd_cat_def by (auto split: option.split sum.split fs_error.split)
qed

lemma prints_uptime: "prints (cmd_uptime mc)"
  by (rule prints_at) (use prints_println(1) in \<open>auto simp: cmd_uptime_def\<close>)

lemma prints_echo: "prints (cmd_echo mc s)"
  by (rule prints_at) (use prints_println(1) in \<open>auto simp: cmd_echo_def\<close>)

lemma clear_ok: "fb_inv fb \<Longrightarrow> \<exists>fb'. clear_screen fb = Some fb' \<and> fb_inv fb'"
  using clear_screen_inv [of fb] by (auto simp: fb_inv_def)

lemma prints_screen:
  assumes "prints f" "screen_ok scr"
  shows "\<exists>sys'. f (sys\<lparr>screen := scr\<rparr>) = Some sys' \<and> printed sys sys'"
proof -
  have "screen_ok (screen (sys\<lparr>screen := scr\<rparr>))"
    using assms(2) by simp
  then obtain sys' where "f (sys\<lparr>screen := scr\<rparr>) = Some sys'" "printed (sys\<lparr>screen := scr\<rparr>) sys'"
    using assms(1) unfolding prints_def by blast
  then show ?thesis
    by (simp add: printed_def)
qed

lemma prints_clear: "prints (cmd_clear mc)"
  unfolding prints_def
proof (intro allI impI)
  fix sys :: "'a system" assume "screen_ok (screen sys)"
  then obtain r scr where "with_framebuffer_mut (\<lambda>fb. do { fb \<leftarrow> clear_screen fb; Some ((), fb) }) (screen sys) = Some (r, scr)" "screen_ok scr"
    using clear_ok by (force simp: with_framebuffer_mut_def screen_ok_def split: option.splits)
  then show "\<exists>sys'. cmd_clear mc sys = Some sys' \<and> printed sys sys'"
    using prints_screen [OF prints_prompt [of mc]] by (simp add: cmd_clear_def)
qed

lemma fb_scale_ok:
  assumes "screen_ok g"
  shows "\<exists>b g'. fb_scale_up g = Some (b, g') \<and> screen_ok g'" "\<exists>b g'. fb_scale_down g = Some (b, g') \<and> screen_ok g'"
proof -
  have "(\<exists>b g'. fb_scale_up g = Some (b, g') \<and> screen_ok g') \<and> (\<exists>b g'. fb_scale_down g = Some (b, g') \<and> screen_ok g')"
  proof (cases g)
    case (Some fb)
    then have "fb_inv fb"
      using assms by (simp add: screen_ok_def)
    then obtain b fb1 c fb2 where "scale_up fb = Some (b, fb1)" "fb_inv fb1" "scale_down fb = Some (c, fb2)" "fb_inv fb2"
      using scale_inv [of fb] by auto
    then show ?thesis
      by (simp add: Some fb_scale_up_def fb_scale_down_def with_framebuffer_mut_def screen_ok_def)
  qed (auto simp: fb_scale_up_def fb_scale_down_def with_framebuffer_mut_def screen_ok_def)
  then show "\<exists>b g'. fb_scale_up g = Some (b, g') \<and> screen_ok g'" "\<exists>b g'. fb_scale_down g = Some (b, g') \<and> screen_ok g'"
    by blast+
qed

lemma prints_scale: "prints (change_scale mc up)"
  unfolding prints_def
proof (intro allI impI)
  fix sys :: "'a system" assume "screen_ok (screen sys)"
  then obtain b scr where r: "(if up then fb_scale_up (screen sys) else fb_scale_down (screen sys)) = Some (b, scr)" "screen_ok scr"
    using fb_scale_ok [of "screen sys"] by (cases up) auto
  have "\<exists>sys'. do { sys \<leftarrow> vga_print mc s (sys\<lparr>screen := scr\<rparr>); print_prompt mc sys } = Some sys' \<and> printed sys sys'" for s
    by (rule prints_screen [OF prints_bind [OF prints_println(2) prints_prompt] r(2)])
  moreover have "printed sys (sys\<lparr>screen := scr\<rparr>)"
    using r(2) by (simp add: printed_def)
  ultimately show "\<exists>sys'. change_scale mc up sys = Some sys' \<and> printed sys sys'"
    unfolding change_scale_def Let_def r(1) by simp
qed

subsection \<open>The state of the shell\<close>

definition shell_ok :: "shell \<Rightarrow> bool" where
  "shell_ok sh \<longleftrightarrow> length (buf sh) = 256 \<and> pos sh \<le> 256 \<and> (\<forall>c \<in> set (take (pos sh) (buf sh)). 0x20 \<le> c \<and> c \<le> 0x7E)"

definition system_ok :: "nat \<Rightarrow> nat \<Rightarrow> (nat \<times> layout) set \<Rightarrow> 'd system \<Rightarrow> bool" where
  "system_ok lo hi live sys \<longleftrightarrow> screen_ok (screen sys) \<and> heap_inv lo hi (kheap sys) live"

text \<open>The line typed so far.\<close>

definition typed :: "shell \<Rightarrow> rstr" where
  "typed sh = take (pos sh) (buf sh)"

text \<open>The line asks \<^verbatim>\<open>alloc\<close> for \<open>2^59\<close> bytes or more.\<close>

definition huge_alloc :: "rstr \<Rightarrow> bool" where
  "huge_alloc line \<longleftrightarrow>
     (case split_whitespace (trim line) of
        cmd # arg # _ \<Rightarrow> cmd = ascii ''alloc'' \<and> (case parse_usize arg of Some n \<Rightarrow> 2 ^ 59 \<le> n | None \<Rightarrow> False)
      | _ \<Rightarrow> False)"

lemma prints_ok:
  assumes "prints f" "system_ok lo hi live sys"
  shows "\<exists>sys'. f sys = Some sys' \<and> system_ok lo hi live sys' \<and> files sys' = files sys"
  using assms by (fastforce simp: prints_def system_ok_def printed_def)

text \<open>A command either returns with the state in order, or stops the kernel, for the given reason only.\<close>

definition returns_or :: "bool \<Rightarrow> nat \<Rightarrow> nat \<Rightarrow> (nat \<times> layout) set \<Rightarrow> 'd system \<Rightarrow> 'd system option \<Rightarrow> bool" where
  "returns_or reason lo hi live sys r \<longleftrightarrow>
     (case r of Some sys' \<Rightarrow> system_ok lo hi live sys' \<and> files sys' = files sys | None \<Rightarrow> reason)"

lemma prints_returns: "prints f \<Longrightarrow> system_ok lo hi live sys \<Longrightarrow> returns_or reason lo hi live sys (f sys)"
  using prints_ok [of f lo hi live sys] by (auto simp: returns_or_def)

lemma returns_or_mono: "returns_or False lo hi live sys r \<Longrightarrow> returns_or b lo hi live sys r"
  by (cases r) (auto simp: returns_or_def)

lemma alloc_report_ok:
  assumes inv: "heap_inv lo hi h (if p = 0 then live else insert (p, l) live)" and new: "p \<noteq> 0 \<longrightarrow> (p, l) \<notin> live"
    and scr: "screen_ok (screen sys)"
  shows "returns_or False lo hi live sys
      (if p = 0 then vga_println mc s (sys\<lparr>kheap := h\<rparr>)
       else do { sys \<leftarrow> vga_println mc s' (sys\<lparr>kheap := h\<rparr>); h \<leftarrow> heap_dealloc clk p l (kheap sys); Some (sys\<lparr>kheap := h\<rparr>) })"
proof -
  have print: "\<exists>sys'. vga_println mc s (sys\<lparr>kheap := h\<rparr>) = Some sys' \<and> screen_ok (screen sys') \<and> kheap sys' = h \<and> files sys' = files sys" for s
    using vga_println_ok [of "sys\<lparr>kheap := h\<rparr>" mc s] scr by (auto simp: printed_def)
  show ?thesis
  proof (cases "p = 0")
    case True
    obtain sys' where "vga_println mc s (sys\<lparr>kheap := h\<rparr>) = Some sys'" "screen_ok (screen sys')" "kheap sys' = h" "files sys' = files sys"
      using print by blast
    then show ?thesis
      using True inv by (simp add: returns_or_def system_ok_def)
  next
    case False
    obtain sys' where sys': "vga_println mc s' (sys\<lparr>kheap := h\<rparr>) = Some sys'" "screen_ok (screen sys')" "kheap sys' = h" "files sys' = files sys"
      using print by blast
    have inv': "heap_inv lo hi h (insert (p, l) live)"
      using inv False by simp
    obtain h' where h': "heap_dealloc clk p l h = Some h'" "heap_inv lo hi h' (insert (p, l) live - {(p, l)})"
      using heap_dealloc_inv [OF inv' insertI1, of clk] by blast
    have "insert (p, l) live - {(p, l)} = live"
      using new False by simp
    then show ?thesis
      using sys' h' False by (simp add: returns_or_def system_ok_def)
  qed
qed

lemma cmd_alloc_ok:
  assumes ok: "system_ok lo hi live sys"
  shows "returns_or (\<exists>n. Option.bind arg parse_usize = Some n \<and> 2 ^ 59 \<le> n) lo hi live sys (cmd_alloc mc arg sys)"
proof (cases "\<exists>k. Option.bind arg parse_usize = Some (Suc k)")
  case True
  then obtain k where k: "Option.bind arg parse_usize = Some (Suc k)"
    by blast
  define l where "l = \<lparr>lsize = Suc k, lalign = 8\<rparr>"
  have l: "lsize l = Suc k" "lalign l = 8"
    by (simp_all add: l_def)
  have inv: "heap_inv lo hi (kheap sys) live" and scr: "screen_ok (screen sys)"
    using ok by (auto simp: system_ok_def)
  have eq: "cmd_alloc mc arg sys =
      do { _ \<leftarrow> require (lsize l \<le> 2 ^ 63 - 8); (p, h) \<leftarrow> heap_alloc (tsc mc) (spurious mc) l (kheap sys);
           if p = 0 then vga_println mc (ascii ''alloc: allocation of '' @ show_dec (lsize l) @ ascii '' bytes failed'') (sys\<lparr>kheap := h\<rparr>)
           else do { sys \<leftarrow> vga_println mc (ascii ''alloc: '' @ show_dec (lsize l) @ ascii '' bytes at '' @ show_hex 18 p) (sys\<lparr>kheap := h\<rparr>);
                     h \<leftarrow> heap_dealloc (tsc mc) p l (kheap sys);
                     Some (sys\<lparr>kheap := h\<rparr>) } }"
    by (simp add: cmd_alloc_def k Let_def flip: l_def)
  have fin: "returns_or b lo hi live sys (cmd_alloc mc arg sys)"
    if "heap_alloc (tsc mc) (spurious mc) l (kheap sys) = Some (p, h)" "lsize l \<le> 2 ^ 63 - 8"
      "heap_inv lo hi h (if p = 0 then live else insert (p, l) live)" "p \<noteq> 0 \<longrightarrow> (p, l) \<notin> live" for p h b
  proof -
    have eq': "cmd_alloc mc arg sys =
        (if p = 0 then vga_println mc (ascii ''alloc: allocation of '' @ show_dec (lsize l) @ ascii '' bytes failed'') (sys\<lparr>kheap := h\<rparr>)
         else do { sys \<leftarrow> vga_println mc (ascii ''alloc: '' @ show_dec (lsize l) @ ascii '' bytes at '' @ show_hex 18 p) (sys\<lparr>kheap := h\<rparr>);
                   h \<leftarrow> heap_dealloc (tsc mc) p l (kheap sys);
                   Some (sys\<lparr>kheap := h\<rparr>) })"
      unfolding eq that(1) using that(2) by (simp add: require_def)
    show ?thesis
      unfolding eq' by (rule returns_or_mono [OF alloc_report_ok [OF that(3,4) scr]])
  qed
  consider "lsize l < 2 ^ 57" | "2 ^ 57 \<le> lsize l" "lsize l \<le> 2 ^ 63 - 8" | "2 ^ 63 - 8 < lsize l"
    by linarith
  then show ?thesis
  proof cases
    case 1
    then have "heap_layout l" "lsize l \<le> 2 ^ 63 - 8"
      using pow2_8 by (auto simp: heap_layout_def sized_layout_def layout_ok_def l_def)
    then show ?thesis
      using heap_alloc_inv [OF inv, of l "tsc mc" "spurious mc"] fin by blast
  next
    case 2
    from heap_alloc_large [OF inv l(2) this, of "tsc mc" "spurious mc"] show ?thesis
      using fin [of 0 "kheap sys"] 2 inv k l(1) by (auto simp: eq returns_or_def require_def)
  next
    case 3
    then show ?thesis
      using k l(1) by (simp add: eq returns_or_def require_def)
  qed
next
  case False
  then have "cmd_alloc mc arg sys = vga_println mc (ascii ''alloc: invalid size'') sys"
    by (auto simp: cmd_alloc_def split: option.split nat.split)
  then show ?thesis
    using prints_returns [OF prints_println(1) ok] by simp
qed

lemma prints_If: "prints f \<Longrightarrow> prints g \<Longrightarrow> prints (if b then f else g)"
  by simp

lemmas command_prints =
  prints_mem prints_trace prints_ls prints_cat prints_uptime prints_clear prints_echo prints_Some prints_println

lemma run_command_ok:
  assumes ok: "system_ok lo hi live sys"
  shows "returns_or (cmd = ascii ''alloc'' \<and> (\<exists>n. Option.bind (next_word parts) parse_usize = Some n \<and> 2 ^ 59 \<le> n))
    lo hi live sys (run_command mc cmd parts sys)"
proof (cases "cmd = ascii ''alloc''")
  case True
  then have "run_command mc cmd parts sys = cmd_alloc mc (next_word parts) sys"
    by (simp add: run_command_def)
  then show ?thesis
    using cmd_alloc_ok [OF ok, of "next_word parts" mc] True by simp
next
  case False
  have eq: "run_command mc cmd parts =
    (if cmd = ascii ''help'' then cmd_help mc
     else if cmd = ascii ''mem'' then cmd_mem mc
     else if cmd = ascii ''trace'' then cmd_trace mc (next_word parts)
     else if cmd = ascii ''ls'' then cmd_ls mc (next_word parts)
     else if cmd = ascii ''cat'' then cmd_cat mc (next_word parts)
     else if cmd = ascii ''uptime'' then cmd_uptime mc
     else if cmd = ascii ''clear'' then cmd_clear mc
     else if cmd = ascii ''echo'' then cmd_echo mc (join_words parts)
     else if cmd = [] then Some
     else vga_println mc (ascii ''unknown command: '' @ cmd))"
    by (rule ext) (simp only: run_command_def False if_False if_distribR)
  have "prints (run_command mc cmd parts)"
    unfolding eq cmd_help_def by (intro prints_If command_prints)
  then show ?thesis
    by (rule prints_returns [OF _ ok])
qed

lemma typed_ascii:
  assumes "shell_ok sh"
  shows "utf8_valid (typed sh)"
proof (rule utf8_ascii, intro ballI)
  fix c assume "c \<in> set (typed sh)"
  then have "c \<le> 0x7E"
    using assms by (simp add: shell_ok_def typed_def)
  then show "c < 0x80"
    by (rule order.strict_trans1) simp
qed

lemma execute_line:
  assumes "shell_ok sh"
  shows "execute mc (sh, sys) =
    (let parts = split_whitespace (trim (typed sh))
     in do { sys \<leftarrow> run_command mc (case parts of [] \<Rightarrow> [] | w # _ \<Rightarrow> w) (tl parts) sys; Some (sh\<lparr>pos := 0\<rparr>, sys) })"
  using assms typed_ascii [OF assms]
  by (simp add: execute_def typed_def shell_ok_def require_def Let_def split: list.split)

lemma execute_ok:
  assumes sh: "shell_ok sh" and ok: "system_ok lo hi live sys"
  shows "case execute mc (sh, sys) of
      Some (sh', sys') \<Rightarrow> sh' = sh\<lparr>pos := 0\<rparr> \<and> system_ok lo hi live sys' \<and> files sys' = files sys
    | None \<Rightarrow> huge_alloc (typed sh)"
proof -
  define parts where "parts = split_whitespace (trim (typed sh))"
  define cmd where "cmd = (case parts of [] \<Rightarrow> [] | w # _ \<Rightarrow> w)"
  have "execute mc (sh, sys) = do { sys \<leftarrow> run_command mc cmd (tl parts) sys; Some (sh\<lparr>pos := 0\<rparr>, sys) }"
    using execute_line [OF sh] by (simp add: Let_def parts_def cmd_def)
  moreover have "huge_alloc (typed sh)" if "cmd = ascii ''alloc''" "Option.bind (next_word (tl parts)) parse_usize = Some n" "2 ^ 59 \<le> n" for n
    using that by (auto simp: huge_alloc_def next_word_def cmd_def parts_def [symmetric] split: list.splits)
  ultimately show ?thesis
    using run_command_ok [OF ok, of cmd "tl parts" mc]
    by (auto simp: returns_or_def split: option.splits)
qed

subsection \<open>The line editor\<close>

text \<open>The abstract editor: a list of at most 256 characters.\<close>

definition edit_line :: "decoded_key \<Rightarrow> rstr \<Rightarrow> rstr" where
  "edit_line key line =
     (case key of
        RawKey code \<Rightarrow> if code = Backspace then butlast line else line
      | Unicode c \<Rightarrow>
          if c = 10 then []
          else if c = 8 then butlast line
          else if 0x20 \<le> c \<and> c \<le> 0x7E \<and> length line < 256 then line @ [of_nat c]
          else line)"

lemma push_ok:
  assumes sh: "shell_ok sh" and ok: "system_ok lo hi live sys" and c: "0x20 \<le> c" "c \<le> 0x7E"
  shows "\<exists>sh' sys'. shell_push mc c (sh, sys) = Some (sh', sys') \<and> shell_ok sh' \<and> system_ok lo hi live sys' \<and>
    files sys' = files sys \<and> typed sh' = (if length (typed sh) < 256 then typed sh @ [of_nat c] else typed sh)"
proof (cases "pos sh < 256")
  case True
  have len: "length (buf sh) = 256" "length (typed sh) = pos sh"
    using sh by (auto simp: shell_ok_def typed_def)
  obtain sys' where sys': "vga_print mc [of_nat c] sys = Some sys'" "system_ok lo hi live sys'" "files sys' = files sys"
    using prints_ok [OF prints_println(2) ok] by blast
  let ?sh = "sh\<lparr>buf := (buf sh)[pos sh := of_nat c], pos := Suc (pos sh)\<rparr>"
  have typed: "typed ?sh = typed sh @ [of_nat c]"
    using True len(1) by (simp add: typed_def take_Suc_conv_app_nth)
  have "unat (of_nat c :: u8) = c"
    using c by (simp add: unsigned_of_nat take_bit_nat_eq_self)
  then have "0x20 \<le> (of_nat c :: u8) \<and> (of_nat c :: u8) \<le> 0x7E"
    using c by (simp add: word_le_nat_alt)
  then have "shell_ok ?sh"
    using sh True typed by (auto simp: shell_ok_def typed_def)
  moreover have "shell_push mc c (sh, sys) = Some (?sh, sys')"
    using True len sys'(1) by (simp add: shell_push_def uadd_def Let_def)
  ultimately show ?thesis
    using sys' typed True len by auto
next
  case False
  then show ?thesis
    using sh ok by (auto simp: shell_push_def shell_ok_def typed_def)
qed

lemma backspace_ok:
  assumes sh: "shell_ok sh" and ok: "system_ok lo hi live sys"
  shows "\<exists>sh' sys'. shell_backspace mc (sh, sys) = Some (sh', sys') \<and> shell_ok sh' \<and> system_ok lo hi live sys' \<and>
    files sys' = files sys \<and> typed sh' = butlast (typed sh)"
proof (cases "pos sh > 0")
  case True
  obtain sys' where sys': "vga_print mc [0x08, 0x20, 0x08] sys = Some sys'" "system_ok lo hi live sys'" "files sys' = files sys"
    using prints_ok [OF prints_println(2) ok] by blast
  let ?sh = "sh\<lparr>pos := pos sh - 1\<rparr>"
  have "typed ?sh = butlast (typed sh)"
    using sh by (simp add: typed_def shell_ok_def butlast_take)
  moreover have "shell_ok ?sh"
    using sh set_take_subset_set_take [of "pos sh - 1" "pos sh" "buf sh"] by (auto simp: shell_ok_def)
  moreover have "shell_backspace mc (sh, sys) = Some (?sh, sys')"
    using True sys'(1) by (simp add: shell_backspace_def usub_def)
  ultimately show ?thesis
    using sys' by auto
next
  case False
  then show ?thesis
    using sh ok by (auto simp: shell_backspace_def typed_def)
qed

lemma handle_key_ok:
  assumes sh: "shell_ok sh" and ok: "system_ok lo hi live sys"
  shows "case handle_key mc key (sh, sys) of
      Some (sh', sys') \<Rightarrow> shell_ok sh' \<and> system_ok lo hi live sys' \<and> files sys' = files sys \<and> typed sh' = edit_line key (typed sh)
    | None \<Rightarrow> key = Unicode 10 \<and> huge_alloc (typed sh)"
proof (cases "key = Unicode 10")
  case True
  obtain sys1 where 1: "vga_println mc [] sys = Some sys1" "system_ok lo hi live sys1" "files sys1 = files sys"
    using prints_ok [OF prints_println(1) ok] by blast
  show ?thesis
  proof (cases "execute mc (sh, sys1)")
    case None
    then show ?thesis
      using execute_ok [OF sh 1(2), of mc] 1(1) True by (simp add: handle_key_def)
  next
    case (Some r)
    then obtain sys2 where 2: "execute mc (sh, sys1) = Some (sh\<lparr>pos := 0\<rparr>, sys2)" "system_ok lo hi live sys2" "files sys2 = files sys1"
      using execute_ok [OF sh 1(2), of mc] by (cases r) auto
    obtain sys3 where 3: "print_prompt mc sys2 = Some sys3" "system_ok lo hi live sys3" "files sys3 = files sys2"
      using prints_ok [OF prints_prompt 2(2)] by blast
    show ?thesis
      using 1 2 3 sh by (simp add: True handle_key_def edit_line_def typed_def shell_ok_def)
  qed
next
  case False
  show ?thesis
  proof (cases "key = Unicode 8 \<or> key = RawKey Backspace")
    case True
    then show ?thesis
      using backspace_ok [OF sh ok, of mc] by (auto simp: handle_key_def edit_line_def)
  next
    case other: False
    show ?thesis
    proof (cases "\<exists>c. key = Unicode c \<and> 0x20 \<le> c \<and> c \<le> 0x7E")
      case True
      then obtain c where c: "key = Unicode c" "0x20 \<le> c" "c \<le> 0x7E"
        by blast
      then have "is_ascii_graphic c \<or> c = 0x20"
        by (auto simp: is_ascii_graphic_def)
      then show ?thesis
        using push_ok [OF sh ok c(2,3), of mc] c by (auto simp: handle_key_def edit_line_def)
    next
      case False
      then have "\<not> (is_ascii_graphic c \<or> c = 0x20)" "\<not> (0x20 \<le> c \<and> c \<le> 0x7E)" if "key = Unicode c" for c
        using that by (auto simp: is_ascii_graphic_def)
      then have "handle_key mc key (sh, sys) = Some (sh, sys)" "edit_line key (typed sh) = typed sh"
        using other \<open>key \<noteq> Unicode 10\<close> by (auto simp: handle_key_def edit_line_def split: decoded_key.splits)
      then show ?thesis
        using sh ok by auto
    qed
  qed
qed

subsection \<open>The task\<close>

lemma shell_scancode_ok:
  assumes sh: "shell_ok sh" and ok: "system_ok lo hi live sys"
  shows "case shell_scancode dc mc sc (k, sh, sys) of
      Some (k', sh', sys') \<Rightarrow> shell_ok sh' \<and> system_ok lo hi live sys' \<and> files sys' = files sys
    | None \<Rightarrow> huge_alloc (typed sh)"
proof -
  obtain ev k1 where ev: "add_byte dc sc k = (ev, k1)"
    by (cases "add_byte dc sc k")
  obtain key k2 where key: "process_keyevent dc (the ev) k1 = (key, k2)"
    by (cases "process_keyevent dc (the ev) k1")
  have scale: "\<exists>sys'. change_scale mc up sys = Some sys' \<and> system_ok lo hi live sys' \<and> files sys' = files sys" for up
    by (rule prints_ok [OF prints_scale ok])
  have "shell_scancode dc mc sc (k, sh, sys) =
      (if ev = None then Some (k1, sh, sys)
       else if key = None then Some (k2, sh, sys)
       else if event_key dc (the ev) \<in> {OemPlus, NumpadAdd, OemMinus, NumpadSubtract} \<and> is_ctrl dc k2
       then do { sys \<leftarrow> change_scale mc (event_key dc (the ev) \<in> {OemPlus, NumpadAdd}) sys; Some (k2, sh, sys) }
       else do { (sh, sys) \<leftarrow> handle_key mc (the key) (sh, sys); Some (k2, sh, sys) })"
    using key by (cases ev; cases key) (auto simp: shell_scancode_def ev Let_def)
  moreover have "case do { (sh, sys) \<leftarrow> handle_key mc (the key) (sh, sys); Some (k2, sh, sys) } of
      Some (k', sh', sys') \<Rightarrow> shell_ok sh' \<and> system_ok lo hi live sys' \<and> files sys' = files sys
    | None \<Rightarrow> huge_alloc (typed sh)"
    using handle_key_ok [OF sh ok, of "the key" mc] by (auto split: option.splits)
  ultimately show ?thesis
    using scale [of "event_key dc (the ev) \<in> {OemPlus, NumpadAdd}"] sh ok by (auto split: option.splits)
qed

lemma for_each_Nil: "for_each f [] = Some"
  by (rule ext) simp

lemma shell_task_snoc:
  "shell_task dc mc k (scs @ [sc]) sys = do { s \<leftarrow> shell_task dc mc k scs sys; shell_scancode dc mc sc s }"
  by (simp add: shell_task_def for_each_append for_each_Nil)


subsection \<open>From the keys to the serial line\<close>

lemma vga_print_wire:
  assumes "wire_ok mc delay uart sys" "vga_print mc s sys = Some sys'"
  shows "wire_ok mc delay uart sys' \<and> wire uart sys' = wire uart sys @ s"
  using assms serial_print_wire [OF assms(1), of s]
  by (auto simp: vga_print_def Let_def bind_eq_Some_conv wire_ok_def wire_def)

lemma println_wire:
  assumes "wire_ok mc delay uart sys" "vga_println mc s sys = Some sys'"
  shows "wire_ok mc delay uart sys' \<and> wire uart sys' = wire uart sys @ s @ [10]"
  using vga_print_wire [OF assms(1), of "s @ [10]"] assms(2) by (simp add: vga_println_def)

lemma push_wire:
  assumes "wire_ok mc delay uart sys" "shell_push mc c (sh, sys) = Some (sh', sys')" "shell_ok sh" "length (typed sh) < 256"
  shows "wire_ok mc delay uart sys' \<and> wire uart sys' = wire uart sys @ [of_nat c]"
proof -
  have "pos sh < length (buf sh)"
    using assms(3,4) by (simp add: shell_ok_def typed_def)
  then have "vga_print mc [of_nat c] sys = Some sys'"
    using assms(2) by (auto simp: shell_push_def Let_def bind_eq_Some_conv)
  then show ?thesis
    by (rule vga_print_wire [OF assms(1)])
qed

definition keys_of :: "rstr \<Rightarrow> decoded_key list" where
  "keys_of s = map (\<lambda>c. Unicode (unat c)) s"

lemma type_line:
  assumes "wire_ok mc delay uart sys" "shell_ok sh" "system_ok lo hi live sys"
    and "\<forall>c \<in> set s. 0x20 \<le> c \<and> c \<le> 0x7E" "length (typed sh) + length s \<le> 256"
  shows "\<exists>sh' sys'. for_each (handle_key mc) (keys_of s) (sh, sys) = Some (sh', sys') \<and> shell_ok sh' \<and>
    system_ok lo hi live sys' \<and> wire_ok mc delay uart sys' \<and> typed sh' = typed sh @ s \<and> wire uart sys' = wire uart sys @ s"
  using assms
proof (induction s arbitrary: sh sys)
  case (Cons c s)
  have c: "0x20 \<le> unat c" "unat c \<le> 0x7E" and len: "length (typed sh) < 256"
    using Cons.prems(4,5) by (auto simp: word_le_nat_alt)
  obtain sh1 sys1 where 1: "shell_push mc (unat c) (sh, sys) = Some (sh1, sys1)" "shell_ok sh1" "system_ok lo hi live sys1"
    "typed sh1 = typed sh @ [c]"
    using push_ok [OF Cons.prems(2,3) c, of mc] len by auto
  have w: "wire_ok mc delay uart sys1" "wire uart sys1 = wire uart sys @ [c]"
    using push_wire [OF Cons.prems(1) 1(1) Cons.prems(2) len] by simp_all
  have "handle_key mc (Unicode (unat c)) (sh, sys) = Some (sh1, sys1)"
    using c 1(1) by (auto simp: handle_key_def is_ascii_graphic_def)
  moreover obtain sh' sys' where "for_each (handle_key mc) (keys_of s) (sh1, sys1) = Some (sh', sys')" "shell_ok sh'"
    "system_ok lo hi live sys'" "wire_ok mc delay uart sys'" "typed sh' = typed sh1 @ s" "wire uart sys' = wire uart sys1 @ s"
    using Cons.IH [OF w(1) 1(2,3)] Cons.prems(4,5) 1(4) by auto
  ultimately show ?case
    using 1(4) w(2) by (simp add: keys_of_def)
qed (simp add: keys_of_def)

lemma join_words_Cons: "join_words (w # ws) = w @ (if ws = [] then [] else 0x20 # join_words ws)"
  by (simp add: join_words_def)

lemma join_words_ends:
  assumes "ws \<noteq> []" "\<forall>w \<in> set ws. w \<noteq> [] \<and> (\<forall>c \<in> set w. \<not> is_space c)"
  shows "join_words ws \<noteq> [] \<and> \<not> is_space (hd (join_words ws)) \<and> \<not> is_space (last (join_words ws))"
  using assms
proof (induction ws)
  case (Cons w ws)
  then show ?case
    by (cases "ws = []") (auto simp: join_words_Cons)
qed simp

lemma dropWhile_id: "s \<noteq> [] \<Longrightarrow> \<not> P (hd s) \<Longrightarrow> dropWhile P s = s"
  by (cases s) simp_all

lemma trim_words:
  assumes "\<forall>w \<in> set ws. w \<noteq> [] \<and> (\<forall>c \<in> set w. \<not> is_space c)"
  shows "trim (join_words ws) = join_words ws"
proof (cases "ws = []")
  case False
  then show ?thesis
    using join_words_ends [OF False assms] by (simp add: trim_def dropWhile_id hd_rev)
qed (simp add: trim_def join_words_def)

lemma printable_word: "0x21 \<le> c \<Longrightarrow> \<not> is_space c"
  by (auto simp: is_space_def word_le_nat_alt)

lemma join_printable:
  assumes "\<forall>w \<in> set ws. w \<noteq> [] \<and> (\<forall>c \<in> set w. 0x21 \<le> c \<and> c \<le> 0x7E)"
  shows "\<forall>c \<in> set (join_words ws). 0x20 \<le> c \<and> c \<le> 0x7E"
  using assms
proof (induction ws)
  case (Cons w ws)
  have "0x20 \<le> c" if "0x21 \<le> c" for c :: u8
    using that by (simp add: word_le_nat_alt)
  then show ?case
    using Cons by (auto simp: join_words_Cons)
qed (simp add: join_words_def)

lemma shell_new_ok: "shell_ok shell_new" "typed shell_new = []"
  by (simp_all add: shell_ok_def shell_new_def typed_def)

lemma digit_no_space: "is_digit c \<Longrightarrow> \<not> is_space c"
  by (auto simp: is_digit_def is_space_def word_le_nat_alt)

definition prompt :: rstr where
  "prompt = [0x1B] @ ascii ''[32m$ '' @ [0x1B] @ ascii ''[0m''"

text \<open>
  C14 (Echo).  Typing \<^verbatim>\<open>echo\<close> and any words that fit the line of 256 characters, and then Enter,
  sends over the serial line what was typed, a line feed, the words separated by single spaces on a
  line of their own and the prompt, and leaves an empty line.
\<close>

theorem shell_echo:
  assumes "wire_ok mc delay uart sys" "system_ok lo hi live sys"
    and "\<forall>w \<in> set ws. w \<noteq> [] \<and> (\<forall>c \<in> set w. 0x21 \<le> c \<and> c \<le> 0x7E)" "length (join_words (ascii ''echo'' # ws)) \<le> 256"
  shows "\<exists>sh sys'. for_each (handle_key mc) (keys_of (join_words (ascii ''echo'' # ws) @ [10])) (shell_new, sys) = Some (sh, sys') \<and>
    typed sh = [] \<and>
    wire uart sys' = wire uart sys @ join_words (ascii ''echo'' # ws) @ [10] @ join_words ws @ [10] @ prompt"
proof -
  let ?line = "join_words (ascii ''echo'' # ws)"
  have echo: "\<forall>c \<in> set (ascii ''echo''). 0x21 \<le> c \<and> c \<le> 0x7E"
    by (simp add: ascii_def)
  have words: "\<forall>w \<in> set (ascii ''echo'' # ws). w \<noteq> [] \<and> (\<forall>c \<in> set w. 0x21 \<le> c \<and> c \<le> 0x7E)"
    using assms(3) echo by simp
  have nonspace: "\<forall>w \<in> set (ascii ''echo'' # ws). w \<noteq> [] \<and> (\<forall>c \<in> set w. \<not> is_space c)"
    using words printable_word by blast
  have "\<forall>c \<in> set ?line. 0x20 \<le> c \<and> c \<le> 0x7E"
    using join_printable [OF words] .
  then obtain sh1 sys1 where 1: "for_each (handle_key mc) (keys_of ?line) (shell_new, sys) = Some (sh1, sys1)" "shell_ok sh1"
    "system_ok lo hi live sys1" "wire_ok mc delay uart sys1" "typed sh1 = ?line" "wire uart sys1 = wire uart sys @ ?line"
    using type_line [OF assms(1) shell_new_ok(1) assms(2), of ?line] assms(4) by (auto simp: shell_new_ok(2))
  obtain sys2 where 2: "vga_println mc [] sys1 = Some sys2" "system_ok lo hi live sys2"
    using prints_ok [OF prints_println(1) 1(3)] by blast
  obtain sys3 where 3: "vga_println mc (join_words ws) sys2 = Some sys3" "system_ok lo hi live sys3"
    using prints_ok [OF prints_println(1) 2(2)] by blast
  obtain sys4 where 4: "print_prompt mc sys3 = Some sys4"
    using prints_ok [OF prints_prompt 3(2)] by blast
  have "execute mc (sh1, sys2) = do { sys \<leftarrow> run_command mc (ascii ''echo'') ws sys2; Some (sh1\<lparr>pos := 0\<rparr>, sys) }"
    using execute_line [OF 1(2)] 1(5) trim_words [OF nonspace] split_join_words [OF nonspace] by (simp add: Let_def)
  also have "run_command mc (ascii ''echo'') ws sys2 = Some sys3"
    using 3(1) by (auto simp: run_command_def cmd_echo_def)
  finally have "handle_key mc (Unicode 10) (sh1, sys1) = Some (sh1\<lparr>pos := 0\<rparr>, sys4)"
    using 2(1) 4 by (simp add: handle_key_def)
  moreover have "wire uart sys4 = wire uart sys1 @ [10] @ join_words ws @ [10] @ prompt"
    using println_wire [OF 1(4) 2(1)] println_wire [OF _ 3(1), of delay uart] vga_print_wire [OF _ 4 [unfolded print_prompt_def], of delay uart]
    by (simp add: prompt_def)
  ultimately show ?thesis
    using 1(1,6) by (simp add: keys_of_def for_each_append typed_def)
qed

text \<open>
  C39 (Line editor).  As long as Enter is not pressed, every sequence of keys succeeds and the line buffer
  with its position implements a list of characters bounded by 256: printable keys append, both
  backspace keys remove the last character, all other keys change nothing.
\<close>

theorem shell_line_editor:
  assumes "shell_ok sh" "system_ok lo hi live sys" "Unicode 10 \<notin> set keys"
  shows "\<exists>sh' sys'. for_each (handle_key mc) keys (sh, sys) = Some (sh', sys') \<and> shell_ok sh' \<and>
    system_ok lo hi live sys' \<and> files sys' = files sys \<and> typed sh' = fold edit_line keys (typed sh) \<and> length (typed sh') \<le> 256"
  using assms
proof (induction keys arbitrary: sh sys)
  case Nil
  then show ?case
    by (simp add: shell_ok_def typed_def)
next
  case (Cons key keys)
  have "key \<noteq> Unicode 10"
    using Cons.prems(3) by auto
  then obtain sh1 sys1 where 1: "handle_key mc key (sh, sys) = Some (sh1, sys1)" "shell_ok sh1" "system_ok lo hi live sys1"
    "files sys1 = files sys" "typed sh1 = edit_line key (typed sh)"
    using handle_key_ok [OF Cons.prems(1,2), of key mc] by (auto split: option.splits)
  then show ?case
    using Cons.IH [OF 1(2,3)] Cons.prems(3) by auto
qed


subsection \<open>A concrete shell\<close>

definition demo_decoder :: "(unit, u8) decoder" where
  "demo_decoder = \<lparr>add_byte = \<lambda>sc k. (Some sc, k), process_keyevent = \<lambda>e k. (Some (Unicode (unat e)), k),
     event_key = \<lambda>_. OtherKey 0, is_ctrl = \<lambda>_. False\<rparr>"

lemma demo_system_ok: "\<exists>h. system_ok HEAP_START (HEAP_START + HEAP_SIZE) {} (demo_system h)"
proof -
  obtain m h where "init_heap demo_paging ((0, []), boot_heap) = Some (Inr (), m, h)"
    using demo_init(1) by blast
  from init_heap_inv [OF this demo_init(2)] show ?thesis
    using demo_fb_inv by (auto simp: system_ok_def demo_system_def screen_ok_def)
qed


theorem shell_echo_witness:
  "\<exists>h sh sys. for_each (handle_key demo_machine) (keys_of (ascii ''echo hi you'' @ [10])) (shell_new, demo_system h) = Some (sh, sys) \<and>
     wire id sys = ascii ''echo hi you'' @ [10] @ ascii ''hi you'' @ [10] @ prompt"
proof -
  obtain h where h: "system_ok HEAP_START (HEAP_START + HEAP_SIZE) {} (demo_system h)"
    using demo_system_ok by blast
  have "join_words [ascii ''hi'', ascii ''you''] = ascii ''hi you''"
    "join_words [ascii ''echo'', ascii ''hi'', ascii ''you''] = ascii ''echo hi you''"
    "\<forall>w \<in> set [ascii ''hi'', ascii ''you'']. w \<noteq> [] \<and> (\<forall>c \<in> set w. 0x21 \<le> c \<and> c \<le> 0x7E)"
    "length (ascii ''echo hi you'') \<le> 256"
    by (simp_all add: join_words_def ascii_def)
  with shell_echo [OF demo_wire(1) h, of "[ascii ''hi'', ascii ''you'']"] demo_wire(2) [of h] show ?thesis
    by fastforce
qed

theorem shell_line_editor_witness:
  "\<exists>h sh sys. for_each (handle_key demo_machine) [Unicode 97, Unicode 98, RawKey Backspace, Unicode 7] (shell_new, demo_system h) = Some (sh, sys) \<and>
     typed sh = [97]"
proof -
  obtain h where h: "system_ok HEAP_START (HEAP_START + HEAP_SIZE) {} (demo_system h)"
    using demo_system_ok by blast
  from shell_line_editor [OF shell_new_ok(1) h, of "[Unicode 97, Unicode 98, RawKey Backspace, Unicode 7]" demo_machine] show ?thesis
    by (fastforce simp: edit_line_def shell_new_ok(2))
qed


end
