(* ===== verification/Boot_State.thy ===== *)
theory Boot_State
  imports Shell_Props
begin

text \<open>
  The parts of \<^verbatim>\<open>kernel/src/main.rs\<close> that work on the console, the heap and the file system, and the
  test harness of \<^verbatim>\<open>kernel/src/lib.rs\<close> with the exit status seen by
  \<^verbatim>\<open>runner/src/test_runner.rs\<close>.
\<close>

subsection \<open>Access to the shared state\<close>

definition sys_metrics :: "'d system \<Rightarrow> monitor_data" where
  "sys_metrics sys = metrics (kheap sys)"

definition put_metrics :: "monitor_data \<Rightarrow> 'd system \<Rightarrow> 'd system" where
  "put_metrics m sys = sys\<lparr>kheap := (kheap sys)\<lparr>metrics := m\<rparr>\<rparr>"

definition sys_trace :: "'d system \<Rightarrow> trace_buffer" where
  "sys_trace sys = trace (kheap sys)"

definition start_trace :: "'d system \<Rightarrow> 'd system" where
  "start_trace sys = sys\<lparr>kheap := (kheap sys)\<lparr>trace := trace_init (trace (kheap sys))\<rparr>\<rparr>"

text \<open>\<^verbatim>\<open>Result::expect\<close>\<close>

definition expect :: "'e + 'a \<Rightarrow> 'a option" where
  "expect r = (case r of Inl _ \<Rightarrow> None | Inr x \<Rightarrow> Some x)"

subsection \<open>The file system demonstration\<close>

text \<open>\<^verbatim>\<open>{:?}\<close> of a string of ASCII characters, and of a vector of such strings\<close>

definition escape_debug :: "char \<Rightarrow> rstr" where
  "escape_debug c =
     (let n = (of_char c :: nat)
      in if n = 0 then ascii [CHR 0x5C, CHR ''0'']
         else if n = 9 then ascii [CHR 0x5C, CHR ''t'']
         else if n = 10 then ascii [CHR 0x5C, CHR ''n'']
         else if n = 13 then ascii [CHR 0x5C, CHR ''r'']
         else if n = 34 \<or> n = 92 then ascii [CHR 0x5C, c]
         else if n < 32 \<or> n = 127 then ascii ([CHR 0x5C] @ ''u{'') @ show_base 16 n @ ascii ''}''
         else ascii [c])"

definition debug_string :: "string \<Rightarrow> rstr" where
  "debug_string s = [34] @ concat (map escape_debug s) @ [34]"

fun debug_items :: "string list \<Rightarrow> rstr" where
  "debug_items [] = []"
| "debug_items [s] = debug_string s"
| "debug_items (s # ss) = debug_string s @ ascii '', '' @ debug_items ss"

definition debug_strings :: "string list \<Rightarrow> rstr" where
  "debug_strings ss = ascii ''['' @ debug_items ss @ ascii '']''"

definition demo_fs :: "'d machine \<Rightarrow> 'd system \<Rightarrow> 'd system option" where
  "demo_fs mc sys =
     do { (r, fs) \<leftarrow> create_file ''/hello.txt'' (files sys);
          _ \<leftarrow> expect r;
          (r, fs) \<leftarrow> write_file ''/hello.txt'' (ascii ''Hello from Yonti-os filesystem!'') fs;
          _ \<leftarrow> expect r;
          sys \<leftarrow> (case read_file fs ''/hello.txt'' of
                     Inr data \<Rightarrow> (if utf8_valid data then vga_println mc (ascii ''[fs] /hello.txt: '' @ data) sys else Some sys)
                   | Inl _ \<Rightarrow> Some sys);
          (r, fs) \<leftarrow> create_dir ''/home'' fs;
          _ \<leftarrow> expect r;
          (r, fs) \<leftarrow> create_file ''/home/test'' fs;
          _ \<leftarrow> expect r;
          (r, fs) \<leftarrow> write_file ''/home/test'' (ascii ''nested file!'') fs;
          _ \<leftarrow> expect r;
          names \<leftarrow> expect (list_dir fs ''/'');
          sys \<leftarrow> vga_println mc (ascii ''[fs] / contents: '' @ debug_strings names) sys;
          names \<leftarrow> expect (list_dir fs ''/home'');
          sys \<leftarrow> vga_println mc (ascii ''[fs] /home contents: '' @ debug_strings names) sys;
          Some (sys\<lparr>files := fs\<rparr>) }"

subsection \<open>The test harness\<close>

datatype qemu_exit_code = Success | Failed

fun exit_value :: "qemu_exit_code \<Rightarrow> u32" where
  "exit_value Success = 0x10"
| "exit_value Failed = 0x11"

text \<open>The debug exit device of QEMU takes a 32-bit port write; \<open>out32\<close> is that write.\<close>

definition exit_qemu :: "(u16 \<Rightarrow> u32 \<Rightarrow> 'd \<Rightarrow> 'd) \<Rightarrow> qemu_exit_code \<Rightarrow> 'd system \<Rightarrow> 'd system" where
  "exit_qemu out32 c sys = sys\<lparr>dev := out32 0xF4 (exit_value c) (dev sys)\<rparr>"

text \<open>A test is its type name and its effect on the kernel.\<close>

definition run_test :: "'d machine \<Rightarrow> rstr \<times> ('d system \<Rightarrow> 'd system option) \<Rightarrow> 'd system \<Rightarrow> 'd system option" where
  "run_test mc t sys =
     do { let sys = serial_print mc (fst t @ ascii ''...'' @ [9]) sys;
          sys \<leftarrow> snd t sys;
          Some (serial_print mc (ascii ''[ok]'' @ [10]) sys) }"

definition test_runner ::
  "(u16 \<Rightarrow> u32 \<Rightarrow> 'd \<Rightarrow> 'd) \<Rightarrow> 'd machine \<Rightarrow> (rstr \<times> ('d system \<Rightarrow> 'd system option)) list \<Rightarrow> 'd system \<Rightarrow> 'd system option" where
  "test_runner out32 mc tests sys =
     do { let sys = serial_print mc (ascii ''Running '' @ show_dec (length tests) @ ascii '' tests'' @ [10]) sys;
          sys \<leftarrow> for_each (run_test mc) tests sys;
          Some (exit_qemu out32 Success sys) }"

text \<open>The end of \<^verbatim>\<open>test_panic_handler\<close>, before the processor is halted.\<close>

definition test_panic_handler ::
  "(u16 \<Rightarrow> u32 \<Rightarrow> 'd \<Rightarrow> 'd) \<Rightarrow> 'd machine \<Rightarrow> registers \<Rightarrow> (nat \<Rightarrow> u64) \<Rightarrow> u64 \<Rightarrow> rstr \<Rightarrow> 'd system \<Rightarrow> 'd system option" where
  "test_panic_handler out32 mc r ram bp panic_info sys =
     do { let sys = serial_print mc (ascii ''[failed]'' @ [10, 10]) sys;
          let sys = serial_print mc (ascii ''Error: '' @ panic_info @ [10, 10]) sys;
          sys \<leftarrow> crash_dump mc r ram bp panic_info sys;
          Some (exit_qemu out32 Failed sys) }"

text \<open>The status of QEMU after the device was written, and what the test runner makes of it.\<close>

definition qemu_status :: "u32 \<Rightarrow> nat" where
  "qemu_status v = unat (push_bit 1 v OR 1)"

definition runner_status :: "nat \<Rightarrow> nat" where
  "runner_status code = (if code = 33 then 0 else if code = 35 then 1 else code)"

lemma runner_status_success: "runner_status (qemu_status (exit_value c)) = 0 \<longleftrightarrow> c = Success"
  by (cases c) (simp_all add: runner_status_def qemu_status_def push_bit_eq_mult)

subsection \<open>Lemmas\<close>

lemma put_metrics_simps [simp]:
  "screen (put_metrics m sys) = screen sys" "files (put_metrics m sys) = files sys" "dev (put_metrics m sys) = dev sys"
  "sys_metrics (put_metrics m sys) = m"
  by (simp_all add: put_metrics_def sys_metrics_def)

lemma start_trace_simps [simp]:
  "screen (start_trace sys) = screen sys" "files (start_trace sys) = files sys" "sys_metrics (start_trace sys) = sys_metrics sys"
  by (simp_all add: start_trace_def sys_metrics_def)

lemma sys_metrics_simps [simp]:
  "sys_metrics (sys\<lparr>dev := d\<rparr>) = sys_metrics sys" "sys_metrics (sys\<lparr>screen := scr\<rparr>) = sys_metrics sys"
  "sys_metrics (log_macro mc l t s sys) = sys_metrics sys"
  by (simp_all add: sys_metrics_def)

lemma sys_metrics_kheap: "kheap sys' = kheap sys \<Longrightarrow> sys_metrics sys' = sys_metrics sys"
  by (simp add: sys_metrics_def)

lemma sys_metrics_heap: "sys_metrics (sys\<lparr>kheap := h\<rparr>) = metrics h"
  by (simp add: sys_metrics_def)

lemma system_ok_simps [simp]:
  "system_ok lo hi live (sys\<lparr>dev := d\<rparr>) = system_ok lo hi live sys"
  "system_ok lo hi live (log_macro mc l t s sys) = system_ok lo hi live sys"
  "system_ok lo hi live (start_trace sys) = system_ok lo hi live sys"
  by (simp_all add: system_ok_def start_trace_def heap_inv_def)

lemma system_ok_put_metrics:
  "system_ok lo hi live sys \<Longrightarrow> current_allocated m = current_allocated (sys_metrics sys) \<Longrightarrow> system_ok lo hi live (put_metrics m sys)"
  by (simp add: system_ok_def put_metrics_def sys_metrics_def heap_inv_def)

lemma fresh_heapI:
  "\<exists>m. allocator (kheap sys) = tlsf_new m \<Longrightarrow> sys_metrics sys = monitor_new \<Longrightarrow> fresh_heap (kheap sys)"
  by (simp add: fresh_heap_def sys_metrics_def monitor_new_def)

text \<open>The files on the way through the demonstration and after it\<close>

definition hello_text :: rstr where
  "hello_text = ascii ''Hello from Yonti-os filesystem!''"

definition hello_files :: "rstr \<Rightarrow> file_system" where
  "hello_files d = \<lparr>root = Inode ''/'' (Directory [(''hello.txt'', Inode ''hello.txt'' (File d))]), inode_count = 2\<rparr>"

definition home_files :: "(string \<times> inode) list \<Rightarrow> nat \<Rightarrow> file_system" where
  "home_files ch n = \<lparr>root = Inode ''/'' (Directory
     [(''hello.txt'', Inode ''hello.txt'' (File hello_text)), (''home'', Inode ''home'' (Directory ch))]), inode_count = n\<rparr>"

definition demo_files :: file_system where
  "demo_files = home_files [(''test'', Inode ''test'' (File (ascii ''nested file!'')))] 4"

lemma demo_fs_steps:
  "create_file ''/hello.txt'' fs_new = Some (Inr (), hello_files [])"
  "write_file ''/hello.txt'' hello_text (hello_files []) = Some (Inr (), hello_files hello_text)"
  "read_file (hello_files hello_text) ''/hello.txt'' = Inr hello_text"
  "create_dir ''/home'' (hello_files hello_text) = Some (Inr (), home_files [] 3)"
  "create_file ''/home/test'' (home_files [] 3) = Some (Inr (), home_files [(''test'', Inode ''test'' (File []))] 4)"
  "write_file ''/home/test'' (ascii ''nested file!'') (home_files [(''test'', Inode ''test'' (File []))] 4) = Some (Inr (), demo_files)"
  "list_dir demo_files ''/'' = Inr [''hello.txt'', ''home'']"
  "list_dir demo_files ''/home'' = Inr [''test'']"
  by code_simp+

lemma demo_fs_ok:
  assumes "files sys = fs_new" "screen_ok (screen sys)"
  shows "\<exists>sys'. demo_fs mc sys = Some sys' \<and> files sys' = demo_files \<and> screen_ok (screen sys') \<and> kheap sys' = kheap sys"
proof -
  have print: "\<exists>sys'. vga_println mc s sys = Some sys' \<and> screen_ok (screen sys') \<and> kheap sys' = kheap sys"
    if "screen_ok (screen sys)" for s and sys :: "'a system"
    using vga_println_ok [OF that, of mc s] by (auto simp: printed_def)
  have "utf8_valid hello_text"
    by code_simp
  obtain sys1 where 1: "vga_println mc (ascii ''[fs] /hello.txt: '' @ hello_text) sys = Some sys1" "screen_ok (screen sys1)" "kheap sys1 = kheap sys"
    using print [OF assms(2)] by blast
  obtain sys2 where 2: "vga_println mc (ascii ''[fs] / contents: '' @ debug_strings [''hello.txt'', ''home'']) sys1 = Some sys2"
    "screen_ok (screen sys2)" "kheap sys2 = kheap sys1"
    using print [OF 1(2)] by blast
  obtain sys3 where 3: "vga_println mc (ascii ''[fs] /home contents: '' @ debug_strings [''test'']) sys2 = Some sys3"
    "screen_ok (screen sys3)" "kheap sys3 = kheap sys2"
    using print [OF 2(2)] by blast
  have "demo_fs mc sys = Some (sys3\<lparr>files := demo_files\<rparr>)"
    unfolding demo_fs_def assms(1) hello_text_def [symmetric] demo_fs_steps
    using \<open>utf8_valid hello_text\<close> 1(1) 2(1) 3(1) by (simp add: expect_def demo_fs_steps)
  then show ?thesis
    using 1 2 3 by simp
qed

end
