(* ===== verification/Boot_Devices.thy ===== *)
theory Boot_Devices
  imports Interrupts_Props
begin

text \<open>
  The processor and interrupt set-up at boot: \<^verbatim>\<open>init\<close> of \<^verbatim>\<open>kernel/src/sse.rs\<close>, \<^verbatim>\<open>init\<close> of
  \<^verbatim>\<open>kernel/src/lib.rs\<close>, and \<^verbatim>\<open>init_apic\<close> seen from \<^verbatim>\<open>kernel_main\<close>.
\<close>

record 'd processor =
  cr0_reg :: u64
  cr4_reg :: u64
  idt_loaded :: bool
  irq_enabled :: bool
  apic_state :: apic_globals

definition sse_init :: "'d processor \<Rightarrow> 'd processor" where
  "sse_init c =
     (let cr0 = cr0_reg c AND NOT (push_bit 2 1 OR push_bit 3 1);
          cr0 = cr0 OR (push_bit 1 1 OR push_bit 5 1);
          cr4 = cr4_reg c OR (push_bit 9 1 OR push_bit 10 1)
      in c\<lparr>cr0_reg := cr0, cr4_reg := cr4\<rparr>)"

definition lib_init :: "'d port_bus \<Rightarrow> 'd processor \<times> 'd \<Rightarrow> 'd processor \<times> 'd" where
  "lib_init prt s =
     (let (c, d) = s;
          c = sse_init c;
          c = c\<lparr>idt_loaded := True\<rparr>
      in (c, pic_initialize prt PICS d))"

text \<open>\<^verbatim>\<open>init_apic\<close> works on the interrupt flag, the APIC globals and the devices.\<close>

definition boot_apic ::
  "'d hardware \<Rightarrow> bytes \<Rightarrow> nat option \<Rightarrow> nat \<Rightarrow> kernel_io \<Rightarrow> trace_buffer \<Rightarrow> 'd processor \<times> 'd \<Rightarrow> ('d processor \<times> 'd) option" where
  "boot_apic hw acpi rsdp off k t s =
     (let (c, d) = s;
          m = \<lparr>kio = k, trace = t, apic = apic_state c, if_flag = irq_enabled c, devices = d\<rparr>
      in do { m \<leftarrow> init_apic hw acpi rsdp off m;
              Some (c\<lparr>irq_enabled := if_flag m, apic_state := apic m\<rparr>, devices m) })"

subsection \<open>Lemmas\<close>

text \<open>
  After \<^verbatim>\<open>sse::init\<close> emulation (bit 2) and task switching (bit 3) are off in the first register, monitoring
  (bit 1) and native errors (bit 5) on, the two SSE bits of the other register are set, and all other
  bits are as before.
\<close>

lemma sse_init_bits:
  assumes "n < 64"
  shows "bit (cr0_reg (sse_init c)) n = (if n \<in> {1, 5} then True else if n \<in> {2, 3} then False else bit (cr0_reg c) n)"
    "bit (cr4_reg (sse_init c)) n = (if n \<in> {9, 10} then True else bit (cr4_reg c) n)"
proof -
  have eq: "cr0_reg (sse_init c) = (cr0_reg c AND NOT (push_bit 2 1 OR push_bit 3 1)) OR (push_bit 1 1 OR push_bit 5 1)"
    "cr4_reg (sse_init c) = cr4_reg c OR (push_bit 9 1 OR push_bit 10 1)"
    by (simp_all add: sse_init_def)
  show "bit (cr0_reg (sse_init c)) n = (if n \<in> {1, 5} then True else if n \<in> {2, 3} then False else bit (cr0_reg c) n)"
    "bit (cr4_reg (sse_init c)) n = (if n \<in> {9, 10} then True else bit (cr4_reg c) n)"
    unfolding eq bit_or_iff bit_and_iff bit_not_iff bit_push_bit_iff bit_1_iff using assms by auto
qed

text \<open>\<^verbatim>\<open>init_apic\<close> ends with interrupts enabled, and leaves queues, metrics and trace alone.\<close>

lemma init_apic_enables:
  "init_apic hw acpi rsdp off m = Some m' \<Longrightarrow> if_flag m' \<and> kio m' = kio m \<and> trace m' = trace m"
  by (auto simp: init_apic_def Let_def bind_eq_Some_conv split: option.splits if_splits prod.splits)

lemma boot_apic_enables: "boot_apic hw acpi rsdp off k t (c, d) = Some (c', d') \<Longrightarrow> irq_enabled c' \<and> idt_loaded c' = idt_loaded c"
  by (auto simp: boot_apic_def Let_def bind_eq_Some_conv dest: init_apic_enables)

end
