(* ===== verification/Boot.thy ===== *)
theory Boot
  imports Boot_State Boot_Devices Buddy_Props Executor_Props
begin

text \<open>
  \<^verbatim>\<open>kernel_main\<close> of \<^verbatim>\<open>kernel/src/main.rs\<close>: the components put together in the order of the source,
  up to the first round of the executor.

  The global metrics are one structure in the kernel.  Here they travel with the heap, are handed to
  the frame allocator for its set-up and taken back with the mapped heap, and are handed to the
  executor in the same way.
\<close>

subsection \<open>The boot information and the platform\<close>

record boot_info =
  framebuffer :: "(u8 list \<times> frame_buffer_info) option"
  physical_memory_offset :: "nat option"
  memory_regions :: "memory_region list"
  rsdp_addr :: "nat option"

text \<open>The facade of the \<^verbatim>\<open>log\<close> crate: its state and the functions the kernel calls or relies on.\<close>

record 'g log_facade =
  set_logger :: "'g \<Rightarrow> (unit + unit) \<times> 'g"
  set_max_level :: "level_filter \<Rightarrow> 'g \<Rightarrow> 'g"
  level_of :: "'g \<Rightarrow> level_filter"
  has_logger :: "'g \<Rightarrow> bool"

text \<open>
  The platform: devices, \<^verbatim>\<open>PhysFrame\<close>, \<^verbatim>\<open>VirtAddr::new\<close>, the page mapper, which takes frames for
  its tables from the frame allocator, the log crate, the time stamp counter, spurious failures, and
  the memory with the ACPI tables.
\<close>

record ('d, 'p, 'g) platform =
  hw :: "'d hardware"
  frame_type :: "nat frame_api"
  virt_addr :: "nat \<Rightarrow> nat option"
  map_page :: "nat \<Rightarrow> nat \<Rightarrow> 'p \<times> buddy \<Rightarrow> ((map_to_error + unit) \<times> 'p \<times> buddy) option"
  log_crate :: "'g log_facade"
  clock :: "kernel_heap \<Rightarrow> u64"
  weak_failures :: "kernel_heap \<Rightarrow> bool list"
  acpi_memory :: bytes

record ('d, 'p, 'g) kernel =
  cpu :: "'d processor"
  sysm :: "'d system"
  facade :: 'g
  page_tables :: 'p
  kb_io :: kernel_io
  next_task :: u64

definition console_of :: "('d, 'p, 'g) platform \<Rightarrow> 'g \<Rightarrow> 'd Console.machine" where
  "console_of pl g =
     \<lparr>bus = ports (hw pl), tsc = clock pl, spurious = weak_failures pl,
      max_level = level_of (log_crate pl) g, registered = has_logger (log_crate pl) g\<rparr>"

definition kernel_log :: "('d, 'p, 'g) platform \<Rightarrow> string \<Rightarrow> ('d, 'p, 'g) kernel \<Rightarrow> ('d, 'p, 'g) kernel" where
  "kernel_log pl msg k = k\<lparr>sysm := log_macro (console_of pl (facade k)) LvlInfo ''yonti_os'' (ascii msg) (sysm k)\<rparr>"

text \<open>The mapper and the frame allocator as \<^verbatim>\<open>init_heap\<close> receives them.\<close>

definition boot_paging :: "('d, 'p, 'g) platform \<Rightarrow> ('p \<times> buddy) paging" where
  "boot_paging pl =
     \<lparr>frame_source = (\<lambda>(p, b). do { (f, b) \<leftarrow> allocate_frame (frame_type pl) b; Some (f, p, b) }),
      map_to = map_page pl\<rparr>"

subsection \<open>\<^verbatim>\<open>kernel_main\<close>\<close>

definition boot_screen :: "boot_info \<Rightarrow> ('d, 'p, 'g) kernel \<Rightarrow> ('d, 'p, 'g) kernel option" where
  "boot_screen bi k =
     (case framebuffer bi of
        None \<Rightarrow> Some k
      | Some (pixels, fbi) \<Rightarrow> do { scr \<leftarrow> fb_init pixels fbi; Some (k\<lparr>sysm := (sysm k)\<lparr>screen := scr\<rparr>\<rparr>) })"

definition boot_console :: "('d, 'p, 'g) platform \<Rightarrow> boot_info \<Rightarrow> ('d, 'p, 'g) kernel \<Rightarrow> ('d, 'p, 'g) kernel option" where
  "boot_console pl bi k =
     do { let (c, d) = lib_init (ports (hw pl)) (cpu k, dev (sysm k));
          k \<leftarrow> boot_screen bi (k\<lparr>cpu := c, sysm := (sysm k)\<lparr>dev := d\<rparr>\<rparr>);
          let (r, g) = log_init (set_logger (log_crate pl)) (set_max_level (log_crate pl)) (Some LvlInfo) (facade k);
          _ \<leftarrow> expect r;
          Some (kernel_log pl ''framebuffer initialized'' (k\<lparr>facade := g\<rparr>)) }"

definition boot_memory ::
  "('d, 'p, 'g) platform \<Rightarrow> boot_info \<Rightarrow> (nat \<Rightarrow> nat) \<Rightarrow> nat \<Rightarrow> ('d, 'p, 'g) kernel \<Rightarrow> (('d, 'p, 'g) kernel \<times> buddy) option" where
  "boot_memory pl bi phys off k =
     do { b \<leftarrow> buddy_new (memory_regions bi) off phys (sys_metrics (sysm k));
          (r, (p, b), h) \<leftarrow> init_heap (boot_paging pl) ((page_tables k, b), kheap (sysm k));
          _ \<leftarrow> expect r;
          let k = k\<lparr>page_tables := p, sysm := put_metrics (mon b) ((sysm k)\<lparr>kheap := h\<rparr>)\<rparr>;
          let k = kernel_log pl ''heap initialized'' k;
          Some (k\<lparr>sysm := start_trace (sysm k)\<rparr>, b) }"

definition boot_services :: "('d, 'p, 'g) platform \<Rightarrow> boot_info \<Rightarrow> nat \<Rightarrow> ('d, 'p, 'g) kernel \<Rightarrow> ('d, 'p, 'g) kernel option" where
  "boot_services pl bi off k =
     do { (c, d) \<leftarrow> boot_apic (hw pl) (acpi_memory pl) (rsdp_addr bi) off (kb_io k) (sys_trace (sysm k)) (cpu k, dev (sysm k));
          let k = k\<lparr>cpu := c, sysm := (sysm k)\<lparr>dev := d\<rparr>\<rparr>;
          sys \<leftarrow> demo_fs (console_of pl (facade k)) (sysm k);
          Some (kernel_log pl ''filesystem demo done'' (k\<lparr>sysm := sys\<rparr>)) }"

definition spawn_tasks ::
  "'t \<Rightarrow> 't \<Rightarrow> ('d, 'p, 'g) kernel \<Rightarrow> (('d, 'p, 'g) kernel \<times> 't executor) option" where
  "spawn_tasks example_task shell k =
     do { e \<leftarrow> executor_new;
          let (t, n) = task_new example_task (next_task k);
          (e, m) \<leftarrow> spawn t (e, sys_metrics (sysm k));
          let (t, n) = task_new shell n;
          (e, m) \<leftarrow> spawn t (e, m);
          Some (k\<lparr>next_task := n, sysm := put_metrics m (sysm k)\<rparr>, e) }"

definition kernel_main ::
  "('d, 'p, 'g) platform \<Rightarrow> 't \<Rightarrow> 't \<Rightarrow> (nat \<Rightarrow> nat) \<Rightarrow> boot_info \<Rightarrow> ('d, 'p, 'g) kernel \<Rightarrow>
   (('d, 'p, 'g) kernel \<times> buddy \<times> 't executor) option" where
  "kernel_main pl example_task shell phys bi k =
     do { k \<leftarrow> boot_console pl bi k;
          addr \<leftarrow> physical_memory_offset bi;
          off \<leftarrow> virt_addr pl addr;
          (k, b) \<leftarrow> boot_memory pl bi phys off k;
          k \<leftarrow> boot_services pl bi off k;
          (k, e) \<leftarrow> spawn_tasks example_task shell k;
          Some (k, b, e) }"

end
