(* ===== verification/Boot_Props.thy ===== *)
theory Boot_Props
  imports Boot
begin

text \<open>
  The boot sequence of the kernel: on a platform with enough memory it runs through, and hands the
  executor a heap, a screen, files and interrupts in working order.
\<close>

subsection \<open>Frames for the heap\<close>

definition frames_left :: "nat \<Rightarrow> buddy \<Rightarrow> bool" where
  "frames_left n b \<longleftrightarrow>
     buddy_inv b \<and> allocated_count b + card (free_set b) \<le> total_frames b \<and> n \<le> card (free_set b)"

text \<open>Taking frames changes no metric but their number.\<close>

definition frames_counted :: "buddy \<Rightarrow> buddy \<Rightarrow> bool" where
  "frames_counted b b' \<longleftrightarrow> (\<exists>c. mon b' = (mon b)\<lparr>allocated_frames := c\<rparr>)"

lemma frames_counted_refl: "frames_counted b b"
  by (auto simp: frames_counted_def intro: exI [of _ "allocated_frames (mon b)"])

lemma frames_counted_trans: "frames_counted b b' \<Longrightarrow> frames_counted b' b'' \<Longrightarrow> frames_counted b b''"
  by (auto simp: frames_counted_def)

lemma allocate_frame_left:
  assumes "frames_left (Suc n) b" "frame_api_ok api"
  shows "\<exists>f b'. allocate_frame api b = Some (Some f, b') \<and> frames_left n b' \<and> frames_counted b b'"
proof -
  have inv: "buddy_inv b" and count: "allocated_count b + card (free_set b) \<le> total_frames b" and card: "Suc n \<le> card (free_set b)"
    using assms(1) by (auto simp: frames_left_def)
  have "free_set b \<noteq> {}"
    using card by auto
  then obtain y where "y \<in> free_set b"
    by blast
  then have "frames 0 y \<subseteq> free_set b"
    by (simp add: frames_def)
  moreover have "allocated_count b \<le> total_frames b"
    using count by simp
  ultimately obtain x f b' where a: "allocate_frame_order api 0 b = Some (Some f, b')" "buddy_inv b'"
    "frames 0 x \<subseteq> free_set b" "free_set b' = free_set b - frames 0 x"
    "same_frame (b\<lparr>allocated_count := allocated_count b + 2 ^ 0, mon := inc_allocated_frames (2 ^ 0) (mon b)\<rparr>) b'"
    using allocate_free_set [OF inv _ assms(2), of 0] by auto
  have "free_set b' = free_set b - {x}" "x \<in> free_set b"
    using a(3,4) by (auto simp: frames_def)
  moreover have "finite (free_set b)"
    using card card.infinite by fastforce
  ultimately have "Suc (card (free_set b')) = card (free_set b)"
    by (metis card_Suc_Diff1)
  moreover have "total_frames b' = total_frames b" "allocated_count b' = Suc (allocated_count b)"
    "mon b' = inc_allocated_frames 1 (mon b)"
    using a(5) by (simp_all add: Buddy_Inv.same_frame_def)
  ultimately show ?thesis
    using a(1,2) count card by (auto simp: allocate_frame_def frames_left_def frames_counted_def inc_allocated_frames_def)
qed

text \<open>
  What the kernel relies on, for the pages \<^term>\<open>used_pages p\<close> that are in use in the page tables \<^term>\<open>p\<close>: mapping
  another page takes at most three frames for page tables, succeeds while there are as many, and puts
  no other page in use.
\<close>

definition mapper_ok :: "('d, 'p, 'g) platform \<Rightarrow> ('p \<Rightarrow> nat set) \<Rightarrow> bool" where
  "mapper_ok pl used_pages \<longleftrightarrow>
     (\<forall>page f p b n. page \<notin> used_pages p \<and> frames_left (n + 3) b \<longrightarrow>
        (\<exists>p' b'. map_page pl page f (p, b) = Some (Inr (), p', b') \<and> used_pages p' \<subseteq> insert page (used_pages p) \<and>
           frames_left n b' \<and> frames_counted b b'))"

lemma map_pages_left:
  assumes "mapper_ok pl used_pages" "frame_api_ok (frame_type pl)" "frames_left (4 * length pages + n) b"
    and "distinct pages" "set pages \<inter> used_pages p = {}"
  shows "\<exists>p' b'. map_pages (boot_paging pl) pages (p, b) = Some (Inr (), p', b') \<and> frames_left n b' \<and> frames_counted b b'"
  using assms(3-)
proof (induction pages arbitrary: p b)
  case Nil
  then show ?case
    by (simp add: frames_counted_refl)
next
  case (Cons page pages)
  then have "frames_left (Suc (4 * length pages + n + 3)) b"
    by (simp add: algebra_simps)
  then obtain f b1 where 1: "allocate_frame (frame_type pl) b = Some (Some f, b1)" "frames_left (4 * length pages + n + 3) b1"
    "frames_counted b b1"
    using allocate_frame_left [OF _ assms(2)] by blast
  moreover have "page \<notin> used_pages p"
    using Cons.prems(3) by simp
  ultimately obtain p2 b2 where 2: "map_page pl page f (p, b1) = Some (Inr (), p2, b2)" "used_pages p2 \<subseteq> insert page (used_pages p)"
    "frames_left (4 * length pages + n) b2" "frames_counted b1 b2"
    using assms(1) unfolding mapper_ok_def by blast
  have "distinct pages" "set pages \<inter> used_pages p2 = {}"
    using Cons.prems(2,3) 2(2) by auto
  then obtain p3 b3 where 3: "map_pages (boot_paging pl) pages (p2, b2) = Some (Inr (), p3, b3)" "frames_left n b3" "frames_counted b2 b3"
    using Cons.IH [OF 2(3)] by blast
  have "map_pages (boot_paging pl) (page # pages) (p, b) = Some (Inr (), p3, b3)"
    using 1(1) 2(1) 3(1) by (simp add: boot_paging_def)
  then show ?case
    using 3(2) frames_counted_trans 1(3) 2(4) 3(3) by blast
qed

text \<open>The heap has 257 pages, counting the one of the sentinel header behind it.\<close>

definition heap_pages :: "nat list" where
  "heap_pages = [containing_page HEAP_START..<containing_page (HEAP_START + HEAP_SIZE) + 1]"

lemma length_heap_pages: "length heap_pages = 257"
  by (simp add: heap_pages_def containing_page_def HEAP_START_def HEAP_SIZE_def)

lemma init_heap_boot:
  assumes "mapper_ok pl used_pages" "frame_api_ok (frame_type pl)" "frames_left 1028 b" "fresh_heap h" "set heap_pages \<inter> used_pages p = {}"
  shows "\<exists>p' b' h'. init_heap (boot_paging pl) ((p, b), h) = Some (Inr (), (p', b'), h') \<and> frames_counted b b' \<and>
    heap_inv HEAP_START (HEAP_START + HEAP_SIZE) h' {}"
proof -
  have "distinct heap_pages"
    by (simp add: heap_pages_def)
  then obtain p' b' where m: "map_pages (boot_paging pl) heap_pages (p, b) = Some (Inr (), p', b')" "frames_counted b b'"
    using map_pages_left [OF assms(1,2), of heap_pages 0 b p] assms(3,5) by (auto simp: length_heap_pages)
  obtain m0 where m0: "allocator h = tlsf_new m0"
    using assms(4) by (auto simp: fresh_heap_def)
  obtain t where "tlsf_init HEAP_START HEAP_SIZE (allocator h) = Some t"
    using tlsf_init_ok [of HEAP_START HEAP_SIZE m0] m0 by (auto simp: HEAP_START_def HEAP_SIZE_def)
  then have i: "init_heap (boot_paging pl) ((p, b), h) = Some (Inr (), (p', b'), h\<lparr>allocator := t\<rparr>)"
    using m(1) by (simp add: init_heap_def heap_pages_def Let_def)
  show ?thesis
    using i init_heap_inv [OF i assms(4)] m(2) by blast
qed

text \<open>The frames the allocator can hand out, by their number from the lowest usable address\<close>

definition usable_pages :: "memory_region list \<Rightarrow> nat set" where
  "usable_pages rs =
     (let us = usable_regions rs
      in {i. i < min ((new_end us - new_base us) div 4096) MAX_TRACKED_FRAMES \<and>
             (\<exists>r \<in> set us. region_start r \<le> new_base us + i * 4096 \<and> new_base us + i * 4096 < region_end r)})"

lemma buddy_new_left:
  assumes "regions_ok rs off" "n \<le> card (usable_pages rs)"
  shows "\<exists>b c. buddy_new rs off phys m = Some b \<and> frames_left n b \<and> mon b = m\<lparr>m_total_frames := c\<rparr>"
proof -
  obtain b L where b: "buddy_new rs off phys m = Some b" "inv_lists b L" "free_set b = usable_frames rs b" "allocated_count b = 0"
    "mon b = set_frame_metrics (total_frames b) m" "base_phys b = new_base (usable_regions rs)"
    "total_frames b = min ((new_end (usable_regions rs) - new_base (usable_regions rs)) div 4096) MAX_TRACKED_FRAMES"
    using buddy_new_inv [OF assms(1), of phys m] by blast
  have "card (free_set b) \<le> card {..<total_frames b}"
    using free_set_in_range(1) [OF b(2)] by (intro card_mono) auto
  moreover have "free_set b = usable_pages rs"
    by (simp add: b(3,6,7) usable_frames_def usable_pages_def Let_def)
  ultimately have "frames_left n b"
    using b(2,4) assms(2) by (auto simp: frames_left_def buddy_inv_def)
  then show ?thesis
    using b(1,5) by (auto simp: set_frame_metrics_def)
qed

subsection \<open>The stages\<close>

text \<open>The statics of the kernel before \<^verbatim>\<open>kernel_main\<close>\<close>

definition at_entry :: "('d, 'p, 'g) kernel \<Rightarrow> bool" where
  "at_entry k \<longleftrightarrow>
     (\<exists>m. allocator (kheap (sysm k)) = tlsf_new m) \<and> sys_metrics (sysm k) = monitor_new \<and>
     files (sysm k) = fs_new \<and> screen (sysm k) = None"

text \<open>
  A platform and boot information on which the kernel can come up: the frame buffer covers its visible area,
  no logger is set, physical memory is mapped, the memory map has separate page-aligned usable regions
  with 1028 frames in the range the frame allocator tracks, the mapper works and has the pages of the heap
  free, and the ACPI tables are such that \<^verbatim>\<open>init_apic\<close> returns.
\<close>

definition bootable :: "('d, 'p, 'g) platform \<Rightarrow> ('p \<Rightarrow> nat set) \<Rightarrow> boot_info \<Rightarrow> ('d, 'p, 'g) kernel \<Rightarrow> bool" where
  "bootable pl used_pages bi k \<longleftrightarrow>
     (case framebuffer bi of None \<Rightarrow> True | Some (pixels, fbi) \<Rightarrow> geometry_ok fbi (length pixels)) \<and>
     fst (set_logger (log_crate pl) (facade k)) = Inr () \<and> frame_api_ok (frame_type pl) \<and>
     mapper_ok pl used_pages \<and> set heap_pages \<inter> used_pages (page_tables k) = {} \<and>
     (\<exists>addr off. physical_memory_offset bi = Some addr \<and> virt_addr pl addr = Some off \<and>
        regions_ok (memory_regions bi) off \<and> 1028 \<le> card (usable_pages (memory_regions bi)) \<and>
        (\<forall>io t s. boot_apic (hw pl) (acpi_memory pl) (rsdp_addr bi) off io t s \<noteq> None))"

lemma fb_init_ok: "geometry_ok fbi (length pixels) \<Longrightarrow> \<exists>fb. fb_init pixels fbi = Some (Some fb) \<and> fb_inv fb"
  using clear_screen_inv [of "fb_new pixels fbi"] by (auto simp: fb_init_def fb_new_def scale_ok_def)

lemma boot_screen_ok:
  assumes "case framebuffer bi of None \<Rightarrow> True | Some (pixels, fbi) \<Rightarrow> geometry_ok fbi (length pixels)" "screen_ok (screen (sysm k))"
  shows "\<exists>scr. boot_screen bi k = Some (k\<lparr>sysm := (sysm k)\<lparr>screen := scr\<rparr>\<rparr>) \<and> screen_ok scr"
proof (cases "framebuffer bi")
  case None
  then show ?thesis
    using assms(2) by (intro exI [of _ "screen (sysm k)"]) (simp add: boot_screen_def)
next
  case (Some x)
  obtain pixels fbi where "x = (pixels, fbi)"
    by (cases x)
  then show ?thesis
    using Some assms(1) fb_init_ok [of fbi pixels] by (auto simp: boot_screen_def screen_ok_def)
qed

lemma boot_console_ok:
  assumes "at_entry k" "bootable pl used_pages bi k"
  shows "\<exists>k'. boot_console pl bi k = Some k' \<and> fresh_heap (kheap (sysm k')) \<and> sys_metrics (sysm k') = monitor_new \<and>
    files (sysm k') = fs_new \<and> screen_ok (screen (sysm k')) \<and> idt_loaded (cpu k') \<and>
    page_tables k' = page_tables k \<and> next_task k' = next_task k"
proof -
  have entry: "fresh_heap (kheap (sysm k))" "sys_metrics (sysm k) = monitor_new" "files (sysm k) = fs_new" "screen_ok (screen (sysm k))"
    using assms(1) fresh_heapI [of "sysm k"] by (auto simp: at_entry_def screen_ok_def)
  have plat: "case framebuffer bi of None \<Rightarrow> True | Some (pixels, fbi) \<Rightarrow> geometry_ok fbi (length pixels)"
    "fst (set_logger (log_crate pl) (facade k)) = Inr ()"
    using assms(2) unfolding bootable_def by blast+
  obtain c d where init: "lib_init (ports (hw pl)) (cpu k, dev (sysm k)) = (c, d)" "idt_loaded c"
    by (cases "lib_init (ports (hw pl)) (cpu k, dev (sysm k))") (auto simp: lib_init_def Let_def)
  define k1 where "k1 = k\<lparr>cpu := c, sysm := (sysm k)\<lparr>dev := d\<rparr>\<rparr>"
  obtain scr where scr: "boot_screen bi k1 = Some (k1\<lparr>sysm := (sysm k1)\<lparr>screen := scr\<rparr>\<rparr>)" "screen_ok scr"
    using boot_screen_ok [OF plat(1), of k1] entry(4) by (auto simp: k1_def)
  obtain g where g: "log_init (set_logger (log_crate pl)) (set_max_level (log_crate pl)) (Some LvlInfo) (facade k) = (Inr (), g)"
    using plat(2) by (cases "set_logger (log_crate pl) (facade k)") (auto simp: log_init_def)
  have fac: "facade (k1\<lparr>sysm := (sysm k1)\<lparr>screen := scr\<rparr>\<rparr>) = facade k"
    by (simp add: k1_def)
  let ?k = "kernel_log pl ''framebuffer initialized'' (k1\<lparr>sysm := (sysm k1)\<lparr>screen := scr\<rparr>, facade := g\<rparr>)"
  have "boot_console pl bi k = Some ?k"
    unfolding boot_console_def Let_def init(1) prod.case k1_def [symmetric] scr(1) bind.bind_lunit fac g expect_def sum.case ..
  then show ?thesis
    using entry scr(2) init(2) by (intro exI [of _ ?k]) (simp add: k1_def kernel_log_def)
qed

lemma boot_memory_ok:
  assumes "mapper_ok pl used_pages" "frame_api_ok (frame_type pl)" "regions_ok (memory_regions bi) off"
    and "1028 \<le> card (usable_pages (memory_regions bi))" "set heap_pages \<inter> used_pages (page_tables k) = {}"
    and "fresh_heap (kheap (sysm k))" "screen_ok (screen (sysm k))"
  shows "\<exists>k' b c n. boot_memory pl bi phys off k = Some (k', b) \<and> system_ok HEAP_START (HEAP_START + HEAP_SIZE) {} (sysm k') \<and>
    sys_metrics (sysm k') = (sys_metrics (sysm k))\<lparr>m_total_frames := c, allocated_frames := n\<rparr> \<and> files (sysm k') = files (sysm k) \<and>
    cpu k' = cpu k \<and> next_task k' = next_task k"
proof -
  obtain b c where b: "buddy_new (memory_regions bi) off phys (sys_metrics (sysm k)) = Some b" "frames_left 1028 b"
    "mon b = (sys_metrics (sysm k))\<lparr>m_total_frames := c\<rparr>"
    using buddy_new_left [OF assms(3,4)] by blast
  obtain p' b' h' where i: "init_heap (boot_paging pl) ((page_tables k, b), kheap (sysm k)) = Some (Inr (), (p', b'), h')"
    "frames_counted b b'" "heap_inv HEAP_START (HEAP_START + HEAP_SIZE) h' {}"
    using init_heap_boot [OF assms(1,2) b(2) assms(6,5)] by blast
  obtain n where n: "mon b' = (sys_metrics (sysm k))\<lparr>m_total_frames := c, allocated_frames := n\<rparr>"
    using i(2) b(3) by (auto simp: frames_counted_def)
  let ?s = "put_metrics (mon b') ((sysm k)\<lparr>kheap := h'\<rparr>)"
  have "current_allocated (kernel_heap.metrics h') = 0" "current_allocated (sys_metrics (sysm k)) = 0"
    using i(3) assms(6) by (auto simp: heap_inv_def fresh_heap_def sys_metrics_def unat_eq_0)
  then have "system_ok HEAP_START (HEAP_START + HEAP_SIZE) {} ?s"
    using i(3) assms(7) n by (intro system_ok_put_metrics) (simp_all add: system_ok_def sys_metrics_heap)
  moreover define k1 where "k1 = kernel_log pl ''heap initialized'' (k\<lparr>page_tables := p', sysm := ?s\<rparr>)"
  moreover have "boot_memory pl bi phys off k = Some (k1\<lparr>sysm := start_trace (sysm k1)\<rparr>, b')"
    using b(1) i(1) by (simp add: boot_memory_def expect_def k1_def Let_def)
  ultimately show ?thesis
    using n by (intro exI [of _ "k1\<lparr>sysm := start_trace (sysm k1)\<rparr>"] exI [of _ b'] exI [of _ c] exI [of _ n]) (simp add: kernel_log_def)
qed

lemma boot_services_ok:
  assumes "system_ok lo hi L (sysm k)" "files (sysm k) = fs_new" "idt_loaded (cpu k)"
    and "\<And>io t s. boot_apic (hw pl) (acpi_memory pl) (rsdp_addr bi) off io t s \<noteq> None"
  shows "\<exists>k'. boot_services pl bi off k = Some k' \<and> system_ok lo hi L (sysm k') \<and> files (sysm k') = demo_files \<and>
    idt_loaded (cpu k') \<and> irq_enabled (cpu k') \<and> sys_metrics (sysm k') = sys_metrics (sysm k) \<and> next_task k' = next_task k"
proof -
  obtain c d where ap: "boot_apic (hw pl) (acpi_memory pl) (rsdp_addr bi) off (kb_io k) (sys_trace (sysm k)) (cpu k, dev (sysm k)) = Some (c, d)"
    "irq_enabled c" "idt_loaded c"
    using assms(4) [of "kb_io k" "sys_trace (sysm k)" "(cpu k, dev (sysm k))"] boot_apic_enables assms(3) by fastforce
  define k1 where "k1 = k\<lparr>cpu := c, sysm := (sysm k)\<lparr>dev := d\<rparr>\<rparr>"
  obtain sys where sys: "demo_fs (console_of pl (facade k1)) (sysm k1) = Some sys" "files sys = demo_files" "screen_ok (screen sys)" "kheap sys = kheap (sysm k1)"
    using demo_fs_ok [of "sysm k1" "console_of pl (facade k1)"] assms(1,2) by (auto simp: k1_def system_ok_def)
  have "boot_services pl bi off k = Some (kernel_log pl ''filesystem demo done'' (k1\<lparr>sysm := sys\<rparr>))"
    unfolding boot_services_def Let_def ap(1) bind.bind_lunit prod.case k1_def [symmetric] sys(1) ..
  then show ?thesis
    using assms(1) ap(2,3) sys sys_metrics_kheap [OF sys(4)]
    by (intro exI [of _ "kernel_log pl ''filesystem demo done'' (k1\<lparr>sysm := sys\<rparr>)"]) (simp add: k1_def kernel_log_def system_ok_def)
qed

lemma spawn_tasks_ok:
  fixes f1 f2 :: 't
  assumes "active_tasks (sys_metrics (sysm k)) = 0"
  shows "\<exists>e. spawn_tasks f1 f2 k = Some (k\<lparr>next_task := next_task k + 2,
      sysm := put_metrics (inc_task_spawned (inc_task_spawned (sys_metrics (sysm k)))) (sysm k)\<rparr>, e) \<and>
    aq_contents (task_queue e) = [next_task k, next_task k + 1] \<and>
    map_option future (bt_get (tasks e) (next_task k)) = Some f1 \<and> map_option future (bt_get (tasks e) (next_task k + 1)) = Some f2"
proof -
  let ?m = "sys_metrics (sysm k)" and ?n = "next_task k"
  let ?t1 = "\<lparr>task_id = ?n, future = f1, task_waker = None\<rparr>" and ?t2 = "\<lparr>task_id = ?n + 1, future = f2, task_waker = None\<rparr>"
  obtain e0 where e0: "executor_new = Some (e0 :: 't executor)" "executor_inv (e0, monitor_new)" "enat (usize_bound - 1) \<le> aq_room (task_queue e0)"
    using executor_new_inv by blast
  have inv0: "executor_inv (e0, ?m)" and fresh: "tasks e0 = []" "aq_contents (task_queue e0) = []"
    using e0(1,2) assms by (auto simp: executor_inv_def monitor_new_def executor_new_def aq_new_def require_def
        aq_contents_def aq_len_def split: bind_splits if_splits)
  have "0 < aq_room (task_queue e0)"
    using e0(3) by (cases "aq_room (task_queue e0)") (auto simp: zero_enat_def)
  then obtain e1 where e1: "spawn ?t1 (e0, ?m) = Some (e1, inc_task_spawned ?m)" "executor_inv (e1, inc_task_spawned ?m)"
    "aq_contents (task_queue e1) = [?n]" "bt_get (tasks e1) = [?n \<mapsto> ?t1\<lparr>task_waker := Some ?n\<rparr>]"
    "aq_room (task_queue e0) \<le> eSuc (aq_room (task_queue e1))"
    using spawn_inv [OF inv0, of ?t1] fresh by (auto simp: MAX_TASKS_def fun_eq_iff)
  have "0 < aq_room (task_queue e1)"
    using order_trans [OF e0(3) e1(5)] by (cases "aq_room (task_queue e1)") (auto simp: zero_enat_def eSuc_enat)
  then obtain e2 where e2: "spawn ?t2 (e1, inc_task_spawned ?m) = Some (e2, inc_task_spawned (inc_task_spawned ?m))"
    "aq_contents (task_queue e2) = [?n, ?n + 1]"
    "bt_get (tasks e2) = [?n \<mapsto> ?t1\<lparr>task_waker := Some ?n\<rparr>, ?n + 1 \<mapsto> ?t2\<lparr>task_waker := Some (?n + 1)\<rparr>]"
    using spawn_inv [OF e1(2), of ?t2] e1(3,4) by (auto simp: MAX_TASKS_def)
  have "spawn_tasks f1 f2 k = Some (k\<lparr>next_task := ?n + 2, sysm := put_metrics (inc_task_spawned (inc_task_spawned ?m)) (sysm k)\<rparr>, e2)"
    by (simp add: spawn_tasks_def task_new_def task_id_new_def e0(1) e1(1) e2(1) add.commute [of 2])
  then show ?thesis
    using e2(2,3) by simp
qed

subsection \<open>The boot sequence\<close>

lemma demo_files_test: "read_file demo_files ''/home/test'' = Inr (ascii ''nested file!'')"
  by code_simp


subsection \<open>A small machine\<close>

text \<open>
  Devices that answer zero, eight megabytes of memory above the first, no ACPI tables, page tables as the
  list of the mapped pages, and a log facade that takes one logger.
\<close>

definition small_platform :: "(unit, nat list, bool \<times> level_filter) platform" where
  "small_platform =
     \<lparr>hw = \<lparr>ports = \<lparr>port_in = \<lambda>_ d. (0, d), port_out = \<lambda>_ _ d. d\<rparr>,
            mmio = \<lparr>read_volatile = \<lambda>_ d. (0, d), write_volatile = \<lambda>_ _ d. d\<rparr>, chk_align = True\<rparr>,
      frame_type = phys_frames, virt_addr = Some,
      map_page = (\<lambda>page f (p, b). Some (if page \<in> set p then (Inl (PageAlreadyMapped f), p, b) else (Inr (), page # p, b))),
      log_crate = \<lparr>set_logger = \<lambda>(r, l). (if r then Inl () else Inr (), True, l), set_max_level = \<lambda>l (r, _). (r, l),
                   level_of = snd, has_logger = fst\<rparr>,
      clock = \<lambda>_. 0, weak_failures = \<lambda>_. [], acpi_memory = \<lambda>_. 0\<rparr>"

definition small_boot_info :: boot_info where
  "small_boot_info =
     \<lparr>framebuffer = Some (replicate 3840 0, small_fb), physical_memory_offset = Some 0,
      memory_regions = [\<lparr>region_start = 0x100000, region_end = 0x900000, region_kind = Usable\<rparr>], rsdp_addr = None\<rparr>"

definition small_kernel :: "(unit, nat list, bool \<times> level_filter) kernel" where
  "small_kernel =
     \<lparr>cpu = \<lparr>cr0_reg = 0, cr4_reg = 0, idt_loaded = False, irq_enabled = False, apic_state = apic_globals_new\<rparr>,
      sysm = \<lparr>serial_up = False, dev = (), screen = None, kheap = boot_heap, files = fs_new\<rparr>,
      facade = (False, None), page_tables = [], kb_io = kio pc_machine, next_task = 0\<rparr>"

lemma small_kernel_entry: "at_entry small_kernel"
  by (auto simp: at_entry_def small_kernel_def boot_heap_def sys_metrics_def)

lemma small_map_ok: "regions_ok (memory_regions small_boot_info) 0" "1028 \<le> card (usable_pages (memory_regions small_boot_info))"
proof -
  show "regions_ok (memory_regions small_boot_info) 0"
    by (simp add: small_boot_info_def regions_ok_def usable_regions_def region_ok_def)
  have "usable_pages (memory_regions small_boot_info) = {..<2048}"
    by (auto simp: small_boot_info_def usable_pages_def usable_regions_def MAX_TRACKED_FRAMES_def Let_def)
  then show "1028 \<le> card (usable_pages (memory_regions small_boot_info))"
    by simp
qed

lemma frames_left_mono: "frames_left n b \<Longrightarrow> m \<le> n \<Longrightarrow> frames_left m b"
  by (auto simp: frames_left_def)

lemma small_mapper_ok: "mapper_ok small_platform set"
  using frames_left_mono by (auto simp: mapper_ok_def small_platform_def frames_counted_refl)

lemma small_bootable: "bootable small_platform set small_boot_info small_kernel"
proof -
  have "boot_apic (hw small_platform) (acpi_memory small_platform) None 0 io t s \<noteq> None" for io t s
    by (cases s) (simp add: boot_apic_def init_apic_def)
  then show ?thesis
    using small_mapper_ok small_map_ok phys_frames_ok
    by (auto simp: bootable_def small_platform_def small_boot_info_def small_kernel_def small_fb_def geometry_ok_def)
qed


end
