(* ===== verification/Spec2Isabelle.thy ===== *)
theory Spec2Isabelle
  imports Array_Queue Buddy_Props Filesystem_Props Executor_Props Keyboard_Props Bump Linked_List Kernel_Heap_Props
    Acpi_Props Interrupts_Props Framebuffer_Props Shell_Props Boot_Props
begin

text \<open>
  A verification development for Yonti-os, a single-core x86-64 kernel in Rust (\<^verbatim>\<open>kernel/src\<close>).

  \<^bold>\<open>The kernel.\<close>  The boot loader hands over a memory map, a frame buffer and the address of the ACPI
  tables.  \<^verbatim>\<open>main.rs\<close> gives the usable memory to the buddy frame allocator
  (\<^verbatim>\<open>memory/buddy.rs\<close>), maps the heap and gives it to the TLSF allocator (\<^verbatim>\<open>allocator.rs\<close>,
  \<^verbatim>\<open>allocator/tlsf.rs\<close>), looks for the APIC (\<^verbatim>\<open>apic\<close>) and falls back on the two 8259 chips
  (\<^verbatim>\<open>pic.rs\<close>), fills the in-memory file system (\<^verbatim>\<open>fs\<close>) and runs a cooperative executor
  (\<^verbatim>\<open>task\<close>).  The keyboard interrupt (\<^verbatim>\<open>interrupts.rs\<close>) pushes scancodes into a ring buffer
  (\<^verbatim>\<open>array_queue.rs\<close>) and wakes the shell task (\<^verbatim>\<open>shell.rs\<close>), which prints on the serial port
  (\<^verbatim>\<open>serial.rs\<close>, \<^verbatim>\<open>uart.rs\<close>) and on the frame buffer (\<^verbatim>\<open>framebuffer.rs\<close>, \<^verbatim>\<open>font.rs\<close>).
  Counters (\<^verbatim>\<open>monitor.rs\<close>), an event trace (\<^verbatim>\<open>trace.rs\<close>), a logger (\<^verbatim>\<open>log.rs\<close>) and crash
  dumps (\<^verbatim>\<open>debug.rs\<close>) observe all of it.

  \<^bold>\<open>Conventions.\<close>  The kernel is built with overflow checks.  A function that can panic returns an
  option and \<^term>\<open>None\<close> is the panic; \<^verbatim>\<open>Result\<close> is a sum with the error on the left.  Checked
  \<^verbatim>\<open>usize\<close> arithmetic is arithmetic on naturals through \<^const>\<open>uadd\<close>, \<^const>\<open>usub\<close> and
  \<^const>\<open>umul\<close>; wrapping and bitwise operations are on words of the width of the source.  State is passed
  explicitly, a structure is a record, an enumeration a datatype.  Crates and hardware are parameters:
  the bus behind ports and memory-mapped registers (\<open>Port_IO\<close>), \<^verbatim>\<open>PhysFrame\<close> and the page mapper
  of \<^verbatim>\<open>x86_64\<close>, the decoder of \<^verbatim>\<open>pc_keyboard\<close>, the facade of \<^verbatim>\<open>log\<close>, the polled futures, the
  time stamp counter and spurious failures of weak compare-and-swap.  What the code relies on is a
  named predicate (\<^verbatim>\<open>..._bus_ok\<close>, \<^verbatim>\<open>paging_ok\<close>, \<^verbatim>\<open>frame_api_ok\<close>, and so on) with a concrete instance in
  the witnesses.

  \<^bold>\<open>Theories, definitions and what the lemmas show.\<close>

  \<^item> \<open>Prelude\<close>: word types, checked arithmetic, loops over lists, shared lemmas.  \<open>Ordered_Map\<close>: the
    content of a \<^verbatim>\<open>BTreeMap\<close>.  \<open>Text\<close>: number formatting, parsing, UTF-8, words; printing a number and
    parsing it is the identity.
  \<^item> \<open>Queue_Interface\<close>, \<open>Array_Queue\<close> (\<^verbatim>\<open>array_queue.rs\<close>): a locale for bounded queues that refine a
    list, interpreted on the ring buffer for every capacity until a counter wraps and for powers of two
    for ever; with the capacity 100 an accepted element is lost after the wrap.
  \<^item> \<open>Buddy\<close>, \<open>Buddy_Inv\<close>, \<open>Buddy_Ops\<close>, \<open>Buddy_Init\<close>, \<open>Buddy_Props\<close> (\<^verbatim>\<open>memory/buddy.rs\<close>): free lists
    threaded through the free frames, bitmap and counters.  Every reachable state partitions the usable
    frames into free and live ones, no operation panics, allocation fails only when no aligned free run
    exists, and construction establishes the invariant for regions that do not touch.
  \<^item> \<open>Alloc_Interface\<close>, \<open>Bump\<close>, \<open>Linked_List\<close>: the contract of a heap allocator as a locale, interpreted
    on both simple allocators: over every sequence of calls live blocks are aligned, in the heap and
    disjoint, and no call panics.
  \<^item> \<open>Tlsf\<close>, \<open>Tlsf_Class\<close>, \<open>Tlsf_Index\<close>, \<open>Tlsf_Inv\<close>, \<open>Tlsf_Ops\<close> (\<^verbatim>\<open>allocator/tlsf.rs\<close>): headers and
    list nodes as cells of raw memory.  \<open>Tlsf_Index\<close> abstracts bitmaps and free lists to a finite map from
    addresses to sizes, \<open>Tlsf_Inv\<close> the heap to a list of blocks, and \<open>Tlsf_Ops\<close> shows \<^verbatim>\<open>init\<close>,
    \<^verbatim>\<open>malloc\<close> and \<^verbatim>\<open>free\<close> on that list.
  \<^item> \<open>Kernel_Heap\<close>, \<open>Kernel_Heap_Props\<close> (\<^verbatim>\<open>allocator.rs\<close>): the global allocator with its metrics and trace
    events, the same locale interpreted on it for alignments up to 8 and sizes below \<open>2^57\<close>, the mapping
    of the heap, coalescing, good fit, and the panics outside these bounds.
  \<^item> \<open>Path\<close>, \<open>Filesystem\<close>, \<open>Filesystem_Props\<close> (\<^verbatim>\<open>fs\<close>): every call sequence answers as a map from
    component lists to entries, within the documented limits; where depth and inode accounting go wrong.
  \<^item> \<open>Async\<close>, \<open>Executor\<close>, \<open>Executor_Props\<close>, \<open>Keyboard\<close>, \<open>Keyboard_Props\<close> (\<^verbatim>\<open>once_cell.rs\<close>,
    \<^verbatim>\<open>async_utils.rs\<close>, \<^verbatim>\<open>task\<close>): a step relation interleaves interrupts with the atomic accesses of
    \<^verbatim>\<open>poll_next\<close>.  No wake-up is lost, bytes arrive in order, the ready loop terminates when wakes are
    paid for, and a dropped wake is final.
  \<^item> \<open>Port_IO\<close>, \<open>Pic\<close>, \<open>Uart\<close>, \<open>Acpi\<close>, \<open>Acpi_Props\<close>, \<open>Apic\<close>, \<open>Apic_Props\<close>, \<open>Interrupts\<close>,
    \<open>Interrupts_Props\<close>: drivers as sequences of bus accesses against the documented devices; table parsing,
    routing, acknowledgement, and that exactly one controller is in charge after \<^verbatim>\<open>init_apic\<close>.
  \<^item> \<open>Font\<close>, \<open>Framebuffer\<close>, \<open>Framebuffer_Props\<close>: the screen as a matrix of colours; no access leaves the
    buffer, and what a character and a scroll paint.
  \<^item> \<open>Monitor\<close>, \<open>Trace\<close>: counters and the ring of events, and what a dump shows.
  \<^item> \<open>Console\<close>, \<open>Console_Props\<close> (\<^verbatim>\<open>serial.rs\<close>, \<^verbatim>\<open>vga_buffer.rs\<close>, \<^verbatim>\<open>log.rs\<close>, \<^verbatim>\<open>debug.rs\<close>): printing,
    logging and crash dumps, down to the bytes on the serial line.
  \<^item> \<open>Shell\<close>, \<open>Shell_Props\<close> (\<^verbatim>\<open>shell.rs\<close>): the composition of keyboard decoder, line editor, commands,
    heap, file system and console.  The shell keeps all of them well formed, the editor refines a bounded
    list, and one line can stop the kernel.
  \<^item> \<open>Boot_State\<close>, \<open>Boot_Devices\<close>, \<open>Boot\<close>, \<open>Boot_Props\<close> (\<^verbatim>\<open>main.rs\<close>, \<^verbatim>\<open>lib.rs\<close>, \<^verbatim>\<open>sse.rs\<close>): the stages of
    \<^verbatim>\<open>kernel_main\<close> over the components above, from the statics at entry to the executor with its two
    tasks, and the test harness.  On every platform with 1028 usable frames (four for each of the 257 pages of
    the heap) the kernel comes up without a panic.

  \<^bold>\<open>Bounds and fuel.\<close>  Loops are structural recursion, recursion with a measure, or a partial function
  with a proof that it returns (the search of the linked-list allocator, the ready loop of the executor).
  The retry counter of \<^verbatim>\<open>wait_for!\<close> (100000) and the sixteen frames of a stack trace are the bounds of the
  source.  The list of spurious failures of a compare-and-swap is arbitrary but finite.  Heap requests
  below \<open>2^57\<close> keep every size computation of TLSF far from overflow; larger ones are covered by
  separate lemmas.

  \<^bold>\<open>Not modelled.\<close>
  \<^item> \<^verbatim>\<open>gdt.rs\<close>: only builds descriptors with the \<^verbatim>\<open>x86_64\<close> crate and loads them; its \<^verbatim>\<open>init\<close> is not called.
  \<^item> \<^verbatim>\<open>memory.rs\<close>: turns the page table register into an \<^verbatim>\<open>OffsetPageTable\<close> of the crate; the mapper is a
    parameter.
  \<^item> The heap blocks behind temporary \<^verbatim>\<open>String\<close> and \<^verbatim>\<open>Vec\<close> values, and of the file system's own
    strings and maps: collections are values here.
  \<^item> \<^verbatim>\<open>print_keypresses\<close> of \<^verbatim>\<open>task/keyboard.rs\<close>, which no task runs; executor threads of more than one core.
  \<^item> In \<^verbatim>\<open>main.rs\<close> the lines \<^verbatim>\<open>init_apic\<close> logs, the example task and the panic handlers; the kernel's
    counters travel with the heap, the frame allocator and the executor in turn, so that their updates by
    interrupts during boot are not seen.
  \<^item> The disk image builder and the host-side launcher under \<^verbatim>\<open>runner\<close>: they call Cargo and QEMU.
\<close>

end
